(* ===== verification/Prelude.thy ===== *)
theory Prelude
  imports Main "HOL-Library.Word"
begin

unbundle bit_operations_syntax

text \<open>
  Types, outcomes and generic lemmas the components share.

  Machine integers keep their width: \<open>uint8_t\<close> is \<open>8 word\<close>, \<open>uint16_t\<close> is \<open>16 word\<close>
  and so on.  A C call whose behaviour the language leaves undefined is a value
  of \<open>c_fault\<close>; a function that can reach one returns \<open>c_fault + 'a\<close>, with
  \<open>Inl\<close> for the fault.  A pointer parameter that may be \<open>NULL\<close> is an
  \<open>option\<close>, and the object it points to is the list of the bytes that may be read
  from the pointer on.
\<close>

section \<open>Types\<close>

type_synonym u8 = "8 word"
type_synonym u16 = "16 word"
type_synonym u32 = "32 word"
type_synonym u64 = "64 word"

text \<open>What the C standard leaves undefined, by cause.\<close>

datatype c_fault =
    Null_Dereference
  | Out_Of_Bounds
  | Use_After_Free
  | Uninitialised_Read

type_synonym 'a result = "c_fault + 'a"

text \<open>Sequencing: the first fault ends the run.\<close>

definition bind_r :: "'a result \<Rightarrow> ('a \<Rightarrow> 'b result) \<Rightarrow> 'b result" where
  "bind_r m f = (case m of Inl e \<Rightarrow> Inl e | Inr x \<Rightarrow> f x)"

lemma bind_r_assoc: "bind_r (bind_r m f) g = bind_r m (\<lambda>x. bind_r (f x) g)"
  by (cases m) (simp_all add: bind_r_def)

named_theorems run_simps \<open>equations that evaluate sequenced C statements\<close>

lemma bind_r_Inl [simp, run_simps]: "bind_r (Inl e) f = Inl e"
  by (simp add: bind_r_def)

lemma bind_r_Inr [simp, run_simps]: "bind_r (Inr x) f = f x"
  by (simp add: bind_r_def)

lemma bind_r_eq_Inr [simp]:
  "bind_r m f = Inr y \<longleftrightarrow> (\<exists>x. m = Inr x \<and> f x = Inr y)"
  by (cases m) auto

section \<open>Error numbers\<close>

text \<open>The values of \<open>errno\<close> the sources assign, as Linux numbers them.\<close>

definition EPERM :: int where "EPERM = 1"
definition ENOMEM :: int where "ENOMEM = 12"
definition EADDRNOTAVAIL :: int where "EADDRNOTAVAIL = 99"

lemmas errno_defs = EPERM_def ENOMEM_def EADDRNOTAVAIL_def

section \<open>Calls that may not return\<close>

text \<open>A function with a loop over pointers has results of type \<open>'a result option\<close>: \<open>None\<close>
  stands for a run that never returns.\<close>

definition bind_c :: "'a result option \<Rightarrow> ('a \<Rightarrow> 'b result option) \<Rightarrow> 'b result option" where
  "bind_c m f =
     (case m of None \<Rightarrow> None | Some (Inl e) \<Rightarrow> Some (Inl e) | Some (Inr x) \<Rightarrow> f x)"

lemma bind_c_simps [simp, run_simps]:
  "bind_c None f = None" "bind_c (Some (Inl e)) f = Some (Inl e)" "bind_c (Some (Inr x)) f = f x"
  by (simp_all add: bind_c_def)

lemma bind_c_eq_Inr [simp]:
  "bind_c m f = Some (Inr y) \<longleftrightarrow> (\<exists>x. m = Some (Inr x) \<and> f x = Some (Inr y))"
  by (auto simp: bind_c_def split: option.split sum.split)

lemma run_cases:
  obtains "r = None" | e where "r = Some (Inl e)" | x y where "r = Some (Inr (x, y))"
  by (cases r; cases "the r") auto

section \<open>C strings\<close>

text \<open>
  \<open>strcmp(a, b) == 0\<close> and \<open>strncmp(a, b, n) == 0\<close> on the bytes readable from each pointer.
  Both read byte by byte up to the first difference or terminator.
\<close>

fun strcmp_eq :: "u8 list \<Rightarrow> u8 list \<Rightarrow> bool result" where
  "strcmp_eq (a # as) (b # bs) =
     (if a \<noteq> b then Inr False else if a = 0 then Inr True else strcmp_eq as bs)"
| "strcmp_eq _ _ = Inl Out_Of_Bounds"

fun strncmp_eq :: "nat \<Rightarrow> u8 list \<Rightarrow> u8 list \<Rightarrow> bool result" where
  "strncmp_eq 0 as bs = Inr True"
| "strncmp_eq (Suc n) (a # as) (b # bs) =
     (if a \<noteq> b then Inr False else if a = 0 then Inr True else strncmp_eq n as bs)"
| "strncmp_eq (Suc n) _ _ = Inl Out_Of_Bounds"

text \<open>The string in a buffer, without its terminator.\<close>

definition cstr :: "u8 list \<Rightarrow> u8 list" where
  "cstr bs = takeWhile (\<lambda>c. c \<noteq> 0) bs"

lemma strncmp_eq_cstr:
  "n \<le> length as \<Longrightarrow> n \<le> length bs \<Longrightarrow>
   strncmp_eq n as bs = Inr (cstr (take n as) = cstr (take n bs))"
  by (induction n as bs rule: strncmp_eq.induct) (auto simp: cstr_def)

lemma strcmp_eq_cstr:
  assumes "length bs \<le> length as"
  shows "strcmp_eq as bs =
    (if take (length bs) as = bs \<and> 0 \<notin> set bs then Inl Out_Of_Bounds
     else Inr (cstr (take (length bs) as) = cstr bs))"
  using assms by (induction as bs rule: strcmp_eq.induct) (auto simp: cstr_def)

section \<open>The byte loop\<close>

text \<open>
  \<open>for (a = 0; a < num_bytes; a++) s = f(s, *ptr++);\<close> over the bytes readable from
  \<open>ptr\<close>: a read past them is a fault.
\<close>

fun for_bytes :: "('s \<Rightarrow> u8 \<Rightarrow> 's) \<Rightarrow> u8 list \<Rightarrow> nat \<Rightarrow> 's \<Rightarrow> 's result" where
  "for_bytes f bs 0 s = Inr s"
| "for_bytes f [] (Suc n) s = Inl Out_Of_Bounds"
| "for_bytes f (b # bs) (Suc n) s = for_bytes f bs n (f s b)"

lemma for_bytes_in_range [simp]:
  "n \<le> length bs \<Longrightarrow> for_bytes f bs n s = Inr (foldl f s (take n bs))"
  by (induction f bs n s rule: for_bytes.induct) auto

lemma for_bytes_out_of_range:
  "length bs < n \<Longrightarrow> for_bytes f bs n s = Inl Out_Of_Bounds"
  by (induction f bs n s rule: for_bytes.induct) auto

section \<open>Words\<close>

lemma word_eqI_len:
  fixes x y :: "'a::len word"
  assumes "\<And>n. n < LENGTH('a) \<Longrightarrow> bit x n = bit y n"
  shows "x = y"
  using assms by (rule bit_word_eqI)

lemma and_255_eq_take_bit: "(x :: 'a::len word) AND 255 = take_bit 8 x"
proof -
  have "(255 :: 'a word) = mask 8"
    by (simp add: mask_eq_exp_minus_1)
  then show ?thesis
    by (simp add: take_bit_eq_mask)
qed

lemma unat_and_255_less [simp]: "unat ((x :: 'a::len word) AND 255) < 256"
  using take_bit_nat_less_exp [of 8 "unat x"]
  by (simp add: and_255_eq_take_bit unsigned_take_bit_eq)

lemma xor_xor_cancel [simp]: "x XOR (x XOR y) = (y :: 'a::len word)"
  by (simp add: xor.assoc [symmetric])

lemma xor_word_cancel_left [simp]: "(x XOR y = x XOR z) = (y = (z :: 'a::len word))"
  by (metis xor_xor_cancel)

lemma xor_word_cancel_right [simp]: "(y XOR x = z XOR x) = (y = (z :: 'a::len word))"
  by (metis xor.commute xor_xor_cancel)

lemma xor_eq_0_iff_word [simp]: "(x XOR y = 0) = (x = (y :: 'a::len word))"
  by (metis xor_self_eq xor_word_cancel_left)

lemma drop_bit_eq_0_bits:
  fixes x :: "'a::len word"
  assumes "drop_bit n x = 0" "n \<le> i"
  shows "\<not> bit x i"
proof -
  have "bit x i = bit (drop_bit n x) (i - n)"
    using assms(2) by (simp add: bit_drop_bit_eq)
  then show ?thesis
    using assms(1) by simp
qed

lemma and_1_eq_0_iff: "((x :: 'a::len word) AND 1 = 0) = (\<not> bit x 0)"
  using and_exp_eq_0_iff_not_bit [of x 0] by simp

lemma bit_of_nat_word: "bit (of_nat i :: 'a::len word) n = (n < LENGTH('a) \<and> bit i n)"
  using bit_word_of_int_iff [where 'a = 'a, of "int i" n] by (simp add: bit_of_nat_iff_bit)

lemma not_bit_of_less: "i < 2 ^ m \<Longrightarrow> m \<le> n \<Longrightarrow> \<not> bit (i :: nat) n"
  using bit_take_bit_iff [of m i n] by (simp add: take_bit_nat_eq_self)

lemma unat_u8_less [simp]: "unat (x :: u8) < 256"
  using unsigned_less [of x, where 'a = nat] by simp

lemma funpow_numeral: "(f ^^ numeral k) x = f ((f ^^ pred_numeral k) x)"
  by (simp add: numeral_eq_Suc)

lemma funpow_comm: "(f ^^ m) ((f ^^ n) x) = (f ^^ n) ((f ^^ m) x)"
  by (metis add.commute comp_apply funpow_add)

end
