(* ===== verification/Crc_Reference.thy ===== *)
theory Crc_Reference
  imports Prelude
begin

unbundle bit_operations_syntax

text \<open>
  What the CRC routines of libcrc are meant to compute, one bit at a time, and the
  laws every one of them shares.  \<open>crc_rstep\<close> is the shift register of the
  reflected routines (CRC-16, Modbus, DNP, Kermit, CRC-32), \<open>crc_lstep\<close> that of the
  others (CCITT, CRC-8, CRC-64).  The two locales hold what follows from
  linearity and reversibility alone: streaming, and detection of errors.
\<close>

section \<open>The two shift registers\<close>

definition crc_rstep :: "'a::len word \<Rightarrow> 'a word \<Rightarrow> 'a word" where
  "crc_rstep poly c = (if bit c 0 then drop_bit 1 c XOR poly else drop_bit 1 c)"

definition crc_lstep :: "'a::len word \<Rightarrow> 'a word \<Rightarrow> 'a word" where
  "crc_lstep poly c =
     (if bit c (LENGTH('a) - 1) then push_bit 1 c XOR poly else push_bit 1 c)"

text \<open>A message byte enters at the low end of the reflected register and at the high
  end of the other one; eight shifts follow.\<close>

definition crc_rbyte :: "'a::len word \<Rightarrow> 'a word \<Rightarrow> u8 \<Rightarrow> 'a word" where
  "crc_rbyte poly c b = (crc_rstep poly ^^ 8) (c XOR ucast b)"

definition crc_lbyte :: "'a::len word \<Rightarrow> 'a word \<Rightarrow> u8 \<Rightarrow> 'a word" where
  "crc_lbyte poly c b = (crc_lstep poly ^^ 8) (c XOR push_bit (LENGTH('a) - 8) (ucast b))"

section \<open>Linearity\<close>

lemma crc_rstep_xor: "crc_rstep p (x XOR y) = crc_rstep p x XOR crc_rstep p y"
  by (auto simp: crc_rstep_def bit_xor_iff drop_bit_xor ac_simps)

lemma crc_lstep_xor: "crc_lstep p (x XOR y) = crc_lstep p x XOR crc_lstep p y"
  by (auto simp: crc_lstep_def bit_xor_iff push_bit_xor ac_simps)

lemma crc_rstep_0 [simp]: "crc_rstep p 0 = 0"
  by (simp add: crc_rstep_def)

lemma crc_lstep_0 [simp]: "crc_lstep p 0 = 0"
  by (simp add: crc_lstep_def)

lemma crc_rsteps_0 [simp]: "(crc_rstep p ^^ n) 0 = 0"
  by (induction n) simp_all

lemma crc_lsteps_0 [simp]: "(crc_lstep p ^^ n) 0 = 0"
  by (induction n) simp_all

lemma funpow_xor:
  fixes f :: "'a::len word \<Rightarrow> 'a word"
  assumes "\<And>x y. f (x XOR y) = f x XOR f y"
  shows "(f ^^ n) (x XOR y) = (f ^^ n) x XOR (f ^^ n) y"
  by (induction n arbitrary: x y) (simp_all add: assms funpow_swap1)

lemmas crc_rsteps_xor = funpow_xor [OF crc_rstep_xor]
lemmas crc_lsteps_xor = funpow_xor [OF crc_lstep_xor]


section \<open>Bits that fall out\<close>

lemma crc_rsteps_low_clear:
  assumes "\<And>i. i < n \<Longrightarrow> \<not> bit x i"
  shows "(crc_rstep p ^^ n) x = drop_bit n x"
  using assms
proof (induction n arbitrary: x)
  case (Suc n)
  have "crc_rstep p x = drop_bit 1 x"
    using Suc.prems [of 0] by (simp add: crc_rstep_def)
  moreover have "(crc_rstep p ^^ n) (drop_bit 1 x) = drop_bit n (drop_bit 1 x)"
    using Suc.prems by (intro Suc.IH) (simp add: bit_drop_bit_eq)
  ultimately show ?case
    by (simp add: funpow_swap1 drop_bit_drop_bit add.commute)
qed simp

lemma crc_lsteps_high_clear:
  fixes x :: "'a::len word"
  assumes "\<And>i. LENGTH('a) \<le> i + n \<Longrightarrow> \<not> bit x i"
  shows "(crc_lstep p ^^ n) x = push_bit n x"
  using assms
proof (induction n arbitrary: x)
  case (Suc n)
  have "crc_lstep p x = push_bit 1 x"
    using Suc.prems [of "LENGTH('a) - 1"] by (simp add: crc_lstep_def)
  moreover have "(crc_lstep p ^^ n) (push_bit 1 x) = push_bit n (push_bit 1 x)"
    using Suc.prems by (intro Suc.IH) (simp add: bit_push_bit_iff del: push_bit_Suc)
  ultimately show ?case
    by (simp add: funpow_swap1 push_bit_push_bit add.commute)
qed simp

section \<open>Reversibility\<close>

lemma crc_rstep_eq_0:
  fixes x :: "'a::len word"
  assumes "bit p (LENGTH('a) - 1)" "crc_rstep p x = 0"
  shows "x = 0"
proof (cases "bit x 0")
  case True
  then have "drop_bit 1 x = p"
    using assms(2) by (simp add: crc_rstep_def)
  then have "bit x (LENGTH('a))"
    using assms(1) by (auto simp: bit_drop_bit_eq)
  then show ?thesis
    using bit_imp_le_length by blast
next
  case False
  then have "drop_bit 1 x = 0"
    using assms(2) by (simp add: crc_rstep_def)
  then have "\<not> bit x i" for i
    using False drop_bit_eq_0_bits [of 1 x i] by (cases i) auto
  then show ?thesis
    by (simp add: bit_eq_iff)
qed

lemma crc_lstep_eq_0:
  fixes x :: "'a::len word"
  assumes "bit p 0" "crc_lstep p x = 0"
  shows "x = 0"
proof (cases "bit x (LENGTH('a) - 1)")
  case True
  then have "push_bit 1 x = p"
    using assms(2) by (simp add: crc_lstep_def)
  then show ?thesis
    using assms(1) by (auto simp: bit_push_bit_iff simp del: push_bit_Suc)
next
  case False
  then have shift: "push_bit 1 x = 0"
    using assms(2) by (simp add: crc_lstep_def)
  show ?thesis
  proof (rule bit_word_eqI)
    fix i assume "i < LENGTH('a)"
    show "bit x i = bit 0 i"
    proof (cases "Suc i < LENGTH('a)")
      case True
      have "\<not> bit (push_bit 1 x) (Suc i)"
        unfolding shift by simp
      then show ?thesis
        using True by (simp add: bit_push_bit_iff del: push_bit_Suc)
    next
      case last: False
      then have "i = LENGTH('a) - 1"
        using \<open>i < LENGTH('a)\<close> by simp
      then show ?thesis
        using False by simp
    qed
  qed
qed

lemma inj_of_xor_kernel:
  fixes f :: "'a::len word \<Rightarrow> 'a word"
  assumes "\<And>x y. f (x XOR y) = f x XOR f y" "\<And>x. f x = 0 \<Longrightarrow> x = 0"
  shows "inj f"
proof (rule injI)
  fix x y assume "f x = f y"
  then have "f (x XOR y) = 0"
    by (simp add: assms(1))
  then have "x XOR y = 0"
    by (rule assms(2))
  then show "x = y"
    by simp
qed

lemma inj_crc_rstep:
  fixes p :: "'a::len word"
  assumes "bit p (LENGTH('a) - 1)"
  shows "inj (crc_rstep p)"
  using crc_rstep_xor crc_rstep_eq_0 [OF assms] by (rule inj_of_xor_kernel)

lemma inj_crc_lstep:
  assumes "bit p 0"
  shows "inj (crc_lstep p)"
  using crc_lstep_xor crc_lstep_eq_0 [OF assms] by (rule inj_of_xor_kernel)

lemmas inj_crc_rsteps = inj_fn [OF inj_crc_rstep]
lemmas inj_crc_lsteps = inj_fn [OF inj_crc_lstep]

section \<open>A message byte at a time\<close>

lemma crc_rbyte_xor:
  "crc_rbyte p (c XOR d) (a XOR b) = crc_rbyte p c a XOR crc_rbyte p d b"
proof -
  have "(c XOR d) XOR ucast (a XOR b) = (c XOR ucast a) XOR (d XOR ucast b)"
    by (simp add: unsigned_xor_eq ac_simps)
  then show ?thesis
    by (simp add: crc_rbyte_def crc_rsteps_xor)
qed

lemma crc_lbyte_xor:
  "crc_lbyte p (c XOR d) (a XOR b) = crc_lbyte p c a XOR crc_lbyte p d b"
proof -
  have "(c XOR d) XOR push_bit k (ucast (a XOR b)) =
      (c XOR push_bit k (ucast a)) XOR (d XOR push_bit k (ucast b))" for k
    by (simp add: unsigned_xor_eq push_bit_xor ac_simps)
  then show ?thesis
    by (simp add: crc_lbyte_def crc_lsteps_xor)
qed

text \<open>A message that fits in the register enters it as one number, \<open>crc_rpack\<close> in the
  reflected case and \<open>crc_lpack\<close> in the other.\<close>

fun crc_rpack :: "u8 list \<Rightarrow> 'a::len word" where
  "crc_rpack [] = 0"
| "crc_rpack (b # bs) = ucast b XOR push_bit 8 (crc_rpack bs)"

fun crc_lpack :: "u8 list \<Rightarrow> 'a::len word" where
  "crc_lpack [] = 0"
| "crc_lpack (b # bs) = push_bit (LENGTH('a) - 8) (ucast b) XOR drop_bit 8 (crc_lpack bs)"

lemma bit_ucast_u8: "8 \<le> LENGTH('a) \<Longrightarrow> bit (ucast (b :: u8) :: 'a::len word) i = bit b i"
  by (auto simp: bit_ucast_iff dest: bit_imp_le_length)

lemma ucast_u8_eq_0: "8 \<le> LENGTH('a) \<Longrightarrow> ((ucast (b :: u8) :: 'a::len word) = 0) = (b = 0)"
  by (auto simp: bit_eq_iff [where 'a = "'a word"] bit_ucast_u8 intro: bit_word_eqI)

lemma bit_crc_rpack:
  "8 * length bs \<le> LENGTH('a) \<Longrightarrow>
   bit (crc_rpack bs :: 'a::len word) i = (i div 8 < length bs \<and> bit (bs ! (i div 8)) (i mod 8))"
proof (induction bs arbitrary: i)
  case (Cons b bs)
  have len: "8 \<le> LENGTH('a)"
    using Cons.prems by simp
  show ?case
  proof (cases "i < 8")
    case True
    then show ?thesis
      using len by (simp add: bit_xor_iff bit_push_bit_iff bit_ucast_u8)
  next
    case False
    then have "\<not> bit b i"
      using bit_imp_le_length [of b i] by auto
    then have "bit (crc_rpack (b # bs) :: 'a word) i =
        (i < LENGTH('a) \<and> bit (crc_rpack bs :: 'a word) (i - 8))"
      using False len by (simp add: bit_xor_iff bit_push_bit_iff bit_ucast_u8)
    moreover have "i div 8 = Suc ((i - 8) div 8)" "(i - 8) mod 8 = i mod 8"
      using False by (simp_all add: le_div_geq le_mod_geq)
    moreover have "i < LENGTH('a)" if "i div 8 < Suc (length bs)"
      using that Cons.prems by (simp add: div_less_iff_less_mult)
    ultimately show ?thesis
      using Cons by auto
  qed
qed simp

lemma bit_crc_lpack:
  fixes i :: nat
  defines "j \<equiv> LENGTH('a::len) - 1 - i"
  assumes "8 * length bs \<le> LENGTH('a)" "i < LENGTH('a)"
  shows "bit (crc_lpack bs :: 'a word) i =
    (j div 8 < length bs \<and> bit (bs ! (j div 8)) (7 - j mod 8))"
  using assms(2,3) unfolding j_def
proof (induction bs arbitrary: i)
  case (Cons b bs)
  let ?L = "LENGTH('a)" and ?j = "LENGTH('a) - 1 - i"
  have len: "8 \<le> ?L"
    using Cons.prems by simp
  have split: "bit (crc_lpack (b # bs) :: 'a word) i =
      ((?L - 8 \<le> i \<and> bit b (i - (?L - 8))) \<noteq> bit (crc_lpack bs :: 'a word) (8 + i))"
    using Cons.prems len by (simp add: bit_xor_iff bit_push_bit_iff bit_drop_bit_eq bit_ucast_u8)
  show ?case
  proof (cases "?L - 8 \<le> i")
    case True
    then have "\<not> bit (crc_lpack bs :: 'a word) (8 + i)"
      using bit_imp_le_length [of "crc_lpack bs :: 'a word" "8 + i"] by auto
    moreover have "?j div 8 = 0" "i - (?L - 8) = 7 - ?j mod 8"
      using True Cons.prems len by auto
    ultimately show ?thesis
      using split True by simp
  next
    case False
    define k where "k = ?L - 1 - (8 + i)"
    have j: "?j = k + 8"
      using False by (simp add: k_def)
    have "8 + i < ?L"
      using False by simp
    then have "bit (crc_lpack bs :: 'a word) (8 + i) =
        (k div 8 < length bs \<and> bit (bs ! (k div 8)) (7 - k mod 8))"
      using Cons.IH [of "8 + i"] Cons.prems unfolding k_def by simp
    moreover have "(k + 8) div 8 = Suc (k div 8)"
      by simp
    ultimately show ?thesis
      using split False unfolding j by simp
  qed
qed simp

text \<open>Packing loses nothing, so registers that agree after a short message held messages that
  agree.\<close>

lemma byte_list_eqI:
  assumes "length xs = length (ys :: u8 list)"
    and "\<And>k j. k < length xs \<Longrightarrow> j < 8 \<Longrightarrow> bit (xs ! k) j = bit (ys ! k) j"
  shows "xs = ys"
  using assms by (intro nth_equalityI bit_word_eqI) auto

lemma crc_rpack_inj:
  assumes "length xs = length ys" "8 * length xs \<le> LENGTH('a::len)"
    and eq: "(crc_rpack xs :: 'a word) = crc_rpack ys"
  shows "xs = ys"
proof (rule byte_list_eqI [OF assms(1)])
  fix k j assume kj: "k < length xs" "j < (8::nat)"
  have "bit (zs ! k) j = bit (crc_rpack zs :: 'a word) (8 * k + j)"
    if "length zs = length xs" for zs
    using that kj assms(2) by (simp add: bit_crc_rpack)
  then show "bit (xs ! k) j = bit (ys ! k) j"
    using assms(1) eq by simp
qed

lemma crc_lpack_inj:
  assumes "length xs = length ys" "8 * length xs \<le> LENGTH('a::len)"
    and eq: "(crc_lpack xs :: 'a word) = crc_lpack ys"
  shows "xs = ys"
proof (rule byte_list_eqI [OF assms(1)])
  fix k j assume kj: "k < length xs" "j < (8::nat)"
  define r where "r = 7 - j"
  define i where "i = LENGTH('a) - 1 - (8 * k + r)"
  have r: "r < 8" "j = 7 - r"
    using kj by (simp_all add: r_def)
  then have "8 * k + r < LENGTH('a)"
    using kj assms(2) by simp
  then have i: "i < LENGTH('a)" "LENGTH('a) - 1 - i = 8 * k + r"
    by (simp_all add: i_def)
  then have "bit (zs ! k) j = bit (crc_lpack zs :: 'a word) i"
    if "length zs = length xs" for zs
    using that kj r assms(2) bit_crc_lpack [where 'a = 'a, of zs i] unfolding i by simp
  then show "bit (xs ! k) j = bit (ys ! k) j"
    using assms(1) eq by simp
qed

lemma crc_rbyte_fold:
  "8 * length bs \<le> LENGTH('a) \<Longrightarrow>
   foldl (crc_rbyte p) c bs = (crc_rstep p ^^ (8 * length bs)) (c XOR crc_rpack bs)"
  for c :: "'a::len word"
proof (induction bs arbitrary: c)
  case (Cons b bs)
  let ?r = "crc_rpack bs :: 'a word"
  have len: "8 * length bs \<le> LENGTH('a)"
    using Cons.prems by simp
  have fits: "drop_bit 8 (push_bit 8 ?r) = ?r"
  proof (rule bit_word_eqI)
    fix i assume "i < LENGTH('a)"
    show "bit (drop_bit 8 (push_bit 8 ?r)) i = bit ?r i"
      using Cons.prems div_less_iff_less_mult [of 8 i "length bs"]
      by (auto simp: bit_drop_bit_eq bit_push_bit_iff bit_crc_rpack len)
  qed
  have "(crc_rstep p ^^ 8) (push_bit 8 ?r) = ?r"
    by (subst crc_rsteps_low_clear) (simp_all add: bit_push_bit_iff fits)
  then have "crc_rbyte p c b XOR ?r = (crc_rstep p ^^ 8) (c XOR crc_rpack (b # bs))"
    by (simp add: crc_rbyte_def crc_rsteps_xor xor.assoc)
  then show ?case
    using Cons.IH [OF len] by (simp add: funpow_add funpow_comm [where m = 8])
qed simp

lemma crc_lbyte_fold:
  "8 * length bs \<le> LENGTH('a) \<Longrightarrow>
   foldl (crc_lbyte p) c bs = (crc_lstep p ^^ (8 * length bs)) (c XOR crc_lpack bs)"
  for c :: "'a::len word"
proof (induction bs arbitrary: c)
  case (Cons b bs)
  let ?r = "crc_lpack bs :: 'a word"
  have len: "8 * length bs \<le> LENGTH('a)"
    using Cons.prems by simp
  have low: "\<not> bit ?r i" if "i < 8" for i
  proof -
    have "length bs \<le> (LENGTH('a) - 1 - i) div 8"
      using that Cons.prems by (simp add: less_eq_div_iff_mult_less_eq)
    then show ?thesis
      using that Cons.prems bit_crc_lpack [where 'a = 'a, OF len, of i] by simp
  qed
  have fits: "push_bit 8 (drop_bit 8 ?r) = ?r"
  proof (rule bit_word_eqI)
    fix i assume "i < LENGTH('a)"
    then show "bit (push_bit 8 (drop_bit 8 ?r)) i = bit ?r i"
      using low [of i] by (cases "i < 8") (simp_all add: bit_drop_bit_eq bit_push_bit_iff)
  qed
  have "(crc_lstep p ^^ 8) (drop_bit 8 ?r) = ?r"
    by (subst crc_lsteps_high_clear)
      (auto simp: bit_drop_bit_eq fits dest: bit_imp_le_length)
  then have "crc_lbyte p c b XOR ?r = (crc_lstep p ^^ 8) (c XOR crc_lpack (b # bs))"
    by (simp add: crc_lbyte_def crc_lsteps_xor xor.assoc)
  then show ?case
    using Cons.IH [OF len] by (simp add: funpow_add funpow_comm [where m = 8])
qed simp

section \<open>What follows for every register\<close>

text \<open>
  The contract the one-pass functions, the streaming functions and the protocol
  rely on: the register is linear over exclusive or, it can be run backwards,
  and a message that fits in it is determined by it.
\<close>

locale crc_register =
  fixes step :: "'a::len word \<Rightarrow> u8 \<Rightarrow> 'a word"
  assumes step_xor: "step (c XOR d) (a XOR b) = step c a XOR step d b"
    and step_inj: "step c b = step d b \<Longrightarrow> c = d"
    and short_inj: "length us = length vs \<Longrightarrow> 8 * length us \<le> LENGTH('a) \<Longrightarrow>
      foldl step c us = foldl step c vs \<Longrightarrow> us = vs"
begin

lemma fold_inj: "foldl step c bs = foldl step d bs \<Longrightarrow> c = d"
  by (induction bs arbitrary: c d) (auto dest: step_inj)

lemma fold_xor:
  "length us = length vs \<Longrightarrow>
   foldl step (c XOR d) (map2 (XOR) us vs) = foldl step c us XOR foldl step d vs"
  by (induction us vs arbitrary: c d rule: list_induct2) (simp_all add: step_xor)

lemma burst_detected:
  assumes "length us = length vs" "8 * length us \<le> LENGTH('a)" "us \<noteq> vs"
  shows "foldl step c (pre @ us @ suf) \<noteq> foldl step c (pre @ vs @ suf)"
  using short_inj [OF assms(1,2)] assms(3) by (auto dest: fold_inj)

end

lemma crc_register_rbyte:
  fixes p :: "'a::len word"
  assumes "bit p (LENGTH('a) - 1)"
  shows "crc_register (crc_rbyte p)"
proof
  fix c d :: "'a word" and b
  assume "crc_rbyte p c b = crc_rbyte p d b"
  then show "c = d"
    using injD [OF inj_crc_rsteps [OF assms]] unfolding crc_rbyte_def
    by (metis xor_word_cancel_right)
next
  fix us vs and c :: "'a word"
  assume len: "length us = length vs" "8 * length us \<le> LENGTH('a)"
    and eq: "foldl (crc_rbyte p) c us = foldl (crc_rbyte p) c vs"
  from len eq have "(crc_rstep p ^^ (8 * length us)) (c XOR crc_rpack us) =
      (crc_rstep p ^^ (8 * length us)) (c XOR crc_rpack vs)"
    by (simp add: crc_rbyte_fold)
  then have "c XOR crc_rpack us = c XOR crc_rpack vs"
    by (rule injD [OF inj_crc_rsteps [OF assms]])
  then have "(crc_rpack us :: 'a word) = crc_rpack vs"
    by simp
  then show "us = vs"
    using len by (intro crc_rpack_inj)
qed (rule crc_rbyte_xor)

lemma crc_register_lbyte:
  fixes p :: "'a::len word"
  assumes "bit p 0"
  shows "crc_register (crc_lbyte p)"
proof
  fix c d :: "'a word" and b
  assume "crc_lbyte p c b = crc_lbyte p d b"
  then show "c = d"
    using injD [OF inj_crc_lsteps [OF assms]] unfolding crc_lbyte_def
    by (metis xor_word_cancel_right)
next
  fix us vs and c :: "'a word"
  assume len: "length us = length vs" "8 * length us \<le> LENGTH('a)"
    and eq: "foldl (crc_lbyte p) c us = foldl (crc_lbyte p) c vs"
  from len eq have "(crc_lstep p ^^ (8 * length us)) (c XOR crc_lpack us) =
      (crc_lstep p ^^ (8 * length us)) (c XOR crc_lpack vs)"
    by (simp add: crc_lbyte_fold)
  then have "c XOR crc_lpack us = c XOR crc_lpack vs"
    by (rule injD [OF inj_crc_lsteps [OF assms]])
  then have "(crc_lpack us :: 'a word) = crc_lpack vs"
    by simp
  then show "us = vs"
    using len by (intro crc_lpack_inj)
qed (rule crc_lbyte_xor)

end
