(* ===== verification/Crc_Table.thy ===== *)
theory Crc_Table
  imports Crc_Reference
begin

unbundle bit_operations_syntax

text \<open>
  The lookup tables of libcrc.  Each module of \<^verbatim>\<open>libcrc/src\<close> that fills its table at run
  time keeps two statics, a flag and an array of 256 entries; \<open>crc_tab\<close> is that
  pair.  The lemmas say that a table holding the eight-shift image of every byte
  makes the table step equal to eight steps of the shift register, and the locale
  carries what every such module shares.
\<close>

section \<open>Statics of a module\<close>

record 'w crc_tab =
  tab_init :: bool
  tab :: "'w list"

text \<open>The statics before the first call: the flag is false and the array is zero.\<close>

definition crc_tab_zero :: "'a::len word crc_tab" where
  "crc_tab_zero = \<lparr>tab_init = False, tab = replicate 256 0\<rparr>"

text \<open>\<open>if ( ! crc_tab_init ) init_crc_tab();\<close>\<close>

definition ensure_tab :: "('w crc_tab \<Rightarrow> 'w crc_tab) \<Rightarrow> 'w crc_tab \<Rightarrow> 'w crc_tab" where
  "ensure_tab init st = (if \<not> tab_init st then init st else st)"

text \<open>\<open>for (i = 0; i < 256; i++) tab[i] = entry(i);\<close>\<close>

definition fill_256 :: "(nat \<Rightarrow> 'a) \<Rightarrow> 'a list \<Rightarrow> 'a list" where
  "fill_256 entry t = foldl (\<lambda>t i. t[i := entry i]) t [0..<256]"

lemma foldl_update_upt:
  "n \<le> length t \<Longrightarrow> foldl (\<lambda>t i. t[i := f i]) t [0..<n] = map f [0..<n] @ drop n t"
proof (induction n)
  case (Suc n)
  then show ?case
    by (simp add: list_update_append Cons_nth_drop_Suc [symmetric])
qed simp

lemma fill_256_eq: "length t = 256 \<Longrightarrow> fill_256 f t = map f [0..<256]"
  by (simp only: fill_256_def foldl_update_upt) simp

section \<open>Tables and shift registers\<close>

text \<open>The inner loop of a table generator shifts the byte and the register separately and
  compares one bit of each; together they are one shift register.\<close>

lemma right_table_loop:
  assumes body: "\<And>crc c. body (crc, c) =
    (if (crc XOR c) AND 1 \<noteq> 0 then drop_bit 1 crc XOR p else drop_bit 1 crc, drop_bit 1 c)"
  shows "(body ^^ n) (crc, c) = ((crc_rstep p ^^ n) (crc XOR c) XOR drop_bit n c, drop_bit n c)"
proof (induction n arbitrary: crc c)
  case (Suc n)
  have "fst (body (crc, c)) XOR drop_bit 1 c = crc_rstep p (crc XOR c)"
    by (cases "bit (crc XOR c) 0")
      (simp_all only: body fst_conv crc_rstep_def and_1_eq_0_iff not_not if_True if_False
        drop_bit_xor xor.assoc xor.commute [of p])
  then show ?case
    using Suc.IH [of "fst (body (crc, c))" "drop_bit 1 c"]
    by (simp add: body funpow_swap1 drop_bit_drop_bit add.commute)
qed (simp add: xor.assoc)

lemma left_table_loop:
  fixes crc c :: "'a::len word"
  assumes body: "\<And>crc c. body (crc, c) =
    (if (crc XOR c) AND 2 ^ (LENGTH('a) - 1) \<noteq> 0 then push_bit 1 crc XOR p else push_bit 1 crc,
     push_bit 1 c)"
  shows "(body ^^ n) (crc, c) = ((crc_lstep p ^^ n) (crc XOR c) XOR push_bit n c, push_bit n c)"
proof (induction n arbitrary: crc c)
  case (Suc n)
  have "fst (body (crc, c)) XOR push_bit 1 c = crc_lstep p (crc XOR c)"
    by (cases "bit (crc XOR c) (LENGTH('a) - 1)")
      (simp_all only: body fst_conv crc_lstep_def and_exp_eq_0_iff_not_bit not_not if_True if_False
        push_bit_xor xor.assoc xor.commute [of p])
  moreover have "(fst (body (crc, c)), push_bit 1 c) = body (crc, c)"
    by (simp add: body)
  ultimately show ?case
    using Suc.IH [of "fst (body (crc, c))" "push_bit 1 c"]
    by (simp add: funpow_swap1 push_bit_push_bit add.commute del: push_bit_Suc)
qed (simp add: xor.assoc)

text \<open>The table contents these loops leave: entry \<open>i\<close> is the byte \<open>i\<close> after eight
  shifts.\<close>

definition right_table :: "'a::len word \<Rightarrow> 'a word list" where
  "right_table p = map (\<lambda>i. (crc_rstep p ^^ 8) (of_nat i)) [0..<256]"

definition left_table :: "'a::len word \<Rightarrow> 'a word list" where
  "left_table p = map (\<lambda>i. (crc_lstep p ^^ 8) (push_bit (LENGTH('a) - 8) (of_nat i))) [0..<256]"

lemma nth_right_table: "i < 256 \<Longrightarrow> right_table p ! i = (crc_rstep p ^^ 8) (of_nat i)"
  by (simp add: right_table_def del: upt_conv_Cons)

lemma nth_left_table:
  "i < 256 \<Longrightarrow>
   left_table (p :: 'a::len word) ! i = (crc_lstep p ^^ 8) (push_bit (LENGTH('a) - 8) (of_nat i))"
  by (simp add: left_table_def del: upt_conv_Cons)

lemma length_table [simp]: "length (right_table p) = 256" "length (left_table q) = 256"
  by (simp_all add: right_table_def left_table_def del: upt_conv_Cons)

lemma fill_right_table:
  assumes "\<And>i. i < 256 \<Longrightarrow> entry i = (crc_rstep p ^^ 8) (of_nat i)" "length t = 256"
  shows "fill_256 entry t = right_table p"
  using assms by (auto simp: fill_256_eq right_table_def simp del: upt_conv_Cons)

lemma fill_left_table:
  fixes p :: "'a::len word"
  assumes "\<And>i. i < 256 \<Longrightarrow> entry i = (crc_lstep p ^^ 8) (push_bit (LENGTH('a) - 8) (of_nat i))"
    "length t = 256"
  shows "fill_256 entry t = left_table p"
  using assms by (auto simp: fill_256_eq left_table_def simp del: upt_conv_Cons)

lemma drop_bit_8_of_byte: "i < 256 \<Longrightarrow> drop_bit 8 (of_nat i :: 'a::len word) = 0"
  using not_bit_of_less [of i 8]
  by (intro bit_word_eqI) (simp add: bit_drop_bit_eq bit_of_nat_word)

lemmas right_table_entry = right_table_loop [where n = 8 and crc = 0 and c = "of_nat i" for i]
lemmas left_table_entry =
  left_table_loop [where n = 8 and crc = 0 and c = "push_bit k (of_nat i)" for k i]

text \<open>One table step is eight shifts.\<close>

lemma right_table_step:
  fixes crc :: "'a::len word"
  assumes "8 \<le> LENGTH('a)"
  shows "drop_bit 8 crc XOR right_table p ! unat ((crc XOR ucast b) AND 255) = crc_rbyte p crc b"
proof -
  define y where "y = crc XOR ucast b"
  have "y = (y AND 255) XOR push_bit 8 (drop_bit 8 y)"
    by (rule bit_word_eqI)
      (auto simp: and_255_eq_take_bit bit_xor_iff bit_take_bit_iff bit_push_bit_iff bit_drop_bit_eq)
  then have "(crc_rstep p ^^ 8) y =
      (crc_rstep p ^^ 8) (y AND 255) XOR (crc_rstep p ^^ 8) (push_bit 8 (drop_bit 8 y))"
    by (metis crc_rsteps_xor)
  also have "(crc_rstep p ^^ 8) (push_bit 8 (drop_bit 8 y)) = drop_bit 8 y"
    by (subst crc_rsteps_low_clear)
      (auto intro!: bit_word_eqI simp: bit_push_bit_iff bit_drop_bit_eq dest: bit_imp_le_length)
  also have "drop_bit 8 y = drop_bit 8 crc"
    using assms
    by (intro bit_word_eqI)
      (auto simp: y_def bit_drop_bit_eq bit_xor_iff bit_ucast_u8 dest: bit_imp_le_length)
  finally show ?thesis
    by (simp add: crc_rbyte_def y_def nth_right_table xor.commute)
qed

lemma left_table_step:
  fixes crc :: "'a::len word"
  assumes len: "8 \<le> LENGTH('a)"
  shows "push_bit 8 crc XOR
      left_table p ! unat ((drop_bit (LENGTH('a) - 8) crc XOR ucast b) AND 255) = crc_lbyte p crc b"
proof -
  let ?n = "LENGTH('a) - 8"
  define y where "y = crc XOR push_bit ?n (ucast b)"
  define h where "h = drop_bit ?n crc XOR ucast b"
  have h255: "h AND 255 = h"
    using len
    by (intro bit_word_eqI)
      (auto simp: h_def and_255_eq_take_bit bit_xor_iff bit_take_bit_iff bit_drop_bit_eq bit_ucast_u8
        dest: bit_imp_le_length)
  have "y = push_bit ?n h XOR take_bit ?n y"
    using len
    by (intro bit_word_eqI)
      (auto simp: y_def h_def bit_xor_iff bit_push_bit_iff bit_take_bit_iff bit_drop_bit_eq
        dest: bit_imp_le_length)
  then have "(crc_lstep p ^^ 8) y =
      (crc_lstep p ^^ 8) (push_bit ?n h) XOR (crc_lstep p ^^ 8) (take_bit ?n y)"
    by (metis crc_lsteps_xor)
  also have "(crc_lstep p ^^ 8) (take_bit ?n y) = push_bit 8 (take_bit ?n y)"
    using len by (subst crc_lsteps_high_clear) (auto simp: bit_take_bit_iff)
  also have "push_bit 8 (take_bit ?n y) = push_bit 8 crc"
    using len
    by (intro bit_word_eqI)
      (auto simp: y_def bit_push_bit_iff bit_take_bit_iff bit_xor_iff)
  finally have "crc_lbyte p crc b = (crc_lstep p ^^ 8) (push_bit ?n h) XOR push_bit 8 crc"
    by (simp only: crc_lbyte_def y_def)
  moreover have "left_table p ! unat (h AND 255) = (crc_lstep p ^^ 8) (push_bit ?n h)"
    using unat_and_255_less [of h] by (simp add: h255 nth_left_table)
  ultimately show ?thesis
    unfolding h_def [symmetric] by (simp only: xor.commute)
qed

text \<open>The exchange of the two bytes of a 16-bit CRC, written out in three of the modules:
  \<open>low_byte = (crc & 0xff00) >> 8; high_byte = (crc & 0x00ff) << 8; crc = low_byte | high_byte;\<close>\<close>

definition swap_bytes16 :: "u16 \<Rightarrow> u16" where
  "swap_bytes16 crc =
     (let low_byte = drop_bit 8 (crc AND 0xFF00); high_byte = push_bit 8 (crc AND 0x00FF)
      in low_byte OR high_byte)"

lemma swap_bytes16_eq: "swap_bytes16 x = drop_bit 8 x OR push_bit 8 x"
proof -
  have low: "drop_bit 8 (x AND 0xFF00) = drop_bit 8 x"
    by (rule bit_word_eqI)
      (auto simp: and_255_eq_take_bit bit_take_bit_iff bit_drop_bit_eq dest: bit_imp_le_length)
  have high: "push_bit 8 (take_bit 8 x) = push_bit 8 x"
    by (rule bit_word_eqI) (auto simp: bit_take_bit_iff bit_push_bit_iff)
  show ?thesis
    unfolding swap_bytes16_def Let_def low and_255_eq_take_bit high ..
qed

lemma swap_bytes16_swap [simp]: "swap_bytes16 (swap_bytes16 x) = x"
  by (rule bit_word_eqI)
    (auto simp: swap_bytes16_eq bit_or_iff bit_push_bit_iff bit_drop_bit_eq
      simp del: push_bit_or drop_bit_or dest: bit_imp_le_length)

lemma swap_bytes16_inj [simp]: "(swap_bytes16 x = swap_bytes16 y) = (x = y)"
  by (metis swap_bytes16_swap)

text \<open>A caller that feeds a message through an update function, threading the statics.\<close>

fun stream :: "('s \<Rightarrow> 'w \<Rightarrow> u8 \<Rightarrow> 'w \<times> 's) \<Rightarrow> 's \<Rightarrow> 'w \<Rightarrow> u8 list \<Rightarrow> 'w \<times> 's" where
  "stream upd st crc [] = (crc, st)"
| "stream upd st crc (b # bs) = (let (crc, st) = upd st crc b in stream upd st crc bs)"

section \<open>The contract of a module with a lazily filled table\<close>

text \<open>A module is sound when its array has 256 entries and, once the flag is set, holds
  \<open>table\<close>.\<close>

definition tab_ok :: "'w list \<Rightarrow> 'w crc_tab \<Rightarrow> bool" where
  "tab_ok table st \<longleftrightarrow> length (tab st) = 256 \<and> (tab_init st \<longrightarrow> tab st = table)"

text \<open>
  A module whose table is a constant promises that a lookup step on \<open>table\<close> is the
  reference step \<open>ref\<close>.
\<close>

locale look_table = crc_register ref
  for ref :: "'a::len word \<Rightarrow> u8 \<Rightarrow> 'a word" +
  fixes look :: "'a word list \<Rightarrow> 'a word \<Rightarrow> u8 \<Rightarrow> 'a word"
    and table :: "'a word list"
  assumes table_length: "length table = 256"
    and look_ref: "look table crc b = ref crc b"
begin

lemma look_fold: "foldl (look table) crc bs = foldl ref crc bs"
  by (induction bs arbitrary: crc) (simp_all add: look_ref)

lemma look_buffer:
  "n \<le> length bs \<Longrightarrow> for_bytes (look table) bs n crc = Inr (foldl ref crc (take n bs))"
  by (simp add: look_fold)

end

text \<open>
  A module that fills its table at run time promises in addition that \<open>init\<close> fills the
  array with \<open>table\<close> whatever it held before.  The client's loops over
  a buffer then compute the reference register, whether the table had been
  filled before the call or not.
\<close>

locale lazy_table = look_table ref look table
  for ref :: "'a::len word \<Rightarrow> u8 \<Rightarrow> 'a word"
    and look :: "'a word list \<Rightarrow> 'a word \<Rightarrow> u8 \<Rightarrow> 'a word"
    and table :: "'a word list" +
  fixes init :: "'a word crc_tab \<Rightarrow> 'a word crc_tab"
  assumes init_fills: "length (tab st) = 256 \<Longrightarrow> init st = st\<lparr>tab_init := True, tab := table\<rparr>"
begin

lemma ensure_eq: "tab_ok table st \<Longrightarrow> ensure_tab init st = \<lparr>tab_init = True, tab = table\<rparr>"
  using init_fills [of st] by (cases st) (auto simp: tab_ok_def ensure_tab_def)

lemma ensure_ok:
  assumes "tab_ok table st"
  shows "tab_ok table (ensure_tab init st)" "tab_init (ensure_tab init st)"
    "tab (ensure_tab init st) = table"
  using assms init_fills [of st] table_length by (auto simp: tab_ok_def ensure_tab_def)

lemma ensure_idem:
  "tab_ok table st \<Longrightarrow> ensure_tab init (ensure_tab init st) = ensure_tab init st"
  using ensure_ok [of st] by (simp add: ensure_tab_def)

lemma look_loop:
  "tab_ok table st \<Longrightarrow> n \<le> length bs \<Longrightarrow>
   for_bytes (look (tab (ensure_tab init st))) bs n crc = Inr (foldl ref crc (take n bs))"
  by (simp add: ensure_ok look_fold)

text \<open>Feeding the bytes one call at a time: each call may fill the table first.\<close>

lemma look_stream:
  assumes "tab_ok table st"
  shows "stream (\<lambda>st crc c. let st = ensure_tab init st in (look (tab st) crc c, st)) st crc bs =
    (foldl ref crc bs, if bs = [] then st else ensure_tab init st)"
  using assms
proof (induction bs arbitrary: st crc)
  case (Cons b bs)
  then show ?case
    using ensure_ok [OF Cons.prems] ensure_idem [OF Cons.prems] by (simp add: Let_def look_ref)
qed simp

end

lemma tab_ok_zero: "tab_ok table crc_tab_zero"
  by (simp add: tab_ok_def crc_tab_zero_def)

end
