(* ===== verification/Checksum_Header.thy ===== *)
theory Checksum_Header
  imports Prelude
begin

text \<open>The constants of \<^verbatim>\<open>libcrc/include/checksum.h\<close>, with their C names and widths.\<close>

section \<open>Polynomials\<close>

definition CRC_POLY_16 :: u16 where "CRC_POLY_16 = 0xA001"
definition CRC_POLY_32 :: u32 where "CRC_POLY_32 = 0xEDB88320"
definition CRC_POLY_64 :: u64 where "CRC_POLY_64 = 0x42F0E1EBA9EA3693"
definition CRC_POLY_CCITT :: u16 where "CRC_POLY_CCITT = 0x1021"
definition CRC_POLY_DNP :: u16 where "CRC_POLY_DNP = 0xA6BC"
definition CRC_POLY_KERMIT :: u16 where "CRC_POLY_KERMIT = 0x8408"
definition CRC_POLY_SICK :: u16 where "CRC_POLY_SICK = 0x8005"

section \<open>Start values\<close>

definition CRC_START_8 :: u8 where "CRC_START_8 = 0x00"
definition CRC_START_16 :: u16 where "CRC_START_16 = 0x0000"
definition CRC_START_MODBUS :: u16 where "CRC_START_MODBUS = 0xFFFF"
definition CRC_START_XMODEM :: u16 where "CRC_START_XMODEM = 0x0000"
definition CRC_START_CCITT_1D0F :: u16 where "CRC_START_CCITT_1D0F = 0x1D0F"
definition CRC_START_CCITT_FFFF :: u16 where "CRC_START_CCITT_FFFF = 0xFFFF"
definition CRC_START_KERMIT :: u16 where "CRC_START_KERMIT = 0x0000"
definition CRC_START_SICK :: u16 where "CRC_START_SICK = 0x0000"
definition CRC_START_DNP :: u16 where "CRC_START_DNP = 0x0000"
definition CRC_START_32 :: u32 where "CRC_START_32 = 0xFFFFFFFF"
definition CRC_START_64_ECMA :: u64 where "CRC_START_64_ECMA = 0x0000000000000000"
definition CRC_START_64_WE :: u64 where "CRC_START_64_WE = 0xFFFFFFFFFFFFFFFF"

lemmas crc_poly_defs =
  CRC_POLY_16_def CRC_POLY_32_def CRC_POLY_64_def CRC_POLY_CCITT_def CRC_POLY_DNP_def
  CRC_POLY_KERMIT_def CRC_POLY_SICK_def

lemmas crc_start_defs =
  CRC_START_8_def CRC_START_16_def CRC_START_MODBUS_def CRC_START_XMODEM_def
  CRC_START_CCITT_1D0F_def CRC_START_CCITT_FFFF_def CRC_START_KERMIT_def CRC_START_SICK_def
  CRC_START_DNP_def CRC_START_32_def CRC_START_64_ECMA_def CRC_START_64_WE_def

end
