(* ===== verification/Crc8.thy ===== *)
theory Crc8
  imports Crc_Table Checksum_Header
begin

unbundle bit_operations_syntax

text \<open>
  \<^verbatim>\<open>libcrc/src/crc8.c\<close>: the CRC of the Sensirion SHT75 sensor, over a table written
  into the source.  The source gives no polynomial: the table is shown to be that of
  \<open>x^8 + x^5 + x^4 + 1\<close>, shifting to the left.
\<close>

section \<open>The module\<close>

definition sht75_crc_table :: "u8 list" where
  "sht75_crc_table = [
    0, 49, 98, 83, 196, 245, 166, 151, 185, 136, 219, 234, 125, 76, 31, 46,
    67, 114, 33, 16, 135, 182, 229, 212, 250, 203, 152, 169, 62, 15, 92, 109,
    134, 183, 228, 213, 66, 115, 32, 17, 63, 14, 93, 108, 251, 202, 153, 168,
    197, 244, 167, 150, 1, 48, 99, 82, 124, 77, 30, 47, 184, 137, 218, 235,
    61, 12, 95, 110, 249, 200, 155, 170, 132, 181, 230, 215, 64, 113, 34, 19,
    126, 79, 28, 45, 186, 139, 216, 233, 199, 246, 165, 148, 3, 50, 97, 80,
    187, 138, 217, 232, 127, 78, 29, 44, 2, 51, 96, 81, 198, 247, 164, 149,
    248, 201, 154, 171, 60, 13, 94, 111, 65, 112, 35, 18, 133, 180, 231, 214,
    122, 75, 24, 41, 190, 143, 220, 237, 195, 242, 161, 144, 7, 54, 101, 84,
    57, 8, 91, 106, 253, 204, 159, 174, 128, 177, 226, 211, 68, 117, 38, 23,
    252, 205, 158, 175, 56, 9, 90, 107, 69, 116, 39, 22, 129, 176, 227, 210,
    191, 142, 221, 236, 123, 74, 25, 40, 6, 55, 100, 85, 194, 243, 160, 145,
    71, 118, 37, 20, 131, 178, 225, 208, 254, 207, 156, 173, 58, 11, 88, 105,
    4, 53, 102, 87, 192, 241, 162, 147, 189, 140, 223, 238, 121, 72, 27, 42,
    193, 240, 163, 146, 5, 52, 103, 86, 120, 73, 26, 43, 188, 141, 222, 239,
    130, 179, 224, 209, 70, 119, 36, 21, 59, 10, 89, 104, 255, 206, 157, 172]"

definition crc_8 :: "u8 list option \<Rightarrow> nat \<Rightarrow> u8 result" where
  "crc_8 input_str num_bytes =
     (let crc = CRC_START_8 in
      case input_str of
        None \<Rightarrow> Inr crc
      | Some ptr \<Rightarrow>
          for_bytes (\<lambda>crc c. sht75_crc_table ! unat (c XOR crc)) ptr num_bytes crc)"

definition update_crc_8 :: "u8 \<Rightarrow> u8 \<Rightarrow> u8" where
  "update_crc_8 crc val = sht75_crc_table ! unat (val XOR crc)"

section \<open>Correctness\<close>

text \<open>The polynomial of the sensor's data sheet.\<close>

definition SHT75_POLY :: u8 where "SHT75_POLY = 0x31"

interpretation crc8_reg: crc_register "crc_lbyte SHT75_POLY"
  by (rule crc_register_lbyte) (simp add: SHT75_POLY_def)

text \<open>
  A table of this kind is determined by its entry 1: the entries \<open>2 * i\<close> and \<open>2 * i + 1\<close>
  follow from entry \<open>i\<close> by one shift, which is how the literal is compared with it.
\<close>

fun doubled :: "u8 \<Rightarrow> u8 \<Rightarrow> u8 list \<Rightarrow> u8 list" where
  "doubled p t1 [] = []"
| "doubled p t1 (x # xs) =
     (let y = crc_lstep p x in y # (y XOR t1) # doubled p t1 xs)"

lemma nth_doubled:
  "i < length xs \<Longrightarrow> doubled p t1 xs ! (2 * i) = crc_lstep p (xs ! i) \<and>
    doubled p t1 xs ! Suc (2 * i) = crc_lstep p (xs ! i) XOR t1"
proof (induction xs arbitrary: i)
  case (Cons x xs)
  then show ?case
    by (cases i) (simp_all add: Let_def)
qed simp

lemma lstep_of_small: "i < 128 \<Longrightarrow> crc_lstep p (of_nat i :: u8) = of_nat (2 * i)"
  using not_bit_of_less [of i 7 7] by (simp add: crc_lstep_def bit_of_nat_word mult.commute)

lemma left_table_doubling:
  assumes t: "length t = 256" "t ! 0 = 0" "t ! 1 = (crc_lstep p ^^ 8) 1"
    and doubled: "doubled p (t ! 1) (take 128 t) = t"
  shows "t = left_table p"
proof (rule nth_equalityI)
  fix n assume "n < length t"
  then show "t ! n = left_table p ! n"
  proof (induction n rule: less_induct)
    case (less n)
    show ?case
    proof (cases "n < 2")
      case True
      then show ?thesis
        using t by (auto simp: nth_left_table less_Suc_eq numeral_2_eq_2)
    next
      case False
      define i where "i = n div 2"
      have i: "i < 128" "i < n" "n = 2 * i \<or> n = Suc (2 * i)"
        using False less.prems t(1) by (auto simp: i_def)
      then have IH: "t ! i = (crc_lstep p ^^ 8) (of_nat i)"
        using less.IH [of i] less.prems t(1) by (simp add: nth_left_table)
      have even: "(crc_lstep p ^^ 8) (of_nat (2 * i)) = crc_lstep p (t ! i)"
        using lstep_of_small [OF i(1)] IH by (metis funpow_swap1)
      have "of_nat (Suc (2 * i)) = of_nat (2 * i) XOR (1 :: u8)"
        by (simp add: xor_one_eq)
      then have odd: "(crc_lstep p ^^ 8) (of_nat (Suc (2 * i))) = crc_lstep p (t ! i) XOR t ! 1"
        using even t(3) by (simp only: crc_lsteps_xor)
      have "t ! (2 * i) = crc_lstep p (t ! i)" "t ! Suc (2 * i) = crc_lstep p (t ! i) XOR t ! 1"
        using nth_doubled [of i "take 128 t" p "t ! 1"] i(1) t(1) unfolding doubled by simp_all
      then show ?thesis
        using i even odd less.prems t(1) by (auto simp: nth_left_table)
    qed
  qed
qed (simp add: t)

lemma sht75_table_eq: "sht75_crc_table = left_table SHT75_POLY"
proof (rule left_table_doubling)
  show "doubled SHT75_POLY (sht75_crc_table ! 1) (take 128 sht75_crc_table) = sht75_crc_table"
    by (simp add: sht75_crc_table_def SHT75_POLY_def crc_lstep_def)
  show "sht75_crc_table ! 1 = (crc_lstep SHT75_POLY ^^ 8) 1"
    by (simp add: sht75_crc_table_def SHT75_POLY_def crc_lstep_def funpow_numeral)
qed (simp_all add: sht75_crc_table_def)

lemma update_crc_8_eq: "update_crc_8 = crc_lbyte SHT75_POLY"
  by (intro ext)
    (simp add: update_crc_8_def sht75_table_eq nth_left_table crc_lbyte_def xor.commute)

text \<open>
  C33: The 256 constants in the source are the table of the polynomial
  \<open>x^8 + x^5 + x^4 + 1\<close>, and \<open>crc_8\<close> over the first \<open>n\<close> bytes of a buffer is the bit-serial
  CRC of that polynomial; \<open>update_crc_8\<close> folded over the bytes gives the same.
\<close>

theorem crc_8_computes_reference:
  assumes "n \<le> length bs"
  shows "sht75_crc_table = left_table SHT75_POLY \<and>
    crc_8 (Some bs) n = Inr (foldl (crc_lbyte SHT75_POLY) CRC_START_8 (take n bs)) \<and>
    crc_8 (Some bs) n = Inr (foldl update_crc_8 CRC_START_8 (take n bs))"
  using assms update_crc_8_eq
  by (simp add: crc_8_def update_crc_8_def [symmetric] update_crc_8_def [abs_def, symmetric]
      sht75_table_eq [symmetric])

text \<open>The check string \<open>123456789\<close> of the library's own test.\<close>

lemma crc_8_computes_reference_witness:
  "crc_8 (Some [0x31, 0x32, 0x33, 0x34, 0x35, 0x36, 0x37, 0x38, 0x39]) 9 = Inr 0xA2"
  using crc_8_computes_reference [of 9 "[0x31, 0x32, 0x33, 0x34, 0x35, 0x36, 0x37, 0x38, 0x39]"]
  by (simp add: crc_lbyte_def crc_lstep_def SHT75_POLY_def crc_start_defs funpow_numeral)

end
