(* ===== verification/Crc_Sick.thy ===== *)
theory Crc_Sick
  imports Crc_Table Checksum_Header
begin

unbundle bit_operations_syntax

text \<open>
  \<^verbatim>\<open>libcrc/src/crcsick.c\<close>: the CRC of Sick sensors.  The register shifts once per byte
  and takes in each byte twice, as the low byte of one step and as the high byte
  of the next, so the loop carries the previous byte beside the register.
\<close>

section \<open>The module\<close>

definition crc_sick_body :: "u16 \<times> u16 \<Rightarrow> u8 \<Rightarrow> u16 \<times> u16" where
  "crc_sick_body = (\<lambda>(crc, short_p) ptr.
     let short_c = 0x00FF AND ucast ptr;
         crc = (if crc AND 0x8000 \<noteq> 0 then push_bit 1 crc XOR CRC_POLY_SICK else push_bit 1 crc);
         crc = crc XOR (short_c OR short_p);
         short_p = push_bit 8 short_c
     in (crc, short_p))"

definition crc_sick :: "u8 list option \<Rightarrow> nat \<Rightarrow> u16 result" where
  "crc_sick input_str num_bytes =
     (let crc = CRC_START_SICK; short_p = 0 in
      bind_r
        (case input_str of
           None \<Rightarrow> Inr (crc, short_p)
         | Some ptr \<Rightarrow> for_bytes crc_sick_body ptr num_bytes (crc, short_p))
        (\<lambda>(crc, short_p). Inr (swap_bytes16 crc)))"

definition update_crc_sick :: "u16 \<Rightarrow> u8 \<Rightarrow> u8 \<Rightarrow> u16" where
  "update_crc_sick crc c prev_byte =
     (let short_c = 0x00FF AND ucast c;
          short_p = push_bit 8 (0x00FF AND ucast prev_byte);
          crc = (if crc AND 0x8000 \<noteq> 0 then push_bit 1 crc XOR CRC_POLY_SICK else push_bit 1 crc)
      in crc XOR (short_c OR short_p))"

section \<open>Correctness\<close>

text \<open>The reference: one shift, then the pair of bytes as one 16-bit number.\<close>

definition sick_step :: "u16 \<Rightarrow> u8 \<Rightarrow> u8 \<Rightarrow> u16" where
  "sick_step crc c prev = crc_lstep CRC_POLY_SICK crc XOR word_cat prev c"

text \<open>A caller of \<open>update_crc_sick\<close> that remembers the previous byte.\<close>

fun sick_fold :: "(u16 \<Rightarrow> u8 \<Rightarrow> u8 \<Rightarrow> u16) \<Rightarrow> u16 \<Rightarrow> u8 \<Rightarrow> u8 list \<Rightarrow> u16" where
  "sick_fold upd crc prev [] = crc"
| "sick_fold upd crc prev (c # cs) = sick_fold upd (upd crc c prev) c cs"

lemma mask_byte: "0xFF AND (ucast (c :: u8) :: u16) = ucast c"
  by (rule bit_word_eqI)
    (auto simp: and.commute [of 255] and_255_eq_take_bit bit_take_bit_iff bit_ucast_u8
      dest: bit_imp_le_length)

lemma high_bit_set: "(crc AND 0x8000 = 0) = (\<not> bit (crc :: u16) 15)"
  using and_exp_eq_0_iff_not_bit [of crc 15] by simp

lemma byte_pair: "(ucast (c :: u8) :: u16) OR push_bit 8 (ucast (p :: u8)) = word_cat p c"
  by (rule bit_word_eqI) (auto simp: bit_word_cat_iff bit_or_iff bit_push_bit_iff bit_ucast_u8
      dest: bit_imp_le_length)

lemma update_crc_sick_eq: "update_crc_sick = sick_step"
  by (intro ext)
    (simp add: update_crc_sick_def sick_step_def crc_lstep_def Let_def mask_byte high_bit_set
      byte_pair)

lemma crc_sick_body_eq:
  "crc_sick_body (crc, push_bit 8 (ucast p)) c = (sick_step crc c p, push_bit 8 (ucast c))"
  by (simp add: crc_sick_body_def sick_step_def crc_lstep_def Let_def mask_byte high_bit_set
      byte_pair)

lemma crc_sick_fold:
  "foldl crc_sick_body (crc, push_bit 8 (ucast p)) cs =
   (sick_fold sick_step crc p cs, push_bit 8 (ucast (last (p # cs))))"
  by (induction cs arbitrary: crc p) (simp_all add: crc_sick_body_eq)

text \<open>
  C34: \<open>crc_sick\<close> over the first \<open>n\<close> bytes of a buffer is the byte-exchanged register that
  shifts once per byte and adds the pair of the previous and the current byte; a
  caller that feeds \<open>update_crc_sick\<close> each byte with its predecessor, zero for the
  first, and exchanges the bytes at the end gets the same value.
  The value is not complemented before the exchange, although \<^verbatim>\<open>libcrc/USAGE.md\<close> (step 5) says so;
  the check value \<open>56A6\<close> of the same document is the one without the complement.
\<close>

theorem crc_sick_computes_reference:
  assumes "n \<le> length bs"
  shows "crc_sick (Some bs) n = Inr (swap_bytes16
      (foldl (\<lambda>crc (p, c). crc_lstep CRC_POLY_SICK crc XOR word_cat p c) CRC_START_SICK
        (zip (0 # take n bs) (take n bs)))) \<and>
    crc_sick (Some bs) n =
      Inr (swap_bytes16 (sick_fold update_crc_sick CRC_START_SICK 0 (take n bs)))"
proof -
  have pairs: "foldl (\<lambda>crc (p, c). crc_lstep CRC_POLY_SICK crc XOR word_cat p c) crc (zip (p # cs) cs)
      = sick_fold sick_step crc p cs" for crc p cs
    by (induction cs arbitrary: crc p) (simp_all add: sick_step_def)
  show ?thesis
    using assms crc_sick_fold [of CRC_START_SICK 0 "take n bs"]
    by (simp add: crc_sick_def update_crc_sick_eq pairs)
qed

text \<open>The check string \<open>123456789\<close> of the library's own test.\<close>

lemma crc_sick_computes_reference_witness:
  "crc_sick (Some [0x31, 0x32, 0x33, 0x34, 0x35, 0x36, 0x37, 0x38, 0x39]) 9 = Inr 0x56A6"
  using crc_sick_computes_reference [of 9 "[0x31, 0x32, 0x33, 0x34, 0x35, 0x36, 0x37, 0x38, 0x39]", THEN conjunct1]
  by (simp add: crc_lstep_def crc_poly_defs crc_start_defs swap_bytes16_def word_cat_eq funpow_numeral)

section \<open>Error detection\<close>

lemma sick_step_inj: "sick_step crc c p = sick_step crc' c p \<Longrightarrow> crc = crc'"
  using injD [OF inj_crc_lstep [of CRC_POLY_SICK]]
  by (simp add: sick_step_def CRC_POLY_SICK_def)

lemma sick_fold_inj: "sick_fold sick_step crc p cs = sick_fold sick_step crc' p cs \<Longrightarrow> crc = crc'"
  by (induction cs arbitrary: crc crc' p) (auto dest: sick_step_inj)

lemma sick_fold_append:
  "sick_fold sick_step crc p (xs @ ys) =
   sick_fold sick_step (sick_fold sick_step crc p xs) (last (p # xs)) ys"
  by (induction xs arbitrary: crc p) simp_all

text \<open>A byte error \<open>e\<close> enters the register twice; the two contributions never cancel.\<close>

lemma sick_no_cancel:
  fixes e :: u8
  assumes "crc_lstep CRC_POLY_SICK (ucast e) = push_bit 8 (ucast e)"
  shows "e = 0"
proof (rule bit_word_eqI)
  have shift: "push_bit 1 (ucast e :: u16) = push_bit 8 (ucast e)"
  proof -
    have "\<not> bit (ucast e :: u16) 15"
      using bit_imp_le_length [of e 15] by (auto simp: bit_ucast_u8)
    then show ?thesis
      using assms by (simp add: crc_lstep_def)
  qed
  have bits: "bit e i = (7 \<le> i \<and> bit e (i - 7))" if "i < 8" for i
    using that arg_cong [OF shift, of "\<lambda>w. bit w (Suc i)"]
    by (simp add: bit_push_bit_iff bit_ucast_u8 del: push_bit_Suc)
  fix i assume "i < LENGTH(8)"
  then have "i < 8"
    by simp
  have "\<not> bit e 0"
    using bits [of 0] by linarith
  then have "\<not> bit e i"
    using bits [of i] \<open>i < 8\<close> by (cases "i = 7") (simp, linarith)
  then show "bit e i = bit 0 i"
    by simp
qed

lemma word_cat_xor: "word_cat p c XOR word_cat q d = (word_cat (p XOR q) (c XOR d) :: u16)"
  for p q c d :: u8
proof (rule bit_word_eqI)
  fix i assume "i < LENGTH(16)"
  then show "bit (word_cat p c XOR word_cat q d :: u16) i =
      bit (word_cat (p XOR q) (c XOR d) :: u16) i"
    by (simp add: bit_word_cat_iff bit_xor_iff)
qed

lemma word_cat_0_left: "(word_cat (0 :: u8) (c :: u8) :: u16) = ucast c"
  by (rule bit_word_eqI) (auto simp: bit_word_cat_iff bit_ucast_u8 dest: bit_imp_le_length)

lemma word_cat_0_right: "(word_cat (p :: u8) (0 :: u8) :: u16) = push_bit 8 (ucast p)"
  by (rule bit_word_eqI)
    (auto simp: bit_word_cat_iff bit_push_bit_iff bit_ucast_u8 dest: bit_imp_le_length)

lemma sick_step_diff:
  "sick_step s a p XOR sick_step t b q =
   crc_lstep CRC_POLY_SICK (s XOR t) XOR word_cat (p XOR q) (a XOR b)"
  by (simp add: sick_step_def crc_lstep_xor word_cat_xor [symmetric] ac_simps)

lemma sick_byte_inj: "sick_step s a p = sick_step s b p \<Longrightarrow> a = b"
  using sick_step_diff [of s a p s b p] by (simp add: word_cat_0_left ucast_u8_eq_0)

lemma sick_two_steps:
  assumes "sick_step (sick_step s a p) d a = sick_step (sick_step s b p) d b"
  shows "a = b"
proof -
  have "sick_step s a p XOR sick_step s b p = ucast (a XOR b)"
    using sick_step_diff [of s a p s b p] by (simp add: word_cat_0_left)
  then have "crc_lstep CRC_POLY_SICK (ucast (a XOR b)) XOR push_bit 8 (ucast (a XOR b)) = 0"
    using assms sick_step_diff [of "sick_step s a p" d a "sick_step s b p" d b]
    by (simp only: xor_self_eq word_cat_0_right)
  then have "crc_lstep CRC_POLY_SICK (ucast (a XOR b)) = push_bit 8 (ucast (a XOR b))"
    by (simp only: xor_eq_0_iff_word)
  then show ?thesis
    using sick_no_cancel by force
qed

lemma crc_sick_value:
  "n \<le> length bs \<Longrightarrow>
   crc_sick (Some bs) n = Inr (swap_bytes16 (sick_fold sick_step CRC_START_SICK 0 (take n bs)))"
  using crc_sick_fold [of CRC_START_SICK 0 "take n bs"] by (simp add: crc_sick_def)

text \<open>
  \<open>crc_sick\<close> tells apart any two messages that differ in exactly one byte.
\<close>

theorem crc_sick_detects_byte_error:
  assumes "a \<noteq> b"
  shows "crc_sick (Some (pre @ a # suf)) (Suc (length pre + length suf)) \<noteq>
    crc_sick (Some (pre @ b # suf)) (Suc (length pre + length suf))"
proof
  let ?s = "sick_fold sick_step CRC_START_SICK 0 pre" and ?p = "last (0 # pre)"
  assume "crc_sick (Some (pre @ a # suf)) (Suc (length pre + length suf)) =
    crc_sick (Some (pre @ b # suf)) (Suc (length pre + length suf))"
  then have "sick_fold sick_step CRC_START_SICK 0 (pre @ a # suf) =
      sick_fold sick_step CRC_START_SICK 0 (pre @ b # suf)"
    by (simp add: crc_sick_value)
  then have eq: "sick_fold sick_step (sick_step ?s a ?p) a suf =
      sick_fold sick_step (sick_step ?s b ?p) b suf"
    by (simp add: sick_fold_append)
  show False
  proof (cases suf)
    case Nil
    then show False
      using eq assms sick_byte_inj [of ?s a ?p b] by simp
  next
    case (Cons d ds)
    from eq have "sick_step (sick_step ?s a ?p) d a = sick_step (sick_step ?s b ?p) d b"
      unfolding Cons sick_fold.simps by (rule sick_fold_inj)
    then show False
      using assms by (blast dest: sick_two_steps)
  qed
qed

lemma crc_sick_detects_byte_error_witness:
  "crc_sick (Some [0x31, 0x32, 0x33]) 3 \<noteq> crc_sick (Some [0x31, 0x30, 0x33]) 3"
  using crc_sick_detects_byte_error [of "0x32" "0x30" "[0x31]" "[0x33]"] by (simp add: numeral_3_eq_3)

end
