(* ===== verification/Crc16.thy ===== *)
theory Crc16
  imports Crc_Table Checksum_Header
begin

unbundle bit_operations_syntax

text \<open>
  \<^verbatim>\<open>libcrc/src/crc16.c\<close>: CRC-16 and the Modbus CRC over a lookup table that the first
  call fills.  The state is the module's statics, \<open>crc_tab16_init\<close> and \<open>crc_tab16\<close>.
\<close>

section \<open>The module\<close>

definition init_crc16_bit :: "u16 \<times> u16 \<Rightarrow> u16 \<times> u16" where
  "init_crc16_bit = (\<lambda>(crc, c).
     (if (crc XOR c) AND 0x0001 \<noteq> 0 then drop_bit 1 crc XOR CRC_POLY_16 else drop_bit 1 crc,
      drop_bit 1 c))"

definition init_crc16_entry :: "nat \<Rightarrow> u16" where
  "init_crc16_entry i = fst ((init_crc16_bit ^^ 8) (0, of_nat i))"

definition init_crc16_tab :: "u16 crc_tab \<Rightarrow> u16 crc_tab" where
  "init_crc16_tab st = st\<lparr>tab := fill_256 init_crc16_entry (tab st), tab_init := True\<rparr>"

definition crc16_lookup :: "u16 list \<Rightarrow> u16 \<Rightarrow> u8 \<Rightarrow> u16" where
  "crc16_lookup t crc c = drop_bit 8 crc XOR t ! unat ((crc XOR ucast c) AND 0x00FF)"

definition crc_16 :: "u16 crc_tab \<Rightarrow> u8 list option \<Rightarrow> nat \<Rightarrow> (u16 \<times> u16 crc_tab) result" where
  "crc_16 st input_str num_bytes =
     (let st = ensure_tab init_crc16_tab st; crc = CRC_START_16 in
      case input_str of
        None \<Rightarrow> Inr (crc, st)
      | Some ptr \<Rightarrow>
          bind_r (for_bytes (crc16_lookup (tab st)) ptr num_bytes crc) (\<lambda>crc. Inr (crc, st)))"

definition crc_modbus :: "u16 crc_tab \<Rightarrow> u8 list option \<Rightarrow> nat \<Rightarrow> (u16 \<times> u16 crc_tab) result" where
  "crc_modbus st input_str num_bytes =
     (let st = ensure_tab init_crc16_tab st; crc = CRC_START_MODBUS in
      case input_str of
        None \<Rightarrow> Inr (crc, st)
      | Some ptr \<Rightarrow>
          bind_r (for_bytes (crc16_lookup (tab st)) ptr num_bytes crc) (\<lambda>crc. Inr (crc, st)))"

definition update_crc_16 :: "u16 crc_tab \<Rightarrow> u16 \<Rightarrow> u8 \<Rightarrow> u16 \<times> u16 crc_tab" where
  "update_crc_16 st crc c =
     (let st = ensure_tab init_crc16_tab st in (crc16_lookup (tab st) crc c, st))"

section \<open>Correctness\<close>

interpretation crc16_reg: crc_register "crc_rbyte CRC_POLY_16"
  by (rule crc_register_rbyte) (simp add: CRC_POLY_16_def)

lemma init_crc16_entry_eq:
  "i < 256 \<Longrightarrow> init_crc16_entry i = (crc_rstep CRC_POLY_16 ^^ 8) (of_nat i)"
  unfolding init_crc16_entry_def
  by (subst right_table_entry [where p = CRC_POLY_16])
    (simp_all add: init_crc16_bit_def drop_bit_8_of_byte)

interpretation crc16_mod: lazy_table "crc_rbyte CRC_POLY_16" crc16_lookup
  "right_table CRC_POLY_16" init_crc16_tab
  by unfold_locales
    (simp_all add: init_crc16_tab_def fill_right_table init_crc16_entry_eq crc16_lookup_def
      right_table_step)

text \<open>
  C29: On statics that are sound (in particular on those of a fresh process),
  \<open>crc_16\<close> and \<open>crc_modbus\<close> over the first \<open>n\<close> bytes of a buffer return the bit-serial CRC
  of polynomial \<open>0xA001\<close> from their start values and leave the table filled.  Feeding
  the same bytes to \<open>update_crc_16\<close> gives the same values.
\<close>

theorem crc16_computes_reference:
  assumes "tab_ok (right_table CRC_POLY_16) st" "n \<le> length bs"
  shows "crc_16 st (Some bs) n =
      Inr (foldl (crc_rbyte CRC_POLY_16) CRC_START_16 (take n bs),
           \<lparr>tab_init = True, tab = right_table CRC_POLY_16\<rparr>) \<and>
    crc_modbus st (Some bs) n =
      Inr (foldl (crc_rbyte CRC_POLY_16) CRC_START_MODBUS (take n bs),
           \<lparr>tab_init = True, tab = right_table CRC_POLY_16\<rparr>) \<and>
    fst (stream update_crc_16 st crc (take n bs)) = foldl (crc_rbyte CRC_POLY_16) crc (take n bs)"
  using assms crc16_mod.look_loop [OF assms] crc16_mod.look_stream [OF assms(1)]
  by (simp add: crc_16_def crc_modbus_def crc16_mod.ensure_eq update_crc_16_def [abs_def])

text \<open>The check string \<open>123456789\<close> of the library's own test, on fresh statics.\<close>

lemma crc16_computes_reference_witness:
  "fst (projr (crc_16 crc_tab_zero (Some [0x31, 0x32, 0x33, 0x34, 0x35, 0x36, 0x37, 0x38, 0x39]) 9)) = 0xBB3D \<and>
    fst (projr (crc_modbus crc_tab_zero (Some [0x31, 0x32, 0x33, 0x34, 0x35, 0x36, 0x37, 0x38, 0x39]) 9)) = 0x4B37"
  using crc16_computes_reference [OF tab_ok_zero, of 9 "[0x31, 0x32, 0x33, 0x34, 0x35, 0x36, 0x37, 0x38, 0x39]" 0]
  by (simp add: crc_rbyte_def crc_rstep_def crc_poly_defs crc_start_defs funpow_numeral)

end
