(* ===== verification/Crc_Dnp.thy ===== *)
theory Crc_Dnp
  imports Crc_Table Checksum_Header
begin

unbundle bit_operations_syntax

text \<open>
  \<^verbatim>\<open>libcrc/src/crcdnp.c\<close>: the CRC of DNP messages.  The register is inverted and its
  two bytes are exchanged at the end; \<open>update_crc_dnp\<close> does neither.
\<close>

section \<open>The module\<close>

definition init_crcdnp_bit :: "u16 \<times> u16 \<Rightarrow> u16 \<times> u16" where
  "init_crcdnp_bit = (\<lambda>(crc, c).
     (if (crc XOR c) AND 0x0001 \<noteq> 0 then drop_bit 1 crc XOR CRC_POLY_DNP else drop_bit 1 crc,
      drop_bit 1 c))"

definition init_crcdnp_entry :: "nat \<Rightarrow> u16" where
  "init_crcdnp_entry i = fst ((init_crcdnp_bit ^^ 8) (0, of_nat i))"

definition init_crcdnp_tab :: "u16 crc_tab \<Rightarrow> u16 crc_tab" where
  "init_crcdnp_tab st = st\<lparr>tab := fill_256 init_crcdnp_entry (tab st), tab_init := True\<rparr>"

definition crcdnp_lookup :: "u16 list \<Rightarrow> u16 \<Rightarrow> u8 \<Rightarrow> u16" where
  "crcdnp_lookup t crc c = drop_bit 8 crc XOR t ! unat ((crc XOR ucast c) AND 0x00FF)"

definition crc_dnp :: "u16 crc_tab \<Rightarrow> u8 list option \<Rightarrow> nat \<Rightarrow> (u16 \<times> u16 crc_tab) result" where
  "crc_dnp st input_str num_bytes =
     (let st = ensure_tab init_crcdnp_tab st; crc = CRC_START_DNP in
      bind_r
        (case input_str of
           None \<Rightarrow> Inr crc
         | Some ptr \<Rightarrow> for_bytes (crcdnp_lookup (tab st)) ptr num_bytes crc)
        (\<lambda>crc. Inr (swap_bytes16 (NOT crc), st)))"

definition update_crc_dnp :: "u16 crc_tab \<Rightarrow> u16 \<Rightarrow> u8 \<Rightarrow> u16 \<times> u16 crc_tab" where
  "update_crc_dnp st crc c =
     (let st = ensure_tab init_crcdnp_tab st in (crcdnp_lookup (tab st) crc c, st))"


section \<open>Correctness\<close>

interpretation crcdnp_reg: crc_register "crc_rbyte CRC_POLY_DNP"
  by (rule crc_register_rbyte) (simp add: CRC_POLY_DNP_def)

lemma init_crcdnp_entry_eq:
  "i < 256 \<Longrightarrow> init_crcdnp_entry i = (crc_rstep CRC_POLY_DNP ^^ 8) (of_nat i)"
  unfolding init_crcdnp_entry_def
  by (subst right_table_entry [where p = CRC_POLY_DNP])
    (simp_all add: init_crcdnp_bit_def drop_bit_8_of_byte)

interpretation crcdnp_mod: lazy_table "crc_rbyte CRC_POLY_DNP" crcdnp_lookup
  "right_table CRC_POLY_DNP" init_crcdnp_tab
  by unfold_locales
    (simp_all add: init_crcdnp_tab_def fill_right_table init_crcdnp_entry_eq crcdnp_lookup_def
      right_table_step)

text \<open>
  C30: On sound statics \<open>crc_dnp\<close> over the first \<open>n\<close> bytes of a buffer is the inverted,
  byte-exchanged bit-serial CRC of polynomial \<open>0xA6BC\<close>, and the same finish applied to
  the value that \<open>update_crc_dnp\<close> accumulates from \<open>CRC_START_DNP\<close> gives it too, as the
  API documentation of \<open>update_crc_dnp\<close> says.
\<close>

theorem crc_dnp_computes_reference:
  assumes "tab_ok (right_table CRC_POLY_DNP) st" "n \<le> length bs"
  shows "crc_dnp st (Some bs) n =
      Inr (swap_bytes16 (NOT (foldl (crc_rbyte CRC_POLY_DNP) CRC_START_DNP (take n bs))),
           \<lparr>tab_init = True, tab = right_table CRC_POLY_DNP\<rparr>) \<and>
    map_sum id fst (crc_dnp st (Some bs) n) =
      Inr (swap_bytes16 (NOT (fst (stream update_crc_dnp st CRC_START_DNP (take n bs)))))"
  using assms crcdnp_mod.look_loop [OF assms] crcdnp_mod.look_stream [OF assms(1)]
  by (simp add: crc_dnp_def crcdnp_mod.ensure_eq update_crc_dnp_def [abs_def])

text \<open>The check string \<open>123456789\<close> of the library's own test, on fresh statics.\<close>

lemma crc_dnp_computes_reference_witness:
  "fst (projr (crc_dnp crc_tab_zero (Some [0x31, 0x32, 0x33, 0x34, 0x35, 0x36, 0x37, 0x38, 0x39]) 9)) = 0x82EA"
  using crc_dnp_computes_reference [OF tab_ok_zero, of 9 "[0x31, 0x32, 0x33, 0x34, 0x35, 0x36, 0x37, 0x38, 0x39]", THEN conjunct1]
  by (simp add: crc_rbyte_def crc_rstep_def crc_poly_defs crc_start_defs swap_bytes16_def funpow_numeral)

end
