(* ===== verification/Crc_Kermit.thy ===== *)
theory Crc_Kermit
  imports Crc_Table Checksum_Header
begin

unbundle bit_operations_syntax

text \<open>
  \<^verbatim>\<open>libcrc/src/crckrmit.c\<close>: the CRC of the Kermit protocol.  The two bytes of the
  register are exchanged at the end; \<open>update_crc_kermit\<close> does not exchange them.  The
  module's \<open>init_crc_tab\<close> is \<open>init_crckermit_tab\<close> here.
\<close>

section \<open>The module\<close>

definition init_crckermit_bit :: "u16 \<times> u16 \<Rightarrow> u16 \<times> u16" where
  "init_crckermit_bit = (\<lambda>(crc, c).
     (if (crc XOR c) AND 0x0001 \<noteq> 0 then drop_bit 1 crc XOR CRC_POLY_KERMIT else drop_bit 1 crc,
      drop_bit 1 c))"

definition init_crckermit_entry :: "nat \<Rightarrow> u16" where
  "init_crckermit_entry i = fst ((init_crckermit_bit ^^ 8) (0, of_nat i))"

definition init_crckermit_tab :: "u16 crc_tab \<Rightarrow> u16 crc_tab" where
  "init_crckermit_tab st = st\<lparr>tab := fill_256 init_crckermit_entry (tab st), tab_init := True\<rparr>"

definition crckermit_lookup :: "u16 list \<Rightarrow> u16 \<Rightarrow> u8 \<Rightarrow> u16" where
  "crckermit_lookup t crc c = drop_bit 8 crc XOR t ! unat ((crc XOR ucast c) AND 0x00FF)"

definition crc_kermit :: "u16 crc_tab \<Rightarrow> u8 list option \<Rightarrow> nat \<Rightarrow> (u16 \<times> u16 crc_tab) result" where
  "crc_kermit st input_str num_bytes =
     (let st = ensure_tab init_crckermit_tab st; crc = CRC_START_KERMIT in
      bind_r
        (case input_str of
           None \<Rightarrow> Inr crc
         | Some ptr \<Rightarrow> for_bytes (crckermit_lookup (tab st)) ptr num_bytes crc)
        (\<lambda>crc. Inr (swap_bytes16 crc, st)))"

definition update_crc_kermit :: "u16 crc_tab \<Rightarrow> u16 \<Rightarrow> u8 \<Rightarrow> u16 \<times> u16 crc_tab" where
  "update_crc_kermit st crc c =
     (let st = ensure_tab init_crckermit_tab st in (crckermit_lookup (tab st) crc c, st))"


section \<open>Correctness\<close>

interpretation crckermit_reg: crc_register "crc_rbyte CRC_POLY_KERMIT"
  by (rule crc_register_rbyte) (simp add: CRC_POLY_KERMIT_def)

lemma init_crckermit_entry_eq:
  "i < 256 \<Longrightarrow> init_crckermit_entry i = (crc_rstep CRC_POLY_KERMIT ^^ 8) (of_nat i)"
  unfolding init_crckermit_entry_def
  by (subst right_table_entry [where p = CRC_POLY_KERMIT])
    (simp_all add: init_crckermit_bit_def drop_bit_8_of_byte)

interpretation crckermit_mod: lazy_table "crc_rbyte CRC_POLY_KERMIT" crckermit_lookup
  "right_table CRC_POLY_KERMIT" init_crckermit_tab
  by unfold_locales
    (simp_all add: init_crckermit_tab_def fill_right_table init_crckermit_entry_eq crckermit_lookup_def
      right_table_step)

text \<open>
  C31: On sound statics \<open>crc_kermit\<close> over the first \<open>n\<close> bytes of a buffer is the
  byte-exchanged bit-serial CRC of polynomial \<open>0x8408\<close>, and the exchange applied to the
  value that \<open>update_crc_kermit\<close> accumulates from \<open>CRC_START_KERMIT\<close> gives it too.
  The value is not complemented before the exchange, although \<^verbatim>\<open>libcrc/USAGE.md\<close> (step 5) says so;
  the check value \<open>8921\<close> of the same document is the one without the complement.
\<close>

theorem crc_kermit_computes_reference:
  assumes "tab_ok (right_table CRC_POLY_KERMIT) st" "n \<le> length bs"
  shows "crc_kermit st (Some bs) n =
      Inr (swap_bytes16 (foldl (crc_rbyte CRC_POLY_KERMIT) CRC_START_KERMIT (take n bs)),
           \<lparr>tab_init = True, tab = right_table CRC_POLY_KERMIT\<rparr>) \<and>
    map_sum id fst (crc_kermit st (Some bs) n) =
      Inr (swap_bytes16 (fst (stream update_crc_kermit st CRC_START_KERMIT (take n bs))))"
  using assms crckermit_mod.look_loop [OF assms] crckermit_mod.look_stream [OF assms(1)]
  by (simp add: crc_kermit_def crckermit_mod.ensure_eq update_crc_kermit_def [abs_def])

text \<open>The check string \<open>123456789\<close> of the library's own test, on fresh statics.\<close>

lemma crc_kermit_computes_reference_witness:
  "fst (projr (crc_kermit crc_tab_zero (Some [0x31, 0x32, 0x33, 0x34, 0x35, 0x36, 0x37, 0x38, 0x39]) 9)) = 0x8921"
  using crc_kermit_computes_reference [OF tab_ok_zero, of 9 "[0x31, 0x32, 0x33, 0x34, 0x35, 0x36, 0x37, 0x38, 0x39]", THEN conjunct1]
  by (simp add: crc_rbyte_def crc_rstep_def crc_poly_defs crc_start_defs swap_bytes16_def funpow_numeral)

end
