(* ===== verification/Crc_Ccitt.thy ===== *)
theory Crc_Ccitt
  imports Crc_Table Checksum_Header
begin

unbundle bit_operations_syntax

text \<open>
  \<^verbatim>\<open>libcrc/src/crcccitt.c\<close>: the CCITT CRCs, which shift to the left, over a table the
  first call fills: X-Modem and the two CCITT variants differ in the start value.
\<close>

section \<open>The module\<close>

definition init_crcccitt_bit :: "u16 \<times> u16 \<Rightarrow> u16 \<times> u16" where
  "init_crcccitt_bit = (\<lambda>(crc, c).
     (if (crc XOR c) AND 0x8000 \<noteq> 0 then push_bit 1 crc XOR CRC_POLY_CCITT else push_bit 1 crc,
      push_bit 1 c))"

definition init_crcccitt_entry :: "nat \<Rightarrow> u16" where
  "init_crcccitt_entry i = fst ((init_crcccitt_bit ^^ 8) (0, push_bit 8 (of_nat i)))"

definition init_crcccitt_tab :: "u16 crc_tab \<Rightarrow> u16 crc_tab" where
  "init_crcccitt_tab st =
     st\<lparr>tab := fill_256 init_crcccitt_entry (tab st), tab_init := True\<rparr>"

definition crcccitt_lookup :: "u16 list \<Rightarrow> u16 \<Rightarrow> u8 \<Rightarrow> u16" where
  "crcccitt_lookup t crc c =
     push_bit 8 crc XOR t ! unat ((drop_bit 8 crc XOR ucast c) AND 0x00FF)"

definition crc_ccitt_generic ::
  "u16 crc_tab \<Rightarrow> u8 list option \<Rightarrow> nat \<Rightarrow> u16 \<Rightarrow> (u16 \<times> u16 crc_tab) result" where
  "crc_ccitt_generic st input_str num_bytes start_value =
     (let st = ensure_tab init_crcccitt_tab st; crc = start_value in
      case input_str of
        None \<Rightarrow> Inr (crc, st)
      | Some ptr \<Rightarrow>
          bind_r (for_bytes (crcccitt_lookup (tab st)) ptr num_bytes crc) (\<lambda>crc. Inr (crc, st)))"

definition crc_xmodem :: "u16 crc_tab \<Rightarrow> u8 list option \<Rightarrow> nat \<Rightarrow> (u16 \<times> u16 crc_tab) result" where
  "crc_xmodem st input_str num_bytes =
     crc_ccitt_generic st input_str num_bytes CRC_START_XMODEM"

definition crc_ccitt_1d0f :: "u16 crc_tab \<Rightarrow> u8 list option \<Rightarrow> nat \<Rightarrow> (u16 \<times> u16 crc_tab) result" where
  "crc_ccitt_1d0f st input_str num_bytes =
     crc_ccitt_generic st input_str num_bytes CRC_START_CCITT_1D0F"

definition crc_ccitt_ffff :: "u16 crc_tab \<Rightarrow> u8 list option \<Rightarrow> nat \<Rightarrow> (u16 \<times> u16 crc_tab) result" where
  "crc_ccitt_ffff st input_str num_bytes =
     crc_ccitt_generic st input_str num_bytes CRC_START_CCITT_FFFF"

definition update_crc_ccitt :: "u16 crc_tab \<Rightarrow> u16 \<Rightarrow> u8 \<Rightarrow> u16 \<times> u16 crc_tab" where
  "update_crc_ccitt st crc c =
     (let st = ensure_tab init_crcccitt_tab st in (crcccitt_lookup (tab st) crc c, st))"

section \<open>Correctness\<close>

interpretation crcccitt_reg: crc_register "crc_lbyte CRC_POLY_CCITT"
  by (rule crc_register_lbyte) (simp add: CRC_POLY_CCITT_def)

lemma init_crcccitt_entry_eq:
  "i < 256 \<Longrightarrow>
   init_crcccitt_entry i = (crc_lstep CRC_POLY_CCITT ^^ 8) (push_bit 8 (of_nat i))"
  unfolding init_crcccitt_entry_def
  by (subst left_table_entry [where p = CRC_POLY_CCITT])
    (simp_all add: init_crcccitt_bit_def push_bit_push_bit push_bit_word_beyond)

interpretation crcccitt_mod: lazy_table "crc_lbyte CRC_POLY_CCITT" crcccitt_lookup
  "left_table CRC_POLY_CCITT" init_crcccitt_tab
  using left_table_step [of _ CRC_POLY_CCITT]
  by unfold_locales
    (simp_all add: init_crcccitt_tab_def fill_left_table init_crcccitt_entry_eq
      crcccitt_lookup_def)

text \<open>
  C32: On sound statics \<open>crc_xmodem\<close>, \<open>crc_ccitt_1d0f\<close> and \<open>crc_ccitt_ffff\<close> over the first
  \<open>n\<close> bytes of a buffer return the bit-serial CRC of polynomial \<open>0x1021\<close>, shifting to the
  left, from their three start values, and leave the table filled; \<open>update_crc_ccitt\<close>
  accumulates the same register from any start value.
\<close>

theorem crc_ccitt_computes_reference:
  assumes "tab_ok (left_table CRC_POLY_CCITT) st" "n \<le> length bs"
  shows "crc_xmodem st (Some bs) n =
      Inr (foldl (crc_lbyte CRC_POLY_CCITT) CRC_START_XMODEM (take n bs),
           \<lparr>tab_init = True, tab = left_table CRC_POLY_CCITT\<rparr>) \<and>
    crc_ccitt_1d0f st (Some bs) n =
      Inr (foldl (crc_lbyte CRC_POLY_CCITT) CRC_START_CCITT_1D0F (take n bs),
           \<lparr>tab_init = True, tab = left_table CRC_POLY_CCITT\<rparr>) \<and>
    crc_ccitt_ffff st (Some bs) n =
      Inr (foldl (crc_lbyte CRC_POLY_CCITT) CRC_START_CCITT_FFFF (take n bs),
           \<lparr>tab_init = True, tab = left_table CRC_POLY_CCITT\<rparr>) \<and>
    fst (stream update_crc_ccitt st crc (take n bs)) =
      foldl (crc_lbyte CRC_POLY_CCITT) crc (take n bs)"
  using assms crcccitt_mod.look_loop [OF assms] crcccitt_mod.look_stream [OF assms(1)]
  by (simp add: crc_xmodem_def crc_ccitt_1d0f_def crc_ccitt_ffff_def crc_ccitt_generic_def
      crcccitt_mod.ensure_eq update_crc_ccitt_def [abs_def])

text \<open>The check string \<open>123456789\<close> of the library's own test, on fresh statics.\<close>

lemma crc_ccitt_computes_reference_witness:
  "fst (projr (crc_xmodem crc_tab_zero (Some [0x31, 0x32, 0x33, 0x34, 0x35, 0x36, 0x37, 0x38, 0x39]) 9)) = 0x31C3 \<and>
    fst (projr (crc_ccitt_1d0f crc_tab_zero (Some [0x31, 0x32, 0x33, 0x34, 0x35, 0x36, 0x37, 0x38, 0x39]) 9)) = 0xE5CC \<and>
    fst (projr (crc_ccitt_ffff crc_tab_zero (Some [0x31, 0x32, 0x33, 0x34, 0x35, 0x36, 0x37, 0x38, 0x39]) 9)) = 0x29B1"
  using crc_ccitt_computes_reference [OF tab_ok_zero, of 9 "[0x31, 0x32, 0x33, 0x34, 0x35, 0x36, 0x37, 0x38, 0x39]" 0]
  by (simp add: crc_lbyte_def crc_lstep_def crc_poly_defs crc_start_defs funpow_numeral)

end
