(* ===== verification/Text_Format.thy ===== *)
theory Text_Format
  imports Prelude
begin

unbundle bit_operations_syntax

text \<open>
  The part of \<open>printf\<close> the sources use, zero-padded upper-case hexadecimal and plain
  decimal, the reading back of such numerals, and characters as bytes.
\<close>

section \<open>Printing\<close>

definition hex_char :: "nat \<Rightarrow> char" where
  "hex_char d = ''0123456789ABCDEF'' ! d"

text \<open>\<open>%0wX\<close> for a value below \<open>16 ^ w\<close>.\<close>

fun hex_fixed :: "nat \<Rightarrow> nat \<Rightarrow> string" where
  "hex_fixed 0 n = []"
| "hex_fixed (Suc w) n = hex_fixed w (n div 16) @ [hex_char (n mod 16)]"

text \<open>\<open>%d\<close> for a value that is not negative.\<close>

fun dec_string :: "nat \<Rightarrow> string" where
  "dec_string n =
     (if n < 10 then [''0123456789'' ! n]
      else dec_string (n div 10) @ [''0123456789'' ! (n mod 10)])"

declare dec_string.simps [simp del]

section \<open>Reading back\<close>

definition hex_digit :: "char \<Rightarrow> nat" where
  "hex_digit c = (if (of_char c :: nat) < 58 then of_char c - 48 else of_char c - 55)"

definition read_hex :: "string \<Rightarrow> nat" where
  "read_hex s = foldl (\<lambda>n c. 16 * n + hex_digit c) 0 s"

definition is_hex :: "char \<Rightarrow> bool" where
  "is_hex c \<longleftrightarrow> c \<in> set ''0123456789ABCDEF''"

lemma less_16_cases:
  "d < (16 :: nat) \<Longrightarrow> d \<in> {0, 1, 2, 3, 4, 5, 6, 7, 8, 9, 10, 11, 12, 13, 14, 15}"
  by (simp add: less_Suc_eq numeral_eq_Suc)

lemma hex_digit_hex_char [simp]: "d < 16 \<Longrightarrow> hex_digit (hex_char d) = d"
  by (drule less_16_cases) (auto simp: hex_digit_def hex_char_def)

lemma is_hex_hex_char [simp]: "d < 16 \<Longrightarrow> is_hex (hex_char d)"
  unfolding is_hex_def hex_char_def by (rule nth_mem) simp

lemma hex_fixed_2: "hex_fixed 2 n = [hex_char (n div 16 mod 16), hex_char (n mod 16)]"
  by (simp add: numeral_2_eq_2)

lemma length_hex_fixed [simp]: "length (hex_fixed w n) = w"
  by (induction w n rule: hex_fixed.induct) simp_all

lemma hex_fixed_hex: "c \<in> set (hex_fixed w n) \<Longrightarrow> is_hex c"
  by (induction w n rule: hex_fixed.induct) auto

lemma hex_fixed_notin: "\<not> is_hex c \<Longrightarrow> c \<notin> set (hex_fixed w n)"
  using hex_fixed_hex by blast

lemma read_hex_snoc: "read_hex (s @ [c]) = 16 * read_hex s + hex_digit c"
  by (simp add: read_hex_def)

lemma read_hex_fixed: "n < 16 ^ w \<Longrightarrow> read_hex (hex_fixed w n) = n"
proof (induction w n rule: hex_fixed.induct)
  case (2 w n)
  then have "n div 16 < 16 ^ w"
    by (simp add: less_mult_imp_div_less mult.commute)
  with 2 show ?case
    by (simp add: read_hex_snoc)
qed (simp add: read_hex_def)

lemma takeWhile_hex_fixed:
  "\<not> is_hex c \<Longrightarrow> takeWhile is_hex (hex_fixed w n @ c # cs) = hex_fixed w n"
  by (subst takeWhile_append2) (auto dest: hex_fixed_hex)

section \<open>Bytes\<close>

definition bytes_of :: "string \<Rightarrow> u8 list" where
  "bytes_of s = map (\<lambda>c. of_nat (of_char c)) s"

lemma inj_bytes_of: "bytes_of s = bytes_of t \<Longrightarrow> s = t"
proof (induction s arbitrary: t)
  case (Cons c s)
  then obtain d u where t: "t = d # u" "bytes_of s = bytes_of u"
    and eq: "of_nat (of_char c) = (of_nat (of_char d) :: u8)"
    by (cases t) (auto simp: bytes_of_def)
  have "(of_char c :: nat) mod 256 = of_char d mod 256"
    using arg_cong [OF eq, of unat] by (simp add: unat_of_nat)
  then show ?case
    using Cons.IH [OF t(2)] t(1) by simp
qed (cases t; simp add: bytes_of_def)

text \<open>\<open>inet_ntoa\<close>: the four bytes of the address as they lie in memory, in decimal, on the
  little-endian machine the program runs on.\<close>

definition inet_ntoa :: "u32 \<Rightarrow> u8 list" where
  "inet_ntoa s_addr =
     bytes_of (dec_string (unat (s_addr AND 0xFF)) @ ''.'' @
       dec_string (unat (drop_bit 8 s_addr AND 0xFF)) @ ''.'' @
       dec_string (unat (drop_bit 16 s_addr AND 0xFF)) @ ''.'' @
       dec_string (unat (drop_bit 24 s_addr)))"

end
