(* ===== verification/Precalc.thy ===== *)
theory Precalc
  imports Crc_Table Checksum_Header Text_Format
begin

unbundle bit_operations_syntax

text \<open>
  \<^verbatim>\<open>libcrc/precalc\<close>: the program that writes the lookup tables of CRC-32 and CRC-64 as C
  source before the library is compiled.  The state is the array \<open>crc_tab_precalc\<close>;
  the result of a run is its exit value, what it prints on \<open>stderr\<close>, and the text
  of the file it writes.  \<open>c_array\<close> reads the initialisers of such a file back, as the
  compiler does when \<^verbatim>\<open>crc32.c\<close> and \<^verbatim>\<open>crc64.c\<close> include it.
\<close>

section \<open>The table generators\<close>

definition init_crc32_bit :: "u32 \<Rightarrow> u32" where
  "init_crc32_bit crc =
     (if crc AND 0x00000001 \<noteq> 0 then drop_bit 1 crc XOR CRC_POLY_32 else drop_bit 1 crc)"

definition init_crc32_entry :: "nat \<Rightarrow> u64" where
  "init_crc32_entry i = ucast ((init_crc32_bit ^^ 8) (of_nat i))"

definition init_crc32_tab :: "u64 list \<Rightarrow> u64 list" where
  "init_crc32_tab t = fill_256 init_crc32_entry t"

definition init_crc64_bit :: "u64 \<times> u64 \<Rightarrow> u64 \<times> u64" where
  "init_crc64_bit = (\<lambda>(crc, c).
     (if (crc XOR c) AND 0x8000000000000000 \<noteq> 0 then push_bit 1 crc XOR CRC_POLY_64
      else push_bit 1 crc,
      push_bit 1 c))"

definition init_crc64_entry :: "nat \<Rightarrow> u64" where
  "init_crc64_entry i = fst ((init_crc64_bit ^^ 8) (0, push_bit 56 (of_nat i)))"

definition init_crc64_tab :: "u64 list \<Rightarrow> u64 list" where
  "init_crc64_tab t = fill_256 init_crc64_entry t"

section \<open>Writing the file\<close>

definition line :: "string \<Rightarrow> string" where
  "line s = s @ [CHR 0x0A]"

definition file_comment :: "string \<Rightarrow> string" where
  "file_comment filename = concat (map line
     [''/*'',
      '' * Library: libcrc'',
      '' * File:    '' @ filename,
      '' * Author:  Auto generated by the precalc program'',
      '' *'',
      '' * PLEASE DO NOT CHANGE THIS FILE!'',
      '' * ==============================='',
      '' * This file was automatically generated and will be overwritten whenever the'',
      '' * library is recompiled. All manually added changes will be lost in that case.'',
      '' */'',
      ''''])"

definition table_entry :: "nat \<Rightarrow> u64 \<Rightarrow> string" where
  "table_entry bits v =
     (if bits = 8 then CHR 0x09 # ''0x'' @ hex_fixed 2 (unat (v AND 0xFF)) @ ''u''
      else if bits = 16 then CHR 0x09 # ''0x'' @ hex_fixed 4 (unat (v AND 0xFFFF)) @ ''u''
      else if bits = 32 then CHR 0x09 # ''0x'' @ hex_fixed 8 (unat (v AND 0xFFFFFFFF)) @ ''ul''
      else if bits = 64 then CHR 0x09 # ''0x'' @ hex_fixed 16 (unat v) @ ''ull''
      else '''')"

definition table_body :: "nat \<Rightarrow> u64 list \<Rightarrow> string" where
  "table_body bits t =
     concat (map (\<lambda>a. table_entry bits (t ! a) @ (if a < 255 then line '','' else line ''''))
       [0..<256])"

definition table_text :: "nat \<Rightarrow> string \<Rightarrow> string \<Rightarrow> u64 list \<Rightarrow> string" where
  "table_text bits tabname filename t =
     file_comment filename @
     line (''const uint'' @ dec_string bits @ ''_t '' @ tabname @ ''[256] = {'') @
     table_body bits t @ line ''};'' @ line ''''"

text \<open>The outcome of a run: exit value, array, text on \<open>stderr\<close>, and the name and text of
  the file when one was written.  Whether \<open>fopen\<close> succeeds is the environment's.\<close>

record precalc_out =
  retval :: int
  crc_tab_precalc :: "u64 list"
  stderr_text :: string
  written :: "(string \<times> string) option"

definition write_table ::
  "(string \<Rightarrow> bool) \<Rightarrow> nat \<Rightarrow> string \<Rightarrow> string \<Rightarrow> u64 list \<Rightarrow> precalc_out" where
  "write_table fopen_ok bits tabname filename t =
     (if \<not> fopen_ok filename then
        \<lparr>retval = 0, crc_tab_precalc = t,
         stderr_text = line '''' @
           line (''precalc: cannot open '' @ [CHR 0x22] @ filename @ [CHR 0x22] @
             '' for writing'') @ line '''',
         written = None\<rparr>
      else
        \<lparr>retval = 0, crc_tab_precalc = t, stderr_text = '''',
         written = Some (filename, table_text bits tabname filename t)\<rparr>)"

definition generate_table ::
  "(string \<Rightarrow> bool) \<Rightarrow> u64 list \<Rightarrow> string option \<Rightarrow> string option \<Rightarrow> precalc_out" where
  "generate_table fopen_ok t typename filename =
     (case (typename, filename) of
        (Some ty, Some file) \<Rightarrow>
          if ty = ''--crc64'' then
            write_table fopen_ok 64 ''crc_tab64'' file (init_crc64_tab t)
          else if ty = ''--crc32'' then
            write_table fopen_ok 32 ''crc_tab32'' file (init_crc32_tab t)
          else
            \<lparr>retval = 3, crc_tab_precalc = t,
             stderr_text = line '''' @ line (''precalc: Unknown table type '' @ [CHR 0x22] @ ty @
               [CHR 0x22] @ '' passed'') @ line '''',
             written = None\<rparr>
      | _ \<Rightarrow>
          \<lparr>retval = 2, crc_tab_precalc = t,
           stderr_text = line '''' @ line ''precalc: Internal pointer error'' @ line '''',
           written = None\<rparr>)"

text \<open>The array has static storage, so it is zero when the program starts.  \<open>argv\<close>
  includes the program's name.\<close>

definition precalc_main :: "(string \<Rightarrow> bool) \<Rightarrow> string list \<Rightarrow> precalc_out" where
  "precalc_main fopen_ok argv =
     (if length argv \<noteq> 3 then
        \<lparr>retval = 1, crc_tab_precalc = replicate 256 0,
         stderr_text = line '''' @ line ''usage: precalc --type file'' @
           line ''       where --type is any of --crc64'' @ line '''',
         written = None\<rparr>
      else generate_table fopen_ok (replicate 256 0) (Some (argv ! 1)) (Some (argv ! 2)))"

section \<open>Reading the file back\<close>

fun split_on :: "char \<Rightarrow> string \<Rightarrow> string list" where
  "split_on c [] = [[]]"
| "split_on c (x # xs) =
     (if x = c then [] # split_on c xs
      else case split_on c xs of [] \<Rightarrow> [[x]] | t # ts \<Rightarrow> (x # t) # ts)"

text \<open>A literal such as \<open>0x12EFul\<close>, with white space before it.\<close>

definition read_literal :: "string \<Rightarrow> nat" where
  "read_literal s = read_hex (takeWhile is_hex (drop 2 (dropWhile (\<lambda>c. c \<noteq> CHR ''0'') s)))"

definition c_array :: "string \<Rightarrow> nat list" where
  "c_array s = map read_literal
     (split_on (CHR '','')
       (takeWhile (\<lambda>c. c \<noteq> CHR ''}'') (drop 1 (dropWhile (\<lambda>c. c \<noteq> CHR ''{'') s))))"

section \<open>The file read back\<close>

lemma split_on_token: "c \<notin> set x \<Longrightarrow> split_on c (x @ c # y) = x # split_on c y"
  by (induction x) auto

lemma split_on_last: "c \<notin> set x \<Longrightarrow> split_on c x = [x]"
  by (induction x) auto

lemma read_literal_hex:
  assumes "CHR ''0'' \<notin> set pre" "n < 16 ^ w" "\<not> is_hex c"
  shows "read_literal (pre @ CHR ''0'' # CHR ''x'' # hex_fixed w n @ c # post) = n"
proof -
  have "dropWhile (\<lambda>c. c \<noteq> CHR ''0'') (pre @ CHR ''0'' # ys) = CHR ''0'' # ys" for ys
    using assms(1) by (subst dropWhile_append2) auto
  then show ?thesis
    using assms(2,3) by (simp add: read_literal_def takeWhile_hex_fixed read_hex_fixed)
qed

text \<open>A separator-free printer whose tokens read back makes the whole body read back.\<close>

lemma split_body:
  assumes comma: "\<And>a. CHR '','' \<notin> set (f a)"
    and reads: "\<And>a pre post. set pre \<subseteq> {CHR 0x0A} \<Longrightarrow> read_literal (pre @ f a @ post) = v a"
    and "set pre \<subseteq> {CHR 0x0A}"
  shows "map read_literal (split_on (CHR '','') (pre @ concat (map (\<lambda>a. f a @
      (if a < k + m then line '','' else line '''')) [k..<Suc (k + m)]))) = map v [k..<Suc (k + m)]"
  using assms(3)
proof (induction m arbitrary: k pre)
  case 0
  then have "CHR '','' \<notin> set (pre @ f k @ [CHR 0x0A])"
    using comma [of k] by auto
  with 0 show ?case
    by (simp add: line_def split_on_last reads)
next
  case (Suc m)
  let ?rest = "concat (map (\<lambda>a. f a @ (if a < k + Suc m then line '','' else line ''''))
    [Suc k..<Suc (k + Suc m)])"
  have up: "[k..<Suc (k + Suc m)] = k # [Suc k..<Suc (k + Suc m)]"
    by (simp add: upt_conv_Cons del: upt_Suc)
  have "CHR '','' \<notin> set (pre @ f k)"
    using Suc.prems comma [of k] by auto
  then have "split_on (CHR '','') ((pre @ f k) @ CHR '','' # [CHR 0x0A] @ ?rest) =
      (pre @ f k) # split_on (CHR '','') ([CHR 0x0A] @ ?rest)"
    by (rule split_on_token)
  then show ?case
    using Suc.IH [of "[CHR 0x0A]" "Suc k"] reads [OF Suc.prems, of k "[]"]
    unfolding up by (simp add: line_def del: upt_Suc)
qed

lemma is_hex_punctuation [simp]:
  "\<not> is_hex (CHR '','')" "\<not> is_hex (CHR ''}'')" "\<not> is_hex (CHR ''u'')"
  by (simp_all add: is_hex_def)

definition entry_value :: "nat \<Rightarrow> u64 \<Rightarrow> nat" where
  "entry_value bits v = unat (take_bit bits v)"

lemma entry_forms:
  "table_entry 32 v = CHR 0x09 # ''0x'' @ hex_fixed 8 (entry_value 32 v) @ ''ul''"
  "table_entry 64 v = CHR 0x09 # ''0x'' @ hex_fixed 16 (entry_value 64 v) @ ''ull''"
proof -
  have "(0xFFFFFFFF :: u64) = mask 32"
    by (simp add: mask_eq_exp_minus_1)
  then show "table_entry 32 v = CHR 0x09 # ''0x'' @ hex_fixed 8 (entry_value 32 v) @ ''ul''"
    by (simp only: table_entry_def entry_value_def take_bit_eq_mask) simp
qed (simp add: table_entry_def entry_value_def take_bit_word_eq_self)

lemma entry_value_less: "entry_value bits v < 2 ^ bits"
  by (simp add: entry_value_def unsigned_take_bit_eq)

lemma table_entry_reads:
  assumes "bits = 32 \<or> bits = 64" "set pre \<subseteq> {CHR 0x0A}"
  shows "read_literal (pre @ table_entry bits v @ post) = entry_value bits v"
proof -
  have zero: "CHR ''0'' \<notin> set (pre @ [CHR 0x09])"
    using assms(2) by auto
  show ?thesis
    using assms(1) entry_value_less [of bits v]
      read_literal_hex [OF zero, of _ _ "CHR ''u''"]
    by (auto simp: entry_forms)
qed

lemma table_entry_chars:
  assumes "bits = 32 \<or> bits = 64"
  shows "CHR '','' \<notin> set (table_entry bits v)" "CHR ''}'' \<notin> set (table_entry bits v)"
  using assms by (auto simp: entry_forms hex_fixed_notin)

lemma table_body_reads:
  assumes "bits = 32 \<or> bits = 64" "length t = 256"
  shows "map read_literal (split_on (CHR '','') (CHR 0x0A # table_body bits t)) =
    map (entry_value bits) t"
proof -
  have "map read_literal (split_on (CHR '','') ([CHR 0x0A] @ concat (map (\<lambda>a.
      table_entry bits (t ! a) @ (if a < 0 + 255 then line '','' else line '''')) [0..<Suc (0 + 255)])))
    = map (\<lambda>a. entry_value bits (t ! a)) [0..<Suc (0 + 255)]"
    by (rule split_body) (auto simp: table_entry_reads table_entry_chars assms(1))
  moreover have "map (\<lambda>a. entry_value bits (t ! a)) [0..<256] = map (entry_value bits) t"
    using assms(2) by (intro nth_equalityI) (simp_all del: upt_conv_Cons)
  ultimately show ?thesis
    by (simp add: table_body_def del: upt_conv_Cons upt_Suc)
qed

lemma table_body_open: "bits = 32 \<or> bits = 64 \<Longrightarrow> c \<in> set (table_body bits t) \<Longrightarrow> c \<noteq> CHR ''}''"
  by (auto simp: table_body_def line_def table_entry_chars split: if_splits)

lemma dec_string_bits: "dec_string 32 = ''32''" "dec_string 64 = ''64''"
  by (simp_all add: dec_string.simps)

lemma c_array_table_text:
  assumes "bits = 32 \<or> bits = 64" "length t = 256"
    "CHR ''{'' \<notin> set filename" "CHR ''{'' \<notin> set tabname"
  shows "c_array (table_text bits tabname filename t) = map (entry_value bits) t"
proof -
  let ?front = "file_comment filename @ ''const uint'' @ dec_string bits @ ''_t '' @ tabname @ ''[256] = ''"
  have split: "table_text bits tabname filename t =
      ?front @ CHR ''{'' # CHR 0x0A # table_body bits t @ CHR ''}'' # '';'' @ [CHR 0x0A, CHR 0x0A]"
    by (simp add: table_text_def line_def)
  have "CHR ''{'' \<notin> set ?front"
    using assms(1,3,4) by (auto simp: file_comment_def line_def dec_string_bits)
  then have front: "dropWhile (\<lambda>c. c \<noteq> CHR ''{'') (?front @ CHR ''{'' # ys) = CHR ''{'' # ys" for ys
    by (subst dropWhile_append2) auto
  have "takeWhile (\<lambda>c. c \<noteq> CHR ''}'') ((CHR 0x0A # table_body bits t) @ CHR ''}'' # ys) =
      CHR 0x0A # table_body bits t" for ys
    using table_body_open [OF assms(1)] by (subst takeWhile_append2) auto
  then show ?thesis
    using table_body_reads [OF assms(1,2)] unfolding split c_array_def front by simp
qed

section \<open>Correctness\<close>

lemma init_crc32_bit_eq: "init_crc32_bit = crc_rstep CRC_POLY_32"
  by (intro ext) (simp add: init_crc32_bit_def crc_rstep_def and_1_eq_0_iff)

lemma init_crc32_tab_eq:
  "length t = 256 \<Longrightarrow> init_crc32_tab t = map ucast (right_table CRC_POLY_32)"
  by (simp add: init_crc32_tab_def fill_256_eq right_table_def init_crc32_entry_def
      init_crc32_bit_eq comp_def del: upt_conv_Cons)

lemma init_crc64_entry_eq:
  "i < 256 \<Longrightarrow> init_crc64_entry i = (crc_lstep CRC_POLY_64 ^^ 8) (push_bit 56 (of_nat i))"
  unfolding init_crc64_entry_def
  by (subst left_table_entry [where p = CRC_POLY_64])
    (simp_all add: init_crc64_bit_def push_bit_push_bit push_bit_word_beyond)

lemma init_crc64_tab_eq: "length t = 256 \<Longrightarrow> init_crc64_tab t = left_table CRC_POLY_64"
  unfolding init_crc64_tab_def by (rule fill_left_table) (simp_all add: init_crc64_entry_eq)

text \<open>What the library's \<open>crc_tab32\<close> and \<open>crc_tab64\<close> are after compilation.\<close>

definition compiled_table :: "precalc_out \<Rightarrow> 'a::len word list" where
  "compiled_table r = (case written r of None \<Rightarrow> [] | Some (_, s) \<Rightarrow> map of_nat (c_array s))"

lemma take_bit_unat_u32 [simp]: "take_bit 32 (unat (x :: u32)) = unat x"
  using take_bit_nat_eq_self [OF unsigned_less [of x]] by simp

lemma entry_value_32: "map of_nat (map (entry_value 32) (map ucast xs)) = (xs :: u32 list)"
  by (simp add: entry_value_def comp_def unsigned_take_bit_eq unsigned_ucast_eq)

lemma entry_value_64: "map of_nat (map (entry_value 64) xs) = (xs :: u64 list)"
  by (simp add: entry_value_def comp_def take_bit_word_eq_self)

text \<open>
  C35: A run of \<open>precalc --crc32 file\<close> that can open the file exits with 0 and writes a C array
  whose 256 initialisers, read back, are the table of the reflected polynomial
  \<open>0xEDB88320\<close>; \<open>--crc64\<close> likewise writes the table of \<open>0x42F0E1EBA9EA3693\<close>.
\<close>

theorem precalc_writes_tables:
  assumes "fopen_ok file" "CHR ''{'' \<notin> set file"
  shows "retval (precalc_main fopen_ok [prog, ''--crc32'', file]) = 0 \<and>
    compiled_table (precalc_main fopen_ok [prog, ''--crc32'', file]) = right_table CRC_POLY_32 \<and>
    retval (precalc_main fopen_ok [prog, ''--crc64'', file]) = 0 \<and>
    compiled_table (precalc_main fopen_ok [prog, ''--crc64'', file]) = left_table CRC_POLY_64"
  using assms entry_value_32 [of "right_table CRC_POLY_32"] entry_value_64 [of "left_table CRC_POLY_64"]
  by (simp add: precalc_main_def generate_table_def write_table_def compiled_table_def
      c_array_table_text init_crc32_tab_eq init_crc64_tab_eq)

lemma precalc_writes_tables_witness:
  "compiled_table (precalc_main (\<lambda>f. f = ''tab/gentab32.inc'')
      [''prc'', ''--crc32'', ''tab/gentab32.inc'']) = right_table CRC_POLY_32"
  using precalc_writes_tables [of "\<lambda>f. f = ''tab/gentab32.inc''" "''tab/gentab32.inc''" "''prc''"]
  by simp

text \<open>
  The exit value does not tell a caller whether the table was written: when the
  file cannot be opened the program prints a message, writes nothing and still
  exits with 0, whereas a wrong option or a missing argument gives 3 or 1.
\<close>

theorem precalc_exit_values:
  "retval (precalc_main (\<lambda>_. False) [prog, ''--crc32'', file]) = 0 \<and>
   written (precalc_main (\<lambda>_. False) [prog, ''--crc32'', file]) = None \<and>
   stderr_text (precalc_main (\<lambda>_. False) [prog, ''--crc32'', file]) \<noteq> '''' \<and>
   retval (precalc_main fopen_ok [prog, ''--crc16'', file]) = 3 \<and>
   retval (precalc_main fopen_ok [prog, ''--crc32'']) = 1"
  by (simp add: precalc_main_def generate_table_def write_table_def line_def)

end
