(* ===== verification/Crc32.thy ===== *)
theory Crc32
  imports Precalc
begin

unbundle bit_operations_syntax

text \<open>
  \<^verbatim>\<open>libcrc/src/crc32.c\<close>, the checksum of the chat protocol.  Its table is the file
  \<^verbatim>\<open>tab/gentab32.inc\<close> the build generates, here the parameter \<open>crc_tab32\<close>; the
  properties take for it the array that the model of \<open>precalc --crc32\<close> writes.
\<close>

section \<open>The module\<close>

definition crc32_lookup :: "u32 list \<Rightarrow> u32 \<Rightarrow> u8 \<Rightarrow> u32" where
  "crc32_lookup crc_tab32 crc c =
     drop_bit 8 crc XOR crc_tab32 ! unat ((crc XOR ucast c) AND 0x000000FF)"

definition crc_32 :: "u32 list \<Rightarrow> u8 list option \<Rightarrow> nat \<Rightarrow> u32 result" where
  "crc_32 crc_tab32 input_str num_bytes =
     (let crc = CRC_START_32 in
      bind_r
        (case input_str of
           None \<Rightarrow> Inr crc
         | Some ptr \<Rightarrow> for_bytes (crc32_lookup crc_tab32) ptr num_bytes crc)
        (\<lambda>crc. Inr (crc XOR 0xFFFFFFFF)))"

definition update_crc_32 :: "u32 list \<Rightarrow> u32 \<Rightarrow> u8 \<Rightarrow> u32" where
  "update_crc_32 crc_tab32 crc c =
     drop_bit 8 crc XOR crc_tab32 ! unat ((crc XOR ucast c) AND 0x000000FF)"

text \<open>The table compiled into the library.\<close>

definition gentab32 :: "u32 list" where
  "gentab32 = compiled_table
     (precalc_main (\<lambda>_. True) [''prc'', ''--crc32'', ''tab/gentab32.inc''])"

section \<open>Correctness\<close>

lemma compiled_crc32:
  assumes "CHR ''{'' \<notin> set file"
  shows "compiled_table (precalc_main (\<lambda>_. True) [prog, ''--crc32'', file]) = right_table CRC_POLY_32"
  using assms entry_value_32 [of "right_table CRC_POLY_32"]
  by (simp add: precalc_main_def generate_table_def write_table_def compiled_table_def
      c_array_table_text init_crc32_tab_eq)

lemma gentab32_eq: "gentab32 = right_table CRC_POLY_32"
  unfolding gentab32_def by (rule compiled_crc32) simp

interpretation crc32_reg: crc_register "crc_rbyte CRC_POLY_32"
  by (rule crc_register_rbyte) (simp add: CRC_POLY_32_def)

interpretation crc32_mod: look_table "crc_rbyte CRC_POLY_32" crc32_lookup gentab32
  by unfold_locales (simp_all add: gentab32_eq crc32_lookup_def right_table_step)

lemma update_crc_32_eq: "update_crc_32 gentab32 = crc_rbyte CRC_POLY_32"
  by (intro ext) (simp add: update_crc_32_def crc32_mod.look_ref [symmetric] crc32_lookup_def)

lemma crc_32_value:
  "n \<le> length bs \<Longrightarrow>
   crc_32 gentab32 (Some bs) n =
     Inr (foldl (crc_rbyte CRC_POLY_32) CRC_START_32 (take n bs) XOR 0xFFFFFFFF)"
  by (simp add: crc_32_def crc32_mod.look_buffer del: for_bytes_in_range)

lemma crc_32_out_of_range: "length bs < n \<Longrightarrow> crc_32 t (Some bs) n = Inl Out_Of_Bounds"
  by (simp add: crc_32_def for_bytes_out_of_range)

text \<open>
  C36: With the table the build generates, \<open>crc_32\<close> over the first \<open>n\<close> bytes of a buffer is the
  inverted bit-serial CRC of polynomial \<open>0xEDB88320\<close> started from all ones, \<open>update_crc_32\<close>
  folded over the bytes and inverted is the same, and a call that asks for more bytes
  than the buffer has reads past its end.
\<close>

theorem crc_32_computes_reference:
  assumes "n \<le> length bs"
  shows "crc_32 gentab32 (Some bs) n =
      Inr (foldl (crc_rbyte CRC_POLY_32) CRC_START_32 (take n bs) XOR 0xFFFFFFFF) \<and>
    crc_32 gentab32 (Some bs) n =
      Inr (foldl (update_crc_32 gentab32) CRC_START_32 (take n bs) XOR 0xFFFFFFFF) \<and>
    crc_32 gentab32 (Some bs) (Suc (length bs) + k) = Inl Out_Of_Bounds"
  using assms crc_32_value
  by (simp add: update_crc_32_eq crc_32_out_of_range)

text \<open>The check string \<open>123456789\<close> of the library's own test.\<close>

lemma crc_32_computes_reference_witness:
  "crc_32 gentab32 (Some [0x31, 0x32, 0x33, 0x34, 0x35, 0x36, 0x37, 0x38, 0x39]) 9 = Inr 0xCBF43926"
  using crc_32_computes_reference [of 9 "[0x31, 0x32, 0x33, 0x34, 0x35, 0x36, 0x37, 0x38, 0x39]" 0,
      THEN conjunct1]
  by (simp add: crc_rbyte_def crc_rstep_def crc_poly_defs crc_start_defs funpow_numeral)

text \<open>
  \<open>crc_32\<close> detects every burst of up to four bytes: two messages of one length that differ
  only within four consecutive bytes have different checksums.
\<close>

theorem crc_32_detects_bursts:
  assumes "length us = length vs" "length us \<le> 4" "us \<noteq> vs"
  shows "crc_32 gentab32 (Some (pre @ us @ suf)) (length (pre @ us @ suf)) \<noteq>
    crc_32 gentab32 (Some (pre @ vs @ suf)) (length (pre @ vs @ suf))"
  using crc32_reg.burst_detected [OF assms(1) _ assms(3)] assms(2)
  by (simp add: crc_32_value del: foldl_append)

lemma crc_32_detects_bursts_witness:
  "crc_32 gentab32 (Some [1, 2, 3, 4, 5]) 5 \<noteq> crc_32 gentab32 (Some [1, 0, 0, 0, 5]) 5"
  using crc_32_detects_bursts [of "[2, 3, 4]" "[0, 0, 0]" "[1]" "[5]"] by (simp add: eval_nat_numeral)

end
