(* ===== verification/Crc64.thy ===== *)
theory Crc64
  imports Precalc
begin

unbundle bit_operations_syntax

text \<open>
  \<^verbatim>\<open>libcrc/src/crc64.c\<close>.  The table is the file \<^verbatim>\<open>tab/gentab64.inc\<close> the build generates,
  here the parameter \<open>crc_tab64\<close>; the properties take for it the array that the model of
  \<open>precalc --crc64\<close> writes.
\<close>

section \<open>The module\<close>

definition crc64_lookup :: "u64 list \<Rightarrow> u64 \<Rightarrow> u8 \<Rightarrow> u64" where
  "crc64_lookup crc_tab64 crc c =
     push_bit 8 crc XOR crc_tab64 ! unat ((drop_bit 56 crc XOR ucast c) AND 0x00000000000000FF)"

definition crc_64_ecma :: "u64 list \<Rightarrow> u8 list option \<Rightarrow> nat \<Rightarrow> u64 result" where
  "crc_64_ecma crc_tab64 input_str num_bytes =
     (let crc = CRC_START_64_ECMA in
      case input_str of
        None \<Rightarrow> Inr crc
      | Some ptr \<Rightarrow> for_bytes (crc64_lookup crc_tab64) ptr num_bytes crc)"

definition crc_64_we :: "u64 list \<Rightarrow> u8 list option \<Rightarrow> nat \<Rightarrow> u64 result" where
  "crc_64_we crc_tab64 input_str num_bytes =
     (let crc = CRC_START_64_WE in
      bind_r
        (case input_str of
           None \<Rightarrow> Inr crc
         | Some ptr \<Rightarrow> for_bytes (crc64_lookup crc_tab64) ptr num_bytes crc)
        (\<lambda>crc. Inr (crc XOR 0xFFFFFFFFFFFFFFFF)))"

definition update_crc_64 :: "u64 list \<Rightarrow> u64 \<Rightarrow> u8 \<Rightarrow> u64" where
  "update_crc_64 crc_tab64 crc c =
     push_bit 8 crc XOR crc_tab64 ! unat ((drop_bit 56 crc XOR ucast c) AND 0x00000000000000FF)"

text \<open>The table compiled into the library.\<close>

definition gentab64 :: "u64 list" where
  "gentab64 = compiled_table
     (precalc_main (\<lambda>_. True) [''prc'', ''--crc64'', ''tab/gentab64.inc''])"

section \<open>Correctness\<close>

lemma gentab64_eq: "gentab64 = left_table CRC_POLY_64"
  using entry_value_64 [of "left_table CRC_POLY_64"]
  by (simp add: gentab64_def precalc_main_def generate_table_def write_table_def
      compiled_table_def c_array_table_text init_crc64_tab_eq)

interpretation crc64_reg: crc_register "crc_lbyte CRC_POLY_64"
  by (rule crc_register_lbyte) (simp add: CRC_POLY_64_def)

interpretation crc64_mod: look_table "crc_lbyte CRC_POLY_64" crc64_lookup gentab64
  using left_table_step [of _ CRC_POLY_64]
  by unfold_locales (simp_all add: gentab64_eq crc64_lookup_def)

lemma update_crc_64_eq: "update_crc_64 gentab64 = crc_lbyte CRC_POLY_64"
  by (intro ext) (simp add: update_crc_64_def crc64_mod.look_ref [symmetric] crc64_lookup_def)

text \<open>
  C37: With the table the build generates, \<open>crc_64_ecma\<close> and \<open>crc_64_we\<close> over the first \<open>n\<close> bytes
  of a buffer are the bit-serial CRC of the ECMA polynomial, shifting to the left, from zero
  and, inverted, from all ones; \<open>update_crc_64\<close> folded over the bytes gives the same register.
\<close>

theorem crc_64_computes_reference:
  assumes "n \<le> length bs"
  shows "crc_64_ecma gentab64 (Some bs) n =
      Inr (foldl (crc_lbyte CRC_POLY_64) CRC_START_64_ECMA (take n bs)) \<and>
    crc_64_we gentab64 (Some bs) n =
      Inr (NOT (foldl (crc_lbyte CRC_POLY_64) CRC_START_64_WE (take n bs))) \<and>
    foldl (update_crc_64 gentab64) crc (take n bs) = foldl (crc_lbyte CRC_POLY_64) crc (take n bs)"
proof -
  have "(0xFFFFFFFFFFFFFFFF :: u64) = - 1"
    by simp
  then have ones: "x XOR 0xFFFFFFFFFFFFFFFF = NOT x" for x :: u64
    by (simp only: bit.xor_one_right)
  show ?thesis
    using assms
    by (simp add: crc_64_ecma_def crc_64_we_def crc64_mod.look_buffer update_crc_64_eq ones
        del: for_bytes_in_range)
qed

text \<open>The check string \<open>123456789\<close> of the library's own test.\<close>

lemma crc_64_computes_reference_witness:
  "crc_64_ecma gentab64 (Some [0x31, 0x32, 0x33, 0x34, 0x35, 0x36, 0x37, 0x38, 0x39]) 9 =
      Inr 0x6C40DF5F0B497347 \<and>
    crc_64_we gentab64 (Some [0x31, 0x32, 0x33, 0x34, 0x35, 0x36, 0x37, 0x38, 0x39]) 9 =
      Inr 0x62EC59E3F1A4F00A"
  using crc_64_computes_reference [of 9 "[0x31, 0x32, 0x33, 0x34, 0x35, 0x36, 0x37, 0x38, 0x39]" 0]
  by (simp add: crc_lbyte_def crc_lstep_def crc_poly_defs crc_start_defs funpow_numeral)

end
