(* ===== verification/Nmea.thy ===== *)
theory Nmea
  imports Text_Format
begin

unbundle bit_operations_syntax

text \<open>
  \<^verbatim>\<open>libcrc/src/nmea-chk.c\<close>: the checksum of an NMEA sentence.  The input is the bytes
  readable from the pointer on, the result buffer the bytes that may be written; the
  function returns the buffer as it leaves it, or \<open>None\<close> for \<open>NULL\<close>.
\<close>

section \<open>The function\<close>

text \<open>\<open>while ( *ptr && *ptr != '\r' && *ptr != '\n' && *ptr != '*' ) checksum ^= *ptr++;\<close>\<close>

definition nmea_stop :: "u8 \<Rightarrow> bool" where
  "nmea_stop c \<longleftrightarrow> c = 0 \<or> c = 0x0D \<or> c = 0x0A \<or> c = 0x2A"

fun nmea_loop :: "u8 list \<Rightarrow> u8 \<Rightarrow> u8 result" where
  "nmea_loop [] checksum = Inl Out_Of_Bounds"
| "nmea_loop (c # ptr) checksum =
     (if \<not> nmea_stop c then nmea_loop ptr (checksum XOR c) else Inr checksum)"

text \<open>\<open>if ( *ptr == '$' ) ptr++;\<close>\<close>

fun nmea_start :: "u8 list \<Rightarrow> u8 list result" where
  "nmea_start [] = Inl Out_Of_Bounds"
| "nmea_start (c # ptr) = Inr (if c = 0x24 then ptr else c # ptr)"

text \<open>\<open>snprintf(result, 3, "%02X", checksum)\<close> stores two digits and the terminator.\<close>

definition store_hex2 :: "u8 list \<Rightarrow> u8 \<Rightarrow> u8 list result" where
  "store_hex2 result checksum =
     (if length result < 3 then Inl Out_Of_Bounds
      else Inr (bytes_of (hex_fixed 2 (unat checksum)) @ 0 # drop 3 result))"

definition checksum_NMEA :: "u8 list option \<Rightarrow> u8 list option \<Rightarrow> u8 list option result" where
  "checksum_NMEA input_str result =
     (case input_str of
        None \<Rightarrow> Inr None
      | Some ptr \<Rightarrow>
          (case result of
             None \<Rightarrow> Inr None
           | Some buf \<Rightarrow>
               bind_r (nmea_start ptr) (\<lambda>ptr.
               bind_r (nmea_loop ptr 0) (\<lambda>checksum.
               bind_r (store_hex2 buf checksum) (\<lambda>buf. Inr (Some buf))))))"

section \<open>Correctness\<close>

definition xor_all :: "u8 list \<Rightarrow> u8" where
  "xor_all bs = fold (XOR) bs 0"

lemma fold_xor_all: "fold (XOR) bs x = x XOR fold (XOR) bs (0 :: u8)"
proof (induction bs arbitrary: x)
  case (Cons b bs)
  show ?case
    using Cons [of "b XOR x"] Cons [of "b"] by (simp add: ac_simps)
qed simp

lemma xor_all_simps [simp]:
  "xor_all [] = 0" "xor_all (b # bs) = b XOR xor_all bs"
  "xor_all (bs @ cs) = xor_all bs XOR xor_all cs"
  using fold_xor_all [of bs b] fold_xor_all [of cs "fold (XOR) bs 0"]
  by (simp_all add: xor_all_def ac_simps)

lemma nmea_loop_run:
  "\<forall>b \<in> set bs. \<not> nmea_stop b \<Longrightarrow> nmea_stop e \<Longrightarrow>
   nmea_loop (bs @ e # rest) s = Inr (s XOR xor_all bs)"
  by (induction bs arbitrary: s) (simp_all add: ac_simps)

lemma nmea_loop_past_end:
  "\<forall>b \<in> set bs. \<not> nmea_stop b \<Longrightarrow> nmea_loop bs s = Inl Out_Of_Bounds"
  by (induction bs arbitrary: s) simp_all

text \<open>The text a sentence's checksum covers.\<close>

definition nmea_body :: "u8 list \<Rightarrow> bool" where
  "nmea_body bs \<longleftrightarrow> (\<forall>b \<in> set bs. \<not> nmea_stop b)"

text \<open>A leading dollar sign is optional.\<close>

lemma nmea_start_body:
  assumes "nmea_body bs" "nmea_stop e"
  shows "bind_r (nmea_start (0x24 # bs @ e # rest)) (\<lambda>p. nmea_loop p 0) = Inr (xor_all bs)"
    and "bs = [] \<or> hd bs \<noteq> 0x24 \<Longrightarrow>
      bind_r (nmea_start (bs @ e # rest)) (\<lambda>p. nmea_loop p 0) = Inr (xor_all bs)"
proof -
  have "e \<noteq> 0x24"
    using assms(2) by (auto simp: nmea_stop_def)
  then show "bind_r (nmea_start (0x24 # bs @ e # rest)) (\<lambda>p. nmea_loop p 0) = Inr (xor_all bs)"
    and "bs = [] \<or> hd bs \<noteq> 0x24 \<Longrightarrow>
      bind_r (nmea_start (bs @ e # rest)) (\<lambda>p. nmea_loop p 0) = Inr (xor_all bs)"
    using assms nmea_loop_run [of bs e rest 0] by (cases bs; simp add: nmea_body_def)+
qed

lemma checksum_NMEA_steps:
  "checksum_NMEA (Some ptr) (Some buf) =
     bind_r (bind_r (nmea_start ptr) (\<lambda>p. nmea_loop p 0)) (\<lambda>checksum.
       bind_r (store_hex2 buf checksum) (\<lambda>buf. Inr (Some buf)))"
  by (cases "nmea_start ptr") (simp_all add: checksum_NMEA_def)

lemma checksum_NMEA_value:
  assumes "nmea_body bs" "nmea_stop e"
  shows "checksum_NMEA (Some (0x24 # bs @ e # rest)) (Some buf) =
      bind_r (store_hex2 buf (xor_all bs)) (\<lambda>buf. Inr (Some buf))"
    and "bs = [] \<or> hd bs \<noteq> 0x24 \<Longrightarrow> checksum_NMEA (Some (bs @ e # rest)) (Some buf) =
      bind_r (store_hex2 buf (xor_all bs)) (\<lambda>buf. Inr (Some buf))"
  unfolding checksum_NMEA_steps using nmea_start_body [OF assms] by (simp_all only: bind_r_Inr)

text \<open>
  C38: For a sentence whose text is \<open>bs\<close>, with or without the leading dollar sign and ended by
  NUL, CR, LF or an asterisk with anything behind it, \<open>checksum_NMEA\<close> stores the two upper-case
  hexadecimal digits of the XOR of the text and a NUL in the result buffer and leaves the rest of
  the buffer alone.  A NULL argument gives NULL and stores nothing; an input without
  terminator is read past its end and a buffer of fewer than three bytes is overrun.
\<close>

theorem checksum_NMEA_behaviour:
  assumes "nmea_body bs" "nmea_stop e" "3 \<le> length buf" "bs = [] \<or> hd bs \<noteq> 0x24"
  shows "checksum_NMEA (Some (0x24 # bs @ e # rest)) (Some buf) =
      Inr (Some (bytes_of (hex_fixed 2 (unat (xor_all bs))) @ 0 # drop 3 buf)) \<and>
    checksum_NMEA (Some (bs @ e # rest)) (Some buf) =
      checksum_NMEA (Some (0x24 # bs @ e # rest)) (Some buf) \<and>
    checksum_NMEA None result = Inr None \<and>
    checksum_NMEA input None = Inr None \<and>
    checksum_NMEA (Some (0x24 # bs)) (Some buf) = Inl Out_Of_Bounds \<and>
    checksum_NMEA (Some (bs @ e # rest)) (Some [x, y]) = Inl Out_Of_Bounds"
proof (intro conjI)
  show "checksum_NMEA input None = Inr None"
    by (simp add: checksum_NMEA_def split: option.split)
  show "checksum_NMEA (Some (0x24 # bs)) (Some buf) = Inl Out_Of_Bounds"
    using assms(1) by (simp add: checksum_NMEA_def nmea_loop_past_end nmea_body_def)
qed (simp_all only: checksum_NMEA_value [OF assms(1,2)] assms(4),
  simp_all add: store_hex2_def checksum_NMEA_def assms(3) linorder_not_less)

text \<open>The sentence \<open>$PGRMZ,51,f*\<close> of the library's own test.\<close>

lemma checksum_NMEA_behaviour_witness:
  "checksum_NMEA (Some (bytes_of ''$PGRMZ,51,f*'')) (Some [7, 7, 7, 7]) = Inr (Some [0x33, 0x30, 0, 7])"
  using checksum_NMEA_behaviour [of "bytes_of ''PGRMZ,51,f''" "0x2A" "[7, 7, 7, 7]" "[]" None None 0 0,
      THEN conjunct1]
  by (simp add: bytes_of_def nmea_body_def nmea_stop_def hex_fixed_2 hex_char_def)

text \<open>
  Changing one byte of the text changes the digits \<open>checksum_NMEA\<close> stores, and the stored
  digits read back as the XOR of the text.
\<close>

theorem checksum_NMEA_detects_byte_error:
  assumes "nmea_body (pre @ a # suf)" "nmea_body (pre @ b # suf)" "a \<noteq> b" "3 \<le> length buf"
  shows "checksum_NMEA (Some (0x24 # (pre @ a # suf) @ [0x2A])) (Some buf) \<noteq>
      checksum_NMEA (Some (0x24 # (pre @ b # suf) @ [0x2A])) (Some buf) \<and>
    read_hex (hex_fixed 2 (unat (xor_all (pre @ a # suf)))) = unat (xor_all (pre @ a # suf))"
proof -
  have digits: "checksum_NMEA (Some (0x24 # cs @ [0x2A])) (Some buf) =
      Inr (Some (bytes_of (hex_fixed 2 (unat (xor_all cs))) @ 0 # drop 3 buf))"
    if "nmea_body cs" for cs
    using checksum_NMEA_value(1) [OF that, of "0x2A" "[]"] assms(4)
    by (simp add: store_hex2_def nmea_stop_def)
  have reads: "read_hex (hex_fixed 2 (unat x)) = unat x" for x :: u8
    by (rule read_hex_fixed) simp
  have "hex_fixed 2 (unat (xor_all (pre @ a # suf))) \<noteq> hex_fixed 2 (unat (xor_all (pre @ b # suf)))"
  proof
    assume "hex_fixed 2 (unat (xor_all (pre @ a # suf))) = hex_fixed 2 (unat (xor_all (pre @ b # suf)))"
    then have "xor_all (pre @ a # suf) = xor_all (pre @ b # suf)"
      by (metis reads word_unat_eq_iff)
    then show False
      using assms(3) by simp
  qed
  then show ?thesis
    unfolding digits [OF assms(1)] digits [OF assms(2)] reads by (auto dest: inj_bytes_of)
qed

lemma checksum_NMEA_detects_byte_error_witness:
  "checksum_NMEA (Some [0x24, 0x41, 0x42, 0x43, 0x2A]) (Some [0, 0, 0]) \<noteq>
   checksum_NMEA (Some [0x24, 0x41, 0x44, 0x43, 0x2A]) (Some [0, 0, 0])"
  using checksum_NMEA_detects_byte_error [of "[0x41]" "0x42" "[0x43]" "0x44" "[0, 0, 0]"]
  by (simp add: nmea_body_def nmea_stop_def)

end
