(* ===== verification/Member_Spec.thy ===== *)
theory Member_Spec
  imports Prelude
begin

text \<open>
  What the member list promises, without the heap: a list of pairs of an identifier of
  16 bytes and an address, the program's own entry first.  Identifiers are compared as C
  strings of at most 16 bytes.  The locale at the end is the contract the protocol code
  relies on; \<open>Member_List\<close> discharges it for the linked list of the source.
\<close>

type_synonym entry = "u8 list \<times> u32"

section \<open>Operations on the abstract list\<close>

text \<open>Does a new pair clash with an entry?  \<open>Inl\<close> is the over-read of \<open>strcmp\<close> on two equal
  identifiers that fill their 16 bytes.\<close>

definition clash :: "u8 list \<Rightarrow> u32 \<Rightarrow> entry \<Rightarrow> bool" where
  "clash mid ip e \<longleftrightarrow> cstr (take 16 mid) = cstr (fst e) \<or> snd e = ip"

definition overread :: "u8 list \<Rightarrow> entry \<Rightarrow> bool" where
  "overread mid e \<longleftrightarrow> take 16 mid = fst e \<and> 0 \<notin> set (fst e)"

fun spec_hit :: "u8 list \<Rightarrow> u32 \<Rightarrow> entry list \<Rightarrow> bool result" where
  "spec_hit mid ip [] = Inr False"
| "spec_hit mid ip (e # es) =
     (if overread mid e then Inl Out_Of_Bounds
      else if clash mid ip e then Inr True else spec_hit mid ip es)"

definition spec_find_id :: "u8 list \<Rightarrow> entry list \<Rightarrow> entry option" where
  "spec_find_id mid es = find (\<lambda>e. cstr (take 16 mid) = cstr (fst e)) es"

definition spec_find_ip :: "u32 \<Rightarrow> entry list \<Rightarrow> entry option" where
  "spec_find_ip ip es = find (\<lambda>e. snd e = ip) es"

fun remove_first :: "('a \<Rightarrow> bool) \<Rightarrow> 'a list \<Rightarrow> 'a list" where
  "remove_first P [] = []"
| "remove_first P (x # xs) = (if P x then xs else x # remove_first P xs)"

text \<open>The first entry is never removed.\<close>

definition spec_remove :: "u8 list \<Rightarrow> entry list \<Rightarrow> entry list" where
  "spec_remove mid es =
     take 1 es @ remove_first (\<lambda>e. cstr (fst e) = cstr (take 16 mid)) (drop 1 es)"

definition spec_known :: "u8 list \<Rightarrow> entry list \<Rightarrow> bool" where
  "spec_known mid es \<longleftrightarrow> (\<exists>e \<in> set (drop 1 es). cstr (fst e) = cstr (take 16 mid))"

section \<open>The invariant\<close>

definition roster_ok :: "entry list \<Rightarrow> bool" where
  "roster_ok es \<longleftrightarrow> distinct (map (\<lambda>e. cstr (fst e)) es) \<and> distinct (map snd es) \<and>
     (\<forall>e \<in> set es. length (fst e) = 16)"

lemma spec_hit_clash:
  "spec_hit mid ip es = Inr b \<Longrightarrow> b = (\<exists>e \<in> set es. clash mid ip e)"
  by (induction es) (auto split: if_splits)

lemma spec_hit_terminated: "0 \<in> set (take 16 mid) \<Longrightarrow> \<exists>b. spec_hit mid ip es = Inr b"
  by (induction es) (auto simp: overread_def)

lemma roster_ok_snoc:
  assumes "roster_ok es" "spec_hit mid ip es = Inr False" "16 \<le> length mid"
  shows "roster_ok (es @ [(take 16 mid, ip)])"
  using assms spec_hit_clash [OF assms(2)] by (auto simp: roster_ok_def clash_def)

lemma set_remove_first: "set (remove_first P xs) \<subseteq> set xs"
  by (induction xs) auto

lemma distinct_map_remove_first: "distinct (map f xs) \<Longrightarrow> distinct (map f (remove_first P xs))"
  using set_remove_first by (induction xs) fastforce+

lemma remove_first_none: "\<forall>x \<in> set xs. \<not> P x \<Longrightarrow> remove_first P xs = xs"
  by (induction xs) auto

lemma remove_first_append:
  "\<forall>x \<in> set xs. \<not> P x \<Longrightarrow> P y \<Longrightarrow> remove_first P (xs @ y # ys) = xs @ ys"
  by (induction xs) auto

lemma length_remove_first:
  "\<exists>x \<in> set xs. P x \<Longrightarrow> Suc (length (remove_first P xs)) = length xs"
  by (induction xs) auto

lemma roster_ok_remove: "roster_ok es \<Longrightarrow> roster_ok (spec_remove mid es)"
  using set_remove_first [of _ "drop 1 es"]
  by (cases es) (fastforce simp: roster_ok_def spec_remove_def distinct_map_remove_first)+

text \<open>In a list that satisfies the invariant a removed member is gone.\<close>

lemma remove_first_distinct:
  "distinct (map f xs) \<Longrightarrow> remove_first (\<lambda>x. f x = a) xs = filter (\<lambda>x. f x \<noteq> a) xs"
  by (induction xs) (auto simp: image_iff intro!: filter_True [symmetric])

lemma spec_remove_gone:
  "roster_ok es \<Longrightarrow> e \<in> set (drop 1 (spec_remove mid es)) \<Longrightarrow> cstr (fst e) \<noteq> cstr (take 16 mid)"
  by (cases es) (auto simp: roster_ok_def spec_remove_def remove_first_distinct)

section \<open>Batches\<close>

text \<open>Adding a pair unless it clashes, and adding the pairs of a received list in order.\<close>

definition spec_add :: "entry list \<Rightarrow> entry \<Rightarrow> entry list" where
  "spec_add es e =
     (if \<exists>x \<in> set es. clash (fst e) (snd e) x then es else es @ [(take 16 (fst e), snd e)])"

definition spec_add_all :: "entry list \<Rightarrow> entry list \<Rightarrow> entry list" where
  "spec_add_all es news = foldl spec_add es news"

text \<open>An identifier that can be handled without an over-read: 16 bytes can be read and one of
  them is the terminator.\<close>

definition id_ok :: "u8 list \<Rightarrow> bool" where
  "id_ok mid \<longleftrightarrow> 16 \<le> length mid \<and> 0 \<in> set (take 16 mid)"

lemma spec_add_ok:
  assumes "roster_ok es" "id_ok (fst e)"
  shows "roster_ok (spec_add es e)"
proof -
  obtain b where hit: "spec_hit (fst e) (snd e) es = Inr b"
    using spec_hit_terminated assms(2) unfolding id_ok_def by blast
  show ?thesis
    using spec_hit_clash [OF hit] assms hit roster_ok_snoc [OF assms(1)]
    by (cases b) (auto simp: spec_add_def id_ok_def)
qed

lemma spec_add_all_ok:
  "roster_ok es \<Longrightarrow> \<forall>e \<in> set news. id_ok (fst e) \<Longrightarrow> roster_ok (spec_add_all es news)"
  by (induction news arbitrary: es) (simp_all add: spec_add_all_def spec_add_ok)

lemma spec_add_prefix: "\<exists>added. spec_add es e = es @ added"
  by (simp add: spec_add_def)

text \<open>Pairs that clash with nothing are all added.\<close>

lemma spec_add_all_distinct:
  "roster_ok (es @ news) \<Longrightarrow> spec_add_all es news = es @ news"
proof (induction news arbitrary: es)
  case (Cons e news)
  have "\<not> (\<exists>x \<in> set es. clash (fst e) (snd e) x)"
  proof -
    have "cstr (fst e) \<notin> (\<lambda>x. cstr (fst x)) ` set es" "snd e \<notin> snd ` set es" "length (fst e) = 16"
      using Cons.prems by (simp_all add: roster_ok_def)
    then show ?thesis
      by (auto simp: clash_def image_iff)
  qed
  then have "spec_add es e = es @ [e]"
    using Cons.prems by (simp add: spec_add_def roster_ok_def)
  then show ?case
    using Cons.IH [of "es @ [e]"] Cons.prems by (simp add: spec_add_all_def)
qed (simp add: spec_add_all_def)

lemma spec_add_all_prefix: "\<exists>added. spec_add_all es news = es @ added"
proof (induction news arbitrary: es)
  case (Cons e news)
  obtain xs ys where "spec_add es e = es @ xs" "spec_add_all (spec_add es e) news = spec_add es e @ ys"
    using spec_add_prefix Cons.IH by blast
  then show ?case
    by (simp add: spec_add_all_def)
qed (simp add: spec_add_all_def)

lemma clash_self: "clash (fst e) (snd e) (take 16 (fst e), snd e)"
  by (simp add: clash_def)

text \<open>After a batch, every announced pair clashes with something in the list: it is there, or an
  earlier entry took its name or address.\<close>

lemma spec_add_all_covers:
  assumes "e \<in> set news"
  shows "\<exists>x \<in> set (spec_add_all es news). clash (fst e) (snd e) x"
  using assms
proof (induction news arbitrary: es)
  case (Cons n news)
  show ?case
  proof (cases "e = n")
    case True
    obtain added where app: "spec_add_all (spec_add es e) news = spec_add es e @ added"
      using spec_add_all_prefix by blast
    have "\<exists>x \<in> set (spec_add es e). clash (fst e) (snd e) x"
      using clash_self [of e] by (auto simp: spec_add_def)
    then show ?thesis
      using app True by (auto simp: spec_add_all_def)
  next
    case False
    then show ?thesis
      using Cons by (simp add: spec_add_all_def)
  qed
qed simp

text \<open>A loop that adds the pairs of a list one after the other, taking each address from
  \<open>alloc\<close> and ignoring the result codes, as the receiving tasks do.\<close>

fun add_batch :: "(u8 list \<Rightarrow> u32 \<Rightarrow> nat \<Rightarrow> 's \<Rightarrow> (int \<times> 's) result option) \<Rightarrow>
    ('s \<Rightarrow> nat) \<Rightarrow> entry list \<Rightarrow> 's \<Rightarrow> 's result option" where
  "add_batch new_member alloc [] s = Some (Inr s)"
| "add_batch new_member alloc (e # news) s =
     bind_c (new_member (fst e) (snd e) (alloc s) s) (\<lambda>(_, s). add_batch new_member alloc news s)"

section \<open>The contract\<close>

text \<open>
  \<open>repr s es\<close> says that state \<open>s\<close> holds the list \<open>es\<close>; \<open>fresh s p\<close> that \<open>p\<close> is an address
  \<open>malloc\<close> may return in \<open>s\<close>.
\<close>

locale member_table =
  fixes repr :: "'s \<Rightarrow> entry list \<Rightarrow> bool"
    and fresh :: "'s \<Rightarrow> nat \<Rightarrow> bool"
    and new_member :: "u8 list \<Rightarrow> u32 \<Rightarrow> nat \<Rightarrow> 's \<Rightarrow> (int \<times> 's) result option"
    and delete_member :: "u8 list \<Rightarrow> 's \<Rightarrow> (int \<times> 's) result option"
    and count :: "'s \<Rightarrow> int"
  assumes count_length: "repr s es \<Longrightarrow> count s = int (length es)"
    and new_clash: "repr s es \<Longrightarrow> es \<noteq> [] \<Longrightarrow> 16 \<le> length mid \<Longrightarrow>
      spec_hit mid ip es = Inr True \<Longrightarrow>
      \<exists>s'. new_member mid ip p s = Some (Inr (-1, s')) \<and> repr s' es"
    and new_added: "repr s es \<Longrightarrow> es \<noteq> [] \<Longrightarrow> 16 \<le> length mid \<Longrightarrow>
      spec_hit mid ip es = Inr False \<Longrightarrow> fresh s p \<Longrightarrow>
      \<exists>s'. new_member mid ip p s = Some (Inr (0, s')) \<and> repr s' (es @ [(take 16 mid, ip)])"
    and delete_known: "repr s es \<Longrightarrow> 16 \<le> length mid \<Longrightarrow> spec_known mid es \<Longrightarrow>
      \<exists>s'. delete_member mid s = Some (Inr (0, s')) \<and> repr s' (spec_remove mid es)"
    and delete_unknown: "repr s es \<Longrightarrow> 16 \<le> length mid \<Longrightarrow> \<not> spec_known mid es \<Longrightarrow>
      \<exists>s'. delete_member mid s = Some (Inr (-1, s')) \<and> repr s' es"
begin

lemma new_member_spec:
  assumes "repr s es" "es \<noteq> []" "id_ok mid" "fresh s p"
  shows "\<exists>r s'. new_member mid ip p s = Some (Inr (r, s')) \<and> repr s' (spec_add es (mid, ip)) \<and>
    (r = 0) = (spec_add es (mid, ip) \<noteq> es)"
proof -
  obtain b where hit: "spec_hit mid ip es = Inr b"
    using spec_hit_terminated assms(3) unfolding id_ok_def by blast
  note iff = spec_hit_clash [OF hit]
  show ?thesis
  proof (cases b)
    case True
    then have "spec_add es (mid, ip) = es"
      using iff by (simp add: spec_add_def)
    then show ?thesis
      using new_clash [OF assms(1,2), of mid ip p] hit True assms(3) by (auto simp: id_ok_def)
  next
    case False
    then have "spec_add es (mid, ip) = es @ [(take 16 mid, ip)]"
      using iff by (simp add: spec_add_def)
    then show ?thesis
      using new_added [OF assms(1,2), of mid ip p] hit False assms(3,4) by (auto simp: id_ok_def)
  qed
qed

lemma delete_member_spec:
  assumes "repr s es" "16 \<le> length mid"
  shows "\<exists>r s'. delete_member mid s = Some (Inr (r, s')) \<and> repr s' (spec_remove mid es)"
proof (cases "spec_known mid es")
  case False
  then have "remove_first (\<lambda>e. cstr (fst e) = cstr (take 16 mid)) (drop 1 es) = drop 1 es"
    by (intro remove_first_none) (auto simp: spec_known_def)
  then show ?thesis
    using delete_unknown [OF assms False] by (auto simp: spec_remove_def)
qed (use delete_known [OF assms] in blast)

lemma add_batch_spec:
  assumes "repr s es" "es \<noteq> []" "\<forall>e \<in> set news. id_ok (fst e)"
    "\<And>s es. repr s es \<Longrightarrow> fresh s (alloc s)"
  shows "\<exists>s'. add_batch new_member alloc news s = Some (Inr s') \<and> repr s' (spec_add_all es news)"
  using assms(1-3)
proof (induction news arbitrary: s es)
  case (Cons e news)
  obtain r s' where new: "new_member (fst e) (snd e) (alloc s) s = Some (Inr (r, s'))"
    "repr s' (spec_add es e)"
    using new_member_spec [of s es "fst e" "alloc s" "snd e"] Cons.prems assms(4) [of s es] by auto
  have "spec_add es e \<noteq> []"
    using Cons.prems(2) by (simp add: spec_add_def)
  then obtain s'' where "add_batch new_member alloc news s' = Some (Inr s'')"
    "repr s'' (spec_add_all (spec_add es e) news)"
    using Cons.IH [OF new(2)] Cons.prems(3) by auto
  then show ?case
    using new by (simp add: spec_add_all_def)
qed (simp add: spec_add_all_def)

end

end
