(* ===== verification/Linked_Chain.thy ===== *)
theory Linked_Chain
  imports Main
begin

text \<open>
  Chains of heap cells, as the member list and the queue of a thread pool use them: a heap maps
  addresses to cells, \<open>nxt\<close> is the field with the address of the next cell, and 0 ends the chain.
\<close>

fun linked :: "('c \<Rightarrow> nat) \<Rightarrow> (nat \<Rightarrow> 'c option) \<Rightarrow> nat \<Rightarrow> nat list \<Rightarrow> bool" where
  "linked nxt h p [] \<longleftrightarrow> p = 0"
| "linked nxt h p (a # as) \<longleftrightarrow>
     p = a \<and> a \<noteq> 0 \<and> (case h a of None \<Rightarrow> False | Some c \<Rightarrow> linked nxt h (nxt c) as)"

lemma linked_null [simp]: "linked nxt h 0 as \<longleftrightarrow> as = []"
  by (cases as) auto

lemma linked_Cons_E:
  assumes "linked nxt h p (a # as)"
  obtains c where "h a = Some c" "linked nxt h (nxt c) as" "p = a" "a \<noteq> 0"
  using assms by (auto split: option.splits)

lemma linked_start:
  assumes "linked nxt h p as" "p \<noteq> 0"
  obtains c bs where "as = p # bs" "h p = Some c" "linked nxt h (nxt c) bs"
  using assms by (cases as) (auto split: option.splits)

lemma linked_unique: "linked nxt h p as \<Longrightarrow> linked nxt h p bs \<Longrightarrow> as = bs"
  by (induction as arbitrary: p bs) (case_tac bs; auto split: option.splits)+

lemma linked_suffix: "linked nxt h p (as @ b # bs) \<Longrightarrow> linked nxt h b (b # bs)"
proof (induction as arbitrary: p)
  case (Cons a as)
  then show ?case
    by (metis append_Cons linked_Cons_E)
qed auto

lemma linked_distinct: "linked nxt h p as \<Longrightarrow> distinct as"
proof (induction as arbitrary: p)
  case (Cons a as)
  then obtain c where c: "h a = Some c" "linked nxt h (nxt c) as"
    by (auto split: option.splits)
  have "a \<notin> set as"
  proof
    assume "a \<in> set as"
    then obtain bs cs where "as = bs @ a # cs"
      by (auto dest: split_list)
    then show False
      using c Cons.prems linked_suffix [of nxt h "nxt c" bs a cs] linked_unique [of nxt h a "a # cs" "a # as"]
      by auto
  qed
  then show ?case
    using Cons.IH c by auto
qed simp

lemma linked_upd_other [simp]: "a \<notin> set as \<Longrightarrow> linked nxt (h(a := v)) p as = linked nxt h p as"
  by (induction as arbitrary: p) (auto split: option.splits)

lemma linked_nonnull: "linked nxt h p as \<Longrightarrow> a \<in> set as \<Longrightarrow> a \<noteq> 0 \<and> h a \<noteq> None"
  by (induction as arbitrary: p) (auto split: option.splits)

text \<open>The last cell is made to point to a new one that ends the chain.\<close>

lemma linked_append:
  assumes "linked nxt h p as" "as \<noteq> []" "h new = Some d" "nxt d = 0" "new \<noteq> 0" "new \<notin> set as"
    "h (last as) = Some c" "nxt c' = new"
  shows "linked nxt (h(last as \<mapsto> c')) p (as @ [new])"
  using assms(1,2,6,7)
proof (induction as arbitrary: p)
  case (Cons a as)
  have "a \<notin> set as"
    using linked_distinct [OF Cons.prems(1)] by simp
  from Cons.prems(1) obtain e where e: "h a = Some e" "linked nxt h (nxt e) as" "p = a" "a \<noteq> 0"
    by (rule linked_Cons_E)
  show ?case
  proof (cases as)
    case Nil
    then show ?thesis
      using e Cons.prems assms by auto
  next
    case (Cons b bs)
    then have "last as \<in> set as"
      by simp
    then show ?thesis
      using Cons.IH [of "nxt e"] Cons.prems e \<open>as = b # bs\<close> \<open>a \<notin> set as\<close> by auto
  qed
qed simp

end
