(* ===== verification/Member_List.thy ===== *)
theory Member_List
  imports Text_Format Member_Spec Linked_Chain
begin

text \<open>
  \<^verbatim>\<open>Chat/src/list.c\<close> and \<^verbatim>\<open>list.h\<close>: the list of known members, a chain of heap cells.
  The state is the heap of \<open>member_t\<close> cells with the module's globals \<open>list\<close> and
  \<open>counter\<close>, and \<open>errno\<close>.  Address 0 is \<open>NULL\<close>; a cell that is not in the heap is not
  allocated, and using it is the fault \<open>Use_After_Free\<close>.  What \<open>malloc\<close> returned is an
  argument of the operations that call it.  The \<open>id\<close> parameter, here \<open>mid\<close>, is the bytes readable from the
  pointer.
\<close>

section \<open>State\<close>

record member =
  m_ip :: u32
  m_id :: "u8 list"
  m_next :: nat

type_synonym member_heap = "nat \<Rightarrow> member option"

record list_state =
  heap :: member_heap
  list_ptr :: nat
  counter :: int
  errno :: int

text \<open>The globals when the program starts.\<close>

definition list_start :: list_state where
  "list_start = \<lparr>heap = Map.empty, list_ptr = 0, counter = 0, errno = 0\<rparr>"

definition member_zero :: member where
  "member_zero = \<lparr>m_ip = 0, m_id = replicate 16 0, m_next = 0\<rparr>"

text \<open>\<open>memcpy(dst, src, n)\<close>: the bytes copied.\<close>

definition memcpy_bytes :: "u8 list \<Rightarrow> nat \<Rightarrow> u8 list result" where
  "memcpy_bytes src n = (if length src < n then Inl Out_Of_Bounds else Inr (take n src))"

section \<open>Loops over the chain\<close>

text \<open>\<open>for (p = list; p != NULL; p = p->next) if (test) ...\<close>: the first cell that passes the
  test, or \<open>NULL\<close>.\<close>

partial_function (option) find_loop ::
  "(member \<Rightarrow> bool result) \<Rightarrow> member_heap \<Rightarrow> nat \<Rightarrow> nat result option" where
  "find_loop test h p =
     (if p = 0 then Some (Inr 0)
      else case h p of
        None \<Rightarrow> Some (Inl Use_After_Free)
      | Some m \<Rightarrow>
          (case test m of
             Inl e \<Rightarrow> Some (Inl e)
           | Inr found \<Rightarrow> if found then Some (Inr p) else find_loop test h (m_next m)))"

text \<open>\<open>for (p = list; p->next != NULL; p = p->next);\<close>\<close>

partial_function (option) last_loop :: "member_heap \<Rightarrow> nat \<Rightarrow> nat result option" where
  "last_loop h p =
     (case h p of
        None \<Rightarrow> Some (Inl Use_After_Free)
      | Some m \<Rightarrow> if m_next m \<noteq> 0 then last_loop h (m_next m) else Some (Inr p))"

text \<open>\<open>for (p = list; p->next != NULL; p = p->next) if (test on p->next) { del_member =
  p->next; break; }\<close>: the pair of \<open>p\<close> and \<open>del_member\<close>.\<close>

partial_function (option) prev_loop ::
  "(member \<Rightarrow> bool result) \<Rightarrow> member_heap \<Rightarrow> nat \<Rightarrow> (nat \<times> nat) result option" where
  "prev_loop test h p =
     (case h p of
        None \<Rightarrow> Some (Inl Use_After_Free)
      | Some m \<Rightarrow>
          if m_next m \<noteq> 0 then
            (case h (m_next m) of
               None \<Rightarrow> Some (Inl Use_After_Free)
             | Some n \<Rightarrow>
                 (case test n of
                    Inl e \<Rightarrow> Some (Inl e)
                  | Inr found \<Rightarrow>
                      if found then Some (Inr (p, m_next m)) else prev_loop test h (m_next m)))
          else Some (Inr (p, 0)))"

text \<open>\<open>while (p != NULL) { previous = p; p = p->next; free(previous); }\<close>\<close>

partial_function (option) free_loop :: "member_heap \<Rightarrow> nat \<Rightarrow> member_heap result option" where
  "free_loop h p =
     (if p = 0 then Some (Inr h)
      else case h p of
        None \<Rightarrow> Some (Inl Use_After_Free)
      | Some m \<Rightarrow> free_loop (h(p := None)) (m_next m))"

section \<open>Operations\<close>

text \<open>\<open>malloc\<close> that fails sets \<open>errno\<close> to \<open>ENOMEM\<close>.\<close>

definition List_init ::
  "u8 list \<Rightarrow> u32 \<Rightarrow> nat \<Rightarrow> list_state \<Rightarrow> (int \<times> list_state) result option" where
  "List_init mid ip malloc st =
     (let st = st\<lparr>list_ptr := malloc\<rparr> in
      if list_ptr st = 0 then Some (Inr (-1, st\<lparr>errno := ENOMEM\<rparr>))
      else
        bind_c (Some (memcpy_bytes mid 16)) (\<lambda>copy.
        let st = st\<lparr>heap := (heap st)(list_ptr st \<mapsto> \<lparr>m_ip = ip, m_id = copy, m_next = 0\<rparr>)\<rparr>;
            st = st\<lparr>counter := counter st + 1\<rparr>
        in Some (Inr (0, st))))"

definition same_id_or_ip :: "u8 list \<Rightarrow> u32 \<Rightarrow> member \<Rightarrow> bool result" where
  "same_id_or_ip mid ip m = bind_r (strcmp_eq mid (m_id m)) (\<lambda>same. Inr (same \<or> m_ip m = ip))"

definition List_new_member ::
  "u8 list \<Rightarrow> u32 \<Rightarrow> nat \<Rightarrow> list_state \<Rightarrow> (int \<times> list_state) result option" where
  "List_new_member mid ip malloc st =
     (if list_ptr st = 0 then Some (Inr (-1, st\<lparr>errno := EADDRNOTAVAIL\<rparr>))
      else
        bind_c (find_loop (same_id_or_ip mid ip) (heap st) (list_ptr st)) (\<lambda>hit.
        if hit \<noteq> 0 then Some (Inr (-1, st\<lparr>errno := EPERM\<rparr>))
        else
          bind_c (last_loop (heap st) (list_ptr st)) (\<lambda>p.
          let new_member = malloc in
          if new_member = 0 then Some (Inr (-1, st\<lparr>errno := ENOMEM\<rparr>))
          else
            bind_c (Some (memcpy_bytes mid 16)) (\<lambda>copy.
            let h = (heap st)(new_member \<mapsto> \<lparr>m_ip = ip, m_id = copy, m_next = 0\<rparr>) in
            case h p of
              None \<Rightarrow> Some (Inl Use_After_Free)
            | Some m \<Rightarrow>
                Some (Inr (0, st\<lparr>heap := h(p \<mapsto> m\<lparr>m_next := new_member\<rparr>),
                  counter := counter st + 1\<rparr>))))))"

definition List_search ::
  "(member \<Rightarrow> bool result) \<Rightarrow> list_state \<Rightarrow> (member \<times> list_state) result option" where
  "List_search test st =
     (let search = member_zero in
      if list_ptr st = 0 then Some (Inr (search, st\<lparr>errno := EADDRNOTAVAIL\<rparr>))
      else
        bind_c (find_loop test (heap st) (list_ptr st)) (\<lambda>p.
        Some (Inr (case heap st p of Some m \<Rightarrow> if p \<noteq> 0 then m else search | None \<Rightarrow> search, st))))"

definition List_search_member_id ::
  "u8 list \<Rightarrow> list_state \<Rightarrow> (member \<times> list_state) result option" where
  "List_search_member_id mid = List_search (\<lambda>m. strncmp_eq 16 mid (m_id m))"

definition List_search_member_ip ::
  "u32 \<Rightarrow> list_state \<Rightarrow> (member \<times> list_state) result option" where
  "List_search_member_ip ip = List_search (\<lambda>m. Inr (m_ip m = ip))"

definition List_delete_member ::
  "u8 list \<Rightarrow> list_state \<Rightarrow> (int \<times> list_state) result option" where
  "List_delete_member mid st =
     (if list_ptr st = 0 then Some (Inr (-1, st\<lparr>errno := EADDRNOTAVAIL\<rparr>))
      else
        bind_c (prev_loop (\<lambda>n. strncmp_eq 16 (m_id n) mid) (heap st) (list_ptr st))
        (\<lambda>(p, del_member).
        if del_member = 0 then Some (Inr (-1, st\<lparr>errno := EADDRNOTAVAIL\<rparr>))
        else
          case (heap st p, heap st del_member) of
            (Some m, Some d) \<Rightarrow>
              Some (Inr (0, st\<lparr>heap := ((heap st)(p \<mapsto> m\<lparr>m_next := m_next d\<rparr>))(del_member := None),
                counter := counter st - 1\<rparr>))
          | _ \<Rightarrow> Some (Inl Use_After_Free)))"

definition List_delete :: "list_state \<Rightarrow> (int \<times> list_state) result option" where
  "List_delete st =
     (if list_ptr st = 0 then Some (Inr (-1, st\<lparr>errno := EADDRNOTAVAIL\<rparr>))
      else
        bind_c (free_loop (heap st) (list_ptr st)) (\<lambda>h.
        Some (Inr (0, st\<lparr>heap := h, counter := 0\<rparr>))))"

definition List_no_of_members :: "list_state \<Rightarrow> int" where
  "List_no_of_members st = counter st"

definition List_get_list :: "list_state \<Rightarrow> nat" where
  "List_get_list st = list_ptr st"

text \<open>\<open>printf("%s")\<close> of a buffer reads up to the terminator.\<close>

definition print_str :: "u8 list \<Rightarrow> u8 list result" where
  "print_str bs = (if 0 \<in> set bs then Inr (cstr bs) else Inl Out_Of_Bounds)"

definition MAG :: "u8 list" where "MAG = 0x1B # bytes_of ''[35m''"
definition RESET :: "u8 list" where "RESET = 0x1B # bytes_of ''[0m''"

text \<open>The printing loop, with the text printed so far.\<close>

partial_function (option) print_loop ::
  "member_heap \<Rightarrow> nat \<Rightarrow> u8 list \<Rightarrow> u8 list result option" where
  "print_loop h p out =
     (if p = 0 then Some (Inr out)
      else case h p of
        None \<Rightarrow> Some (Inl Use_After_Free)
      | Some m \<Rightarrow>
          (case print_str (m_id m) of
             Inl e \<Rightarrow> Some (Inl e)
           | Inr s \<Rightarrow> print_loop h (m_next m)
               (out @ 9 # 9 # s @ [10] @ 9 # 9 # inet_ntoa (m_ip m) @ [10] @ [10])))"

definition List_print :: "list_state \<Rightarrow> (u8 list \<times> list_state) result option" where
  "List_print st =
     (if list_ptr st = 0 then Some (Inr ([], st\<lparr>errno := EADDRNOTAVAIL\<rparr>))
      else
        bind_c (print_loop (heap st) (list_ptr st)
          (MAG @ bytes_of ''_____________MEMBER_LIST____________'' @ [10, 10])) (\<lambda>out.
        Some (Inr (out @ RESET, st))))"

section \<open>The chain and the abstract list\<close>

text \<open>\<open>path h p as\<close>: following \<open>next\<close> from \<open>p\<close> visits the cells \<open>as\<close> and ends in \<open>NULL\<close>.\<close>

abbreviation path :: "member_heap \<Rightarrow> nat \<Rightarrow> nat list \<Rightarrow> bool" where
  "path \<equiv> linked m_next"

lemmas path_Cons_E = linked_Cons_E [where nxt = m_next]
lemmas path_distinct = linked_distinct [where nxt = m_next]
lemmas path_nonnull = linked_nonnull [where nxt = m_next]

definition entry_at :: "member_heap \<Rightarrow> nat \<Rightarrow> entry" where
  "entry_at h a = (case h a of Some m \<Rightarrow> (m_id m, m_ip m) | None \<Rightarrow> ([], 0))"

lemma entry_at_upd_other [simp]: "a \<notin> set as \<Longrightarrow> map (entry_at (h(a := v))) as = map (entry_at h) as"
  by (auto simp: entry_at_def)

text \<open>The representation: the chain from \<open>list\<close> holds the entries, \<open>counter\<close> is their number
  and every identifier has 16 bytes.\<close>

definition represents :: "list_state \<Rightarrow> nat list \<Rightarrow> entry list \<Rightarrow> bool" where
  "represents st as es \<longleftrightarrow> path (heap st) (list_ptr st) as \<and> es = map (entry_at (heap st)) as \<and>
     counter st = int (length es) \<and> (\<forall>e \<in> set es. length (fst e) = 16) \<and> finite (dom (heap st))"

definition list_repr :: "list_state \<Rightarrow> entry list \<Rightarrow> bool" where
  "list_repr st es \<longleftrightarrow> (\<exists>as. represents st as es)"

definition list_fresh :: "list_state \<Rightarrow> nat \<Rightarrow> bool" where
  "list_fresh st p \<longleftrightarrow> p \<noteq> 0 \<and> heap st p = None"

section \<open>The loops on a chain\<close>

lemma find_loop_cells [simp]:
  "find_loop test h 0 = Some (Inr 0)"
  "h p = Some m \<Longrightarrow> p \<noteq> 0 \<Longrightarrow> find_loop test h p =
     (case test m of Inl e \<Rightarrow> Some (Inl e)
      | Inr found \<Rightarrow> if found then Some (Inr p) else find_loop test h (m_next m))"
  by (subst find_loop.simps, simp)+

lemma last_loop_cell [simp]:
  "h p = Some m \<Longrightarrow>
   last_loop h p = (if m_next m \<noteq> 0 then last_loop h (m_next m) else Some (Inr p))"
  by (subst last_loop.simps) simp

lemma prev_loop_cell [simp]:
  "h p = Some m \<Longrightarrow> m_next m = 0 \<Longrightarrow> prev_loop test h p = Some (Inr (p, 0))"
  "h p = Some m \<Longrightarrow> m_next m \<noteq> 0 \<Longrightarrow> h (m_next m) = Some n \<Longrightarrow> prev_loop test h p =
     (case test n of Inl e \<Rightarrow> Some (Inl e)
      | Inr found \<Rightarrow> if found then Some (Inr (p, m_next m)) else prev_loop test h (m_next m))"
  by (subst prev_loop.simps, simp)+

lemma free_loop_cells [simp]:
  "free_loop h 0 = Some (Inr h)"
  "h p = Some m \<Longrightarrow> p \<noteq> 0 \<Longrightarrow> free_loop h p = free_loop (h(p := None)) (m_next m)"
  by (subst free_loop.simps, simp)+

lemma print_loop_cells [simp]:
  "print_loop h 0 out = Some (Inr out)"
  "h p = Some m \<Longrightarrow> p \<noteq> 0 \<Longrightarrow> print_loop h p out =
     (case print_str (m_id m) of Inl e \<Rightarrow> Some (Inl e)
      | Inr s \<Rightarrow> print_loop h (m_next m)
          (out @ 9 # 9 # s @ [10] @ 9 # 9 # inet_ntoa (m_ip m) @ [10] @ [10]))"
  by (subst print_loop.simps, simp)+

text \<open>With a test that only looks at the entry, the loop is \<open>find\<close>.\<close>

lemma find_loop_find:
  assumes "path h p as" "\<And>a m. a \<in> set as \<Longrightarrow> h a = Some m \<Longrightarrow> test m = Inr (P (m_id m, m_ip m))"
  shows "\<exists>q. find_loop test h p = Some (Inr q) \<and>
    find P (map (entry_at h) as) = (if q = 0 then None else Some (entry_at h q)) \<and>
    (q \<noteq> 0 \<longrightarrow> q \<in> set as)"
  using assms
proof (induction as arbitrary: p)
  case (Cons a as)
  from Cons.prems(1) obtain m where m: "h a = Some m" "path h (m_next m) as" "p = a" "a \<noteq> 0"
    by (rule path_Cons_E)
  have test: "test m = Inr (P (entry_at h a))"
    using Cons.prems(2) [of a m] m by (simp add: entry_at_def)
  show ?case
  proof (cases "P (entry_at h a)")
    case True
    then show ?thesis
      using m test by (intro exI [of _ a]) simp
  next
    case False
    have "find_loop test h p = find_loop test h (m_next m)"
      using m test False by simp
    moreover obtain q where "find_loop test h (m_next m) = Some (Inr q)"
      "find P (map (entry_at h) as) = (if q = 0 then None else Some (entry_at h q))"
      "q \<noteq> 0 \<longrightarrow> q \<in> set as"
      using Cons.IH [OF m(2)] Cons.prems(2) by auto
    ultimately show ?thesis
      using False by (intro exI [of _ q]) simp
  qed
qed simp

lemma same_id_or_ip_eq:
  assumes "16 \<le> length mid" "length (m_id m) = 16"
  shows "same_id_or_ip mid ip m =
    (if overread mid (m_id m, m_ip m) then Inl Out_Of_Bounds
     else Inr (clash mid ip (m_id m, m_ip m)))"
  using assms strcmp_eq_cstr [of "m_id m" mid]
  by (auto simp: same_id_or_ip_def overread_def clash_def)

lemma find_loop_hit:
  assumes "path h p as" "16 \<le> length mid" "\<forall>e \<in> set (map (entry_at h) as). length (fst e) = 16"
  shows "case spec_hit mid ip (map (entry_at h) as) of
      Inl e \<Rightarrow> find_loop (same_id_or_ip mid ip) h p = Some (Inl e)
    | Inr b \<Rightarrow> \<exists>q. find_loop (same_id_or_ip mid ip) h p = Some (Inr q) \<and> (q \<noteq> 0) = b"
  using assms
proof (induction as arbitrary: p)
  case (Cons a as)
  from Cons.prems(1) obtain m where m: "h a = Some m" "path h (m_next m) as" "p = a" "a \<noteq> 0"
    by (rule path_Cons_E)
  have entry: "entry_at h a = (m_id m, m_ip m)"
    using m by (simp add: entry_at_def)
  then have len: "length (m_id m) = 16"
    using Cons.prems(3) by simp
  show ?case
    using Cons.IH [OF m(2)] Cons.prems(2,3) m entry same_id_or_ip_eq [OF Cons.prems(2) len, of ip]
    by (auto split: sum.splits)
qed simp

lemma last_loop_path: "path h p as \<Longrightarrow> as \<noteq> [] \<Longrightarrow> last_loop h p = Some (Inr (last as))"
proof (induction as arbitrary: p)
  case (Cons a as)
  then show ?case
    by (cases as) (auto split: option.splits)
qed simp

lemma free_loop_path: "path h p as \<Longrightarrow> free_loop h p = Some (Inr (h |` (- set as)))"
proof (induction as arbitrary: h p)
  case (Cons a as)
  from Cons.prems(1) obtain m where m: "h a = Some m" "path h (m_next m) as" "p = a" "a \<noteq> 0"
    by (rule path_Cons_E)
  have "a \<notin> set as"
    using path_distinct [OF Cons.prems] by simp
  then have "path (h(a := None)) (m_next m) as"
    using m by simp
  from Cons.IH [OF this] have "free_loop h p = Some (Inr ((h(a := None)) |` (- set as)))"
    using m by (simp del: fun_upd_apply)
  moreover have "(h(a := None)) |` (- set as) = h |` (- set (a # as))"
    by (auto simp: restrict_map_def)
  ultimately show ?case
    by simp
qed (simp add: restrict_map_def)

lemma prev_loop_path:
  assumes "path h p as" "as \<noteq> []"
    "\<And>a m. a \<in> set as \<Longrightarrow> h a = Some m \<Longrightarrow> test m = Inr (P (entry_at h a))"
  shows "(\<exists>q. prev_loop test h p = Some (Inr (q, 0)) \<and> (\<forall>x \<in> set (drop 1 as). \<not> P (entry_at h x))) \<or>
    (\<exists>xs a d ys. as = xs @ a # d # ys \<and> prev_loop test h p = Some (Inr (a, d)) \<and>
      P (entry_at h d) \<and> (\<forall>x \<in> set (drop 1 (xs @ [a])). \<not> P (entry_at h x)))"
  using assms
proof (induction as arbitrary: p)
  case (Cons a as)
  from Cons.prems(1) obtain m where m: "h a = Some m" "path h (m_next m) as" "p = a" "a \<noteq> 0"
    by (rule path_Cons_E)
  show ?case
  proof (cases as)
    case Nil
    then show ?thesis
      using m by simp
  next
    case (Cons d ds)
    from m(2) obtain n where n: "h d = Some n" "m_next m = d" "d \<noteq> 0"
      unfolding Cons by (rule path_Cons_E) simp
    have test: "test n = Inr (P (entry_at h d))"
      using Cons.prems(3) [of d n] n Cons by simp
    show ?thesis
    proof (cases "P (entry_at h d)")
      case True
      then have "prev_loop test h p = Some (Inr (a, d))"
        using m n test by simp
      then show ?thesis
        using True Cons by (intro disjI2 exI [of _ "[]"] exI [of _ a] exI [of _ d] exI [of _ ds]) simp
    next
      case False
      then have step: "prev_loop test h p = prev_loop test h (m_next m)"
        using m n test by simp
      from Cons.IH [OF m(2)] Cons Cons.prems(3) consider
        (none) q where "prev_loop test h (m_next m) = Some (Inr (q, 0))"
          "\<forall>x \<in> set (drop 1 as). \<not> P (entry_at h x)"
      | (some) xs b e ys where "as = xs @ b # e # ys" "prev_loop test h (m_next m) = Some (Inr (b, e))"
          "P (entry_at h e)" "\<forall>x \<in> set (drop 1 (xs @ [b])). \<not> P (entry_at h x)"
        by fastforce
      then show ?thesis
      proof cases
        case none
        then show ?thesis
          using step False Cons by auto
      next
        case some
        have "set (xs @ [b]) \<subseteq> insert d (set (drop 1 (xs @ [b])))"
          using some(1) Cons by (cases xs) auto
        then have "\<forall>x \<in> set (drop 1 ((a # xs) @ [b])). \<not> P (entry_at h x)"
          using some(4) False by auto
        then show ?thesis
          using some step by (intro disjI2 exI [of _ "a # xs"] exI [of _ b] exI [of _ e] exI [of _ ys]) simp
      qed
    qed
  qed
qed simp

section \<open>Linking and unlinking\<close>

lemma path_link:
  assumes "path h p as" "as \<noteq> []" "n \<notin> set as" "n \<noteq> 0" "h (last as) = Some m" "m_next new = 0"
  shows "path (h(n \<mapsto> new, last as \<mapsto> m\<lparr>m_next := n\<rparr>)) p (as @ [n])"
  using assms
proof (induction as arbitrary: p)
  case (Cons a as)
  from Cons.prems(1) obtain m' where m': "h a = Some m'" "path h (m_next m') as" "p = a" "a \<noteq> 0"
    by (rule path_Cons_E)
  have "a \<notin> set as"
    using path_distinct [OF Cons.prems(1)] by simp
  then show ?case
    using Cons.IH [OF m'(2)] Cons.prems m' by (cases "as = []") auto
qed simp

lemma path_unlink:
  assumes "path h p (xs @ a # d # ys)" "h a = Some m" "h d = Some n"
  shows "path (h(a \<mapsto> m\<lparr>m_next := m_next n\<rparr>, d := None)) p (xs @ a # ys)"
  using assms
proof (induction xs arbitrary: p)
  case Nil
  then have "distinct (a # d # ys)"
    using path_distinct by fastforce
  then show ?case
    using Nil by (auto simp del: fun_upd_apply simp: fun_upd_twist fun_upd_same fun_upd_other)
next
  case (Cons x xs)
  have "x \<notin> set (xs @ a # d # ys)"
    using path_distinct [OF Cons.prems(1)] by simp
  then show ?case
    using Cons by (auto split: option.splits)
qed

lemma entry_at_next [simp]:
  "h a = Some m \<Longrightarrow> entry_at (h(a \<mapsto> m\<lparr>m_next := q\<rparr>)) x = entry_at h x"
  by (simp add: entry_at_def)

section \<open>Operations on the abstract list\<close>

lemma represents_E:
  assumes "list_repr st es"
  obtains as where "path (heap st) (list_ptr st) as" "es = map (entry_at (heap st)) as"
    "counter st = int (length es)" "\<forall>e \<in> set es. length (fst e) = 16" "finite (dom (heap st))"
  using assms by (auto simp: list_repr_def represents_def)

lemma list_reprI:
  "path (heap st) (list_ptr st) as \<Longrightarrow> es = map (entry_at (heap st)) as \<Longrightarrow>
   counter st = int (length es) \<Longrightarrow> \<forall>e \<in> set es. length (fst e) = 16 \<Longrightarrow> finite (dom (heap st)) \<Longrightarrow>
   list_repr st es"
  by (auto simp: list_repr_def represents_def)

lemma list_repr_errno [simp]: "list_repr (st\<lparr>errno := e\<rparr>) es = list_repr st es"
  by (simp add: list_repr_def represents_def)

lemma list_repr_ptr: "list_repr st es \<Longrightarrow> (list_ptr st = 0) = (es = [])"
  by (elim represents_E) (auto elim: linked.elims)

lemma list_repr_count: "list_repr st es \<Longrightarrow> List_no_of_members st = int (length es)"
  by (auto simp: List_no_of_members_def elim: represents_E)

lemma List_init_repr:
  assumes "malloc \<noteq> 0" "heap st malloc = None" "16 \<le> length mid" "counter st = 0"
    "finite (dom (heap st))"
  shows "\<exists>st'. List_init mid ip malloc st = Some (Inr (0, st')) \<and> list_repr st' [(take 16 mid, ip)]"
  using assms
  by (auto simp: List_init_def memcpy_bytes_def Let_def entry_at_def
      intro!: list_reprI [where as = "[malloc]"])

lemma List_new_member_cases:
  assumes "list_repr st es" "es \<noteq> []" "16 \<le> length mid"
  shows "case spec_hit mid ip es of
      Inl e \<Rightarrow> List_new_member mid ip malloc st = Some (Inl e)
    | Inr True \<Rightarrow> List_new_member mid ip malloc st = Some (Inr (-1, st\<lparr>errno := EPERM\<rparr>))
    | Inr False \<Rightarrow> malloc = 0 \<longrightarrow>
        List_new_member mid ip malloc st = Some (Inr (-1, st\<lparr>errno := ENOMEM\<rparr>))"
proof -
  from assms(1) obtain as where as: "path (heap st) (list_ptr st) as"
    "es = map (entry_at (heap st)) as" "\<forall>e \<in> set es. length (fst e) = 16"
    by (rule represents_E)
  have "list_ptr st \<noteq> 0"
    using list_repr_ptr [OF assms(1)] assms(2) by simp
  moreover have "as \<noteq> []"
    using as(2) assms(2) by simp
  ultimately show ?thesis
    using find_loop_hit [OF as(1) assms(3), of ip] as(2,3) last_loop_path [OF as(1)]
    by (auto simp: List_new_member_def split: sum.splits bool.splits)
qed

lemma List_new_member_added:
  assumes "list_repr st es" "es \<noteq> []" "16 \<le> length mid" "spec_hit mid ip es = Inr False"
    "list_fresh st malloc"
  shows "\<exists>st'. List_new_member mid ip malloc st = Some (Inr (0, st')) \<and>
    list_repr st' (es @ [(take 16 mid, ip)])"
proof -
  from assms(1) obtain as where as: "path (heap st) (list_ptr st) as"
    "es = map (entry_at (heap st)) as" "counter st = int (length es)"
    "\<forall>e \<in> set es. length (fst e) = 16" "finite (dom (heap st))"
    by (rule represents_E)
  have ptr: "list_ptr st \<noteq> 0" and ne: "as \<noteq> []"
    using list_repr_ptr [OF assms(1)] assms(2) as(2) by auto
  obtain m where m: "heap st (last as) = Some m"
    using path_nonnull [OF as(1), of "last as"] ne by auto
  have new: "malloc \<noteq> 0" "heap st malloc = None" "malloc \<notin> set as" "malloc \<noteq> last as"
    using assms(5) path_nonnull [OF as(1), of malloc] m by (auto simp: list_fresh_def)
  let ?cell = "\<lparr>m_ip = ip, m_id = take 16 mid, m_next = 0\<rparr>"
  let ?h = "(heap st)(malloc \<mapsto> ?cell, last as \<mapsto> m\<lparr>m_next := malloc\<rparr>)"
  have run: "List_new_member mid ip malloc st =
      Some (Inr (0, st\<lparr>heap := ?h, counter := counter st + 1\<rparr>))"
    using find_loop_hit [OF as(1) assms(3), of ip] as(2,4) last_loop_path [OF as(1) ne] assms(3,4)
      ptr new m by (auto simp: List_new_member_def memcpy_bytes_def Let_def)
  have "path ?h (list_ptr st) (as @ [malloc])"
    by (rule path_link) (use as(1) ne new m in auto)
  moreover have "map (entry_at ?h) (as @ [malloc]) = es @ [(take 16 mid, ip)]"
    using as(2) new m by (auto simp: entry_at_def)
  ultimately show ?thesis
    using run as(3,4,5) assms(3) by (auto intro!: list_reprI [where as = "as @ [malloc]"])
qed

lemma List_delete_member_cases:
  assumes "list_repr st es" "16 \<le> length mid"
  shows "if spec_known mid es
    then \<exists>st'. List_delete_member mid st = Some (Inr (0, st')) \<and> list_repr st' (spec_remove mid es)
    else List_delete_member mid st = Some (Inr (-1, st\<lparr>errno := EADDRNOTAVAIL\<rparr>))"
proof (cases "es = []")
  case True
  then show ?thesis
    using list_repr_ptr [OF assms(1)] by (simp add: List_delete_member_def spec_known_def)
next
  case False
  from assms(1) obtain as where as: "path (heap st) (list_ptr st) as"
    "es = map (entry_at (heap st)) as" "counter st = int (length es)"
    "\<forall>e \<in> set es. length (fst e) = 16" "finite (dom (heap st))"
    by (rule represents_E)
  let ?P = "\<lambda>e. cstr (fst e) = cstr (take 16 mid)"
  have ptr: "list_ptr st \<noteq> 0" and ne: "as \<noteq> []"
    using list_repr_ptr [OF assms(1)] False as(2) by auto
  have test: "strncmp_eq 16 (m_id m) mid = Inr (?P (entry_at (heap st) a))"
    if "a \<in> set as" "heap st a = Some m" for a m
    using that as(2,4) assms(2) by (auto simp: entry_at_def strncmp_eq_cstr)
  from prev_loop_path [OF as(1) ne, of "\<lambda>n. strncmp_eq 16 (m_id n) mid" ?P, OF test]
  consider (none) q where
      "prev_loop (\<lambda>n. strncmp_eq 16 (m_id n) mid) (heap st) (list_ptr st) = Some (Inr (q, 0))"
      "\<forall>x \<in> set (drop 1 as). \<not> ?P (entry_at (heap st) x)"
  | (some) xs a d ys where "as = xs @ a # d # ys"
      "prev_loop (\<lambda>n. strncmp_eq 16 (m_id n) mid) (heap st) (list_ptr st) = Some (Inr (a, d))"
      "?P (entry_at (heap st) d)" "\<forall>x \<in> set (drop 1 (xs @ [a])). \<not> ?P (entry_at (heap st) x)"
    by blast
  then show ?thesis
  proof cases
    case none
    then have "\<not> spec_known mid es"
      using as(2) by (auto simp: spec_known_def drop_map)
    then show ?thesis
      using none ptr by (simp add: List_delete_member_def)
  next
    case some
    obtain m n where mn: "heap st a = Some m" "heap st d = Some n" "d \<noteq> 0"
      using path_nonnull [OF as(1), of a] path_nonnull [OF as(1), of d] some(1) by auto
    let ?h = "(heap st)(a \<mapsto> m\<lparr>m_next := m_next n\<rparr>, d := None)"
    have d: "d \<notin> set (xs @ a # ys)"
      using path_distinct [OF as(1)] some(1) by simp
    have run: "List_delete_member mid st =
        Some (Inr (0, st\<lparr>heap := ?h, counter := counter st - 1\<rparr>))"
      using some(2) mn ptr by (simp add: List_delete_member_def)
    have "remove_first ?P (map (entry_at (heap st)) (drop 1 (xs @ [a]) @ d # ys)) =
        map (entry_at (heap st)) (drop 1 (xs @ [a]) @ ys)"
      unfolding map_append list.map by (rule remove_first_append) (use some(3,4) in auto)
    then have removed: "spec_remove mid es = map (entry_at (heap st)) (xs @ a # ys)"
      using as(2) some(1) by (cases xs) (simp_all add: spec_remove_def)
    have known: "spec_known mid es"
      using as(2) some(1,3) by (cases xs) (auto simp: spec_known_def)
    have "path ?h (list_ptr st) (xs @ a # ys)"
      by (rule path_unlink) (use as(1) some(1) mn in auto)
    moreover have "map (entry_at ?h) (xs @ a # ys) = spec_remove mid es"
      using d mn removed by (auto simp: entry_at_def)
    moreover have "\<forall>e \<in> set (spec_remove mid es). length (fst e) = 16"
      using as(2,4) some(1) unfolding removed by simp
    moreover have "counter st - 1 = int (length (spec_remove mid es))"
      using as(2,3) some(1) unfolding removed by simp
    ultimately have "list_repr (st\<lparr>heap := ?h, counter := counter st - 1\<rparr>) (spec_remove mid es)"
      using as(5) by (intro list_reprI [where as = "xs @ a # ys"]) simp_all
    then show ?thesis
      using run known by simp
  qed
qed

interpretation members: member_table list_repr list_fresh List_new_member List_delete_member
  List_no_of_members
proof
  fix st es and mid :: "u8 list" and ip p
  assume st: "list_repr st es"
  show "List_no_of_members st = int (length es)"
    using st by (rule list_repr_count)
  assume mid: "16 \<le> length mid"
  show "spec_known mid es \<Longrightarrow>
      \<exists>st'. List_delete_member mid st = Some (Inr (0, st')) \<and> list_repr st' (spec_remove mid es)"
    using List_delete_member_cases [OF st mid] by simp
  show "\<not> spec_known mid es \<Longrightarrow>
      \<exists>st'. List_delete_member mid st = Some (Inr (-1, st')) \<and> list_repr st' es"
    using List_delete_member_cases [OF st mid] st by simp
  assume es: "es \<noteq> []"
  show "spec_hit mid ip es = Inr True \<Longrightarrow>
      \<exists>st'. List_new_member mid ip p st = Some (Inr (-1, st')) \<and> list_repr st' es"
    using List_new_member_cases [OF st es mid, of ip p] st by simp
  show "spec_hit mid ip es = Inr False \<Longrightarrow> list_fresh st p \<Longrightarrow>
      \<exists>st'. List_new_member mid ip p st = Some (Inr (0, st')) \<and> list_repr st' (es @ [(take 16 mid, ip)])"
    using List_new_member_added [OF st es mid] .
qed

section \<open>Searching\<close>

definition not_found :: entry where
  "not_found = (replicate 16 0, 0)"

lemma List_search_repr:
  assumes "list_repr st es" "es \<noteq> []"
    "\<And>m. length (m_id m) = 16 \<Longrightarrow> test m = Inr (P (m_id m, m_ip m))"
  shows "\<exists>m. List_search test st = Some (Inr (m, st)) \<and>
    (m_id m, m_ip m) = (case find P es of Some e \<Rightarrow> e | None \<Rightarrow> not_found)"
proof -
  from assms(1) obtain as where as: "path (heap st) (list_ptr st) as"
    "es = map (entry_at (heap st)) as" "\<forall>e \<in> set es. length (fst e) = 16"
    by (rule represents_E)
  have "\<exists>q. find_loop test (heap st) (list_ptr st) = Some (Inr q) \<and>
      find P (map (entry_at (heap st)) as) = (if q = 0 then None else Some (entry_at (heap st) q)) \<and>
      (q \<noteq> 0 \<longrightarrow> q \<in> set as)"
    by (rule find_loop_find [OF as(1)]) (use as(2,3) assms(3) in \<open>auto simp: entry_at_def\<close>)
  then obtain q where
    q: "find_loop test (heap st) (list_ptr st) = Some (Inr q)"
      "find P es = (if q = 0 then None else Some (entry_at (heap st) q))" "q \<noteq> 0 \<longrightarrow> q \<in> set as"
    using as(2) by auto
  have ptr: "list_ptr st \<noteq> 0"
    using list_repr_ptr [OF assms(1)] assms(2) by simp
  show ?thesis
  proof (cases "q = 0")
    case True
    then show ?thesis
      using q ptr by (auto simp: List_search_def not_found_def member_zero_def Let_def split: option.split)
  next
    case False
    then obtain m where "heap st q = Some m"
      using q(3) path_nonnull [OF as(1)] by blast
    then show ?thesis
      using False q ptr by (simp add: List_search_def entry_at_def)
  qed
qed

lemma List_search_id_repr:
  assumes "list_repr st es" "es \<noteq> []" "16 \<le> length mid"
  shows "\<exists>m. List_search_member_id mid st = Some (Inr (m, st)) \<and>
    (m_id m, m_ip m) = (case spec_find_id mid es of Some e \<Rightarrow> e | None \<Rightarrow> not_found)"
  unfolding List_search_member_id_def spec_find_id_def
  by (rule List_search_repr [OF assms(1,2)]) (simp add: strncmp_eq_cstr assms(3))

lemma List_search_ip_repr:
  assumes "list_repr st es" "es \<noteq> []"
  shows "\<exists>m. List_search_member_ip ip st = Some (Inr (m, st)) \<and>
    (m_id m, m_ip m) = (case spec_find_ip ip es of Some e \<Rightarrow> e | None \<Rightarrow> not_found)"
  unfolding List_search_member_ip_def spec_find_ip_def
  by (rule List_search_repr [OF assms]) simp

lemma List_delete_repr:
  assumes "represents st as es" "es \<noteq> []"
  shows "List_delete st = Some (Inr (0, st\<lparr>heap := heap st |` (- set as), counter := 0\<rparr>))"
proof -
  have "list_ptr st \<noteq> 0"
    using assms by (auto simp: represents_def elim: linked.elims)
  then show ?thesis
    using free_loop_path [of "heap st" "list_ptr st" as] assms(1)
    by (simp add: List_delete_def represents_def)
qed

section \<open>Reachable states\<close>

text \<open>The states of a program that starts the list with its own pair and then adds and removes
  members; every address comes from \<open>malloc\<close>, which may also fail.\<close>

inductive list_reach :: "u8 list \<Rightarrow> u32 \<Rightarrow> list_state \<Rightarrow> bool" for me own_ip where
  reach_init: "list_reach me own_ip st"
    if "id_ok me" "List_init me own_ip malloc list_start = Some (Inr (0, st))"
| reach_new: "list_reach me own_ip st'"
    if "list_reach me own_ip st" "16 \<le> length mid" "malloc \<noteq> 0 \<longrightarrow> heap st malloc = None"
      "List_new_member mid ip malloc st = Some (Inr (r, st'))"
| reach_delete: "list_reach me own_ip st'"
    if "list_reach me own_ip st" "16 \<le> length mid" "List_delete_member mid st = Some (Inr (r, st'))"

lemma List_init_start:
  assumes "List_init mid ip malloc list_start = Some (Inr (0, st))" "16 \<le> length mid"
  shows "list_repr st [(take 16 mid, ip)]"
proof -
  have "malloc \<noteq> 0"
    using assms(1) by (intro notI) (simp add: List_init_def Let_def)
  then show ?thesis
    using List_init_repr [of malloc list_start mid ip] assms by (auto simp: list_start_def)
qed

lemma list_new_step:
  assumes "list_repr st es" "es \<noteq> []" "roster_ok es" "16 \<le> length mid"
    "malloc \<noteq> 0 \<longrightarrow> heap st malloc = None"
    "List_new_member mid ip malloc st = Some (Inr (r, st'))"
  shows "\<exists>new. list_repr st' (es @ new) \<and> roster_ok (es @ new)"
proof (cases "spec_hit mid ip es")
  case (Inl e)
  then show ?thesis
    using List_new_member_cases [OF assms(1,2,4), of ip malloc] assms(6) by simp
next
  case (Inr b)
  show ?thesis
  proof (cases "b \<or> malloc = 0")
    case True
    then have "list_repr st' es"
      using List_new_member_cases [OF assms(1,2,4), of ip malloc] assms(1,6) Inr
      by (auto split: bool.splits)
    then show ?thesis
      using assms(3) by (intro exI [of _ "[]"]) simp
  next
    case False
    then have "list_repr st' (es @ [(take 16 mid, ip)])"
      using List_new_member_added [OF assms(1,2,4), of ip malloc] assms(5,6) Inr
      by (auto simp: list_fresh_def)
    then show ?thesis
      using roster_ok_snoc [OF assms(3), of mid ip] Inr False assms(4)
      by (intro exI [of _ "[(take 16 mid, ip)]"]) simp
  qed
qed

lemma list_reach_repr:
  assumes "list_reach me own_ip st"
  shows "\<exists>es. list_repr st ((take 16 me, own_ip) # es) \<and> roster_ok ((take 16 me, own_ip) # es)"
  using assms
proof induction
  case (reach_init malloc st)
  then show ?case
    using List_init_start [of me own_ip malloc st]
    by (intro exI [of _ "[]"]) (auto simp: roster_ok_def id_ok_def)
next
  case (reach_new st mid malloc ip r st')
  then show ?case
    using list_new_step [of st _ mid malloc ip r st'] by fastforce
next
  case (reach_delete st mid r st')
  then obtain es where es: "list_repr st ((take 16 me, own_ip) # es)"
    "roster_ok ((take 16 me, own_ip) # es)"
    by blast
  have "list_repr st' (spec_remove mid ((take 16 me, own_ip) # es))"
    using members.delete_member_spec [OF es(1) reach_delete.hyps(2)] reach_delete.hyps(3) by auto
  then show ?case
    using roster_ok_remove [OF es(2), of mid] by (auto simp: spec_remove_def)
qed

section \<open>Properties\<close>

text \<open>
  C7: In every state the program reaches by starting the list and then adding and removing
  members, whatever addresses \<open>malloc\<close> returns and however often it fails, the chain is a proper
  list with the program's own pair at its head, \<open>counter\<close> is its length, and no two members share
  an identifier or an address.
\<close>

theorem list_reachable_invariant:
  assumes "list_reach me own_ip st"
  shows "\<exists>as es. represents st as ((take 16 me, own_ip) # es) \<and> distinct as \<and>
    List_no_of_members st = int (Suc (length es)) \<and>
    distinct (map (\<lambda>e. cstr (fst e)) ((take 16 me, own_ip) # es)) \<and>
    distinct (map snd ((take 16 me, own_ip) # es))"
proof -
  obtain es where es: "list_repr st ((take 16 me, own_ip) # es)"
    "roster_ok ((take 16 me, own_ip) # es)"
    using list_reach_repr [OF assms] by blast
  then obtain as where "represents st as ((take 16 me, own_ip) # es)"
    by (auto simp: list_repr_def)
  then show ?thesis
    using es(2) path_distinct [of "heap st" "list_ptr st" as]
    by (intro exI [of _ as] exI [of _ es])
      (auto simp: represents_def roster_ok_def List_no_of_members_def)
qed

text \<open>A list with two members.\<close>

definition id_of :: "string \<Rightarrow> u8 list" where
  "id_of s = bytes_of s @ replicate (16 - length s) 0"

definition two_members :: list_state where
  "two_members =
     \<lparr>heap = [0x100 \<mapsto> \<lparr>m_ip = 1, m_id = id_of ''ann'', m_next = 0x200\<rparr>,
              0x200 \<mapsto> \<lparr>m_ip = 2, m_id = id_of ''bob'', m_next = 0\<rparr>],
      list_ptr = 0x100, counter = 2, errno = 0\<rparr>"

lemma id_of_ok [simp]:
  "length (id_of ''ann'') = 16" "length (id_of ''bob'') = 16" "length (id_of ''eve'') = 16"
  "id_ok (id_of ''ann'')" "id_ok (id_of ''bob'')" "id_ok (id_of ''eve'')"
  by (simp_all add: id_of_def id_ok_def bytes_of_def)

lemma zero_in_id_of [simp]:
  "0 \<in> set (id_of ''ann'')" "0 \<in> set (id_of ''bob'')" "0 \<in> set (id_of ''eve'')"
  by (simp_all add: id_of_def)

lemma cstr_id_of [simp]:
  "cstr (id_of ''ann'') = bytes_of ''ann''" "cstr (id_of ''bob'') = bytes_of ''bob''"
  "cstr (id_of ''eve'') = bytes_of ''eve''"
  by (simp_all add: id_of_def cstr_def bytes_of_def)

lemma bytes_of_eq [simp]: "(bytes_of s = bytes_of t) = (s = t)"
  by (auto dest: inj_bytes_of)

lemma two_members_heap: "heap two_members 0x300 = None"
  by (simp add: two_members_def)

lemma two_members_repr: "list_repr two_members [(id_of ''ann'', 1), (id_of ''bob'', 2)]"
  by (rule list_reprI [where as = "[0x100, 0x200]"])
    (auto simp: two_members_def entry_at_def)

lemma list_reachable_invariant_witness:
  "\<exists>st as es. list_reach (id_of ''ann'') 1 st \<and> represents st as ((id_of ''ann'', 1) # es)"
proof -
  obtain st where "List_init (id_of ''ann'') 1 0x100 list_start = Some (Inr (0, st))"
    using List_init_repr [of "0x100" list_start "id_of ''ann''" 1] by (auto simp: list_start_def)
  then have "list_reach (id_of ''ann'') 1 st"
    by (intro reach_init) simp_all
  then show ?thesis
    using list_reachable_invariant [of "id_of ''ann''" 1 st] by fastforce
qed

text \<open>
  C14: On a list that holds \<open>es\<close>, \<open>List_new_member\<close> refuses a pair whose identifier or address is
  taken with -1 and \<open>EPERM\<close>, gives -1 and \<open>ENOMEM\<close> when \<open>malloc\<close> fails, and otherwise appends
  the pair and returns 0; a refusal leaves the list as it was.  When an identifier of 16
  bytes without terminator meets the same 16 bytes in the list, \<open>strcmp\<close> reads past both.
\<close>

theorem List_new_member_outcomes:
  assumes "list_repr st es" "es \<noteq> []" "16 \<le> length mid" "malloc \<noteq> 0 \<longrightarrow> heap st malloc = None"
  shows "case spec_hit mid ip es of
      Inl e \<Rightarrow> List_new_member mid ip malloc st = Some (Inl Out_Of_Bounds)
    | Inr True \<Rightarrow> List_new_member mid ip malloc st = Some (Inr (-1, st\<lparr>errno := EPERM\<rparr>))
    | Inr False \<Rightarrow>
        if malloc = 0 then List_new_member mid ip malloc st = Some (Inr (-1, st\<lparr>errno := ENOMEM\<rparr>))
        else \<exists>st'. List_new_member mid ip malloc st = Some (Inr (0, st')) \<and>
          list_repr st' (es @ [(take 16 mid, ip)])"
proof -
  have "e = Out_Of_Bounds" if "spec_hit mid ip es = Inl e" for e
    using that by (induction es) (auto split: if_splits)
  then show ?thesis
    using List_new_member_cases [OF assms(1-3), of ip malloc]
      List_new_member_added [OF assms(1-3), of ip malloc] assms(4)
    by (auto simp: list_fresh_def split: sum.split bool.split)
qed

lemma List_new_member_outcomes_witness:
  "(\<exists>st. List_new_member (id_of ''eve'') 3 0x300 two_members = Some (Inr (0, st)) \<and>
      list_repr st [(id_of ''ann'', 1), (id_of ''bob'', 2), (id_of ''eve'', 3)]) \<and>
   List_new_member (id_of ''bob'') 3 0x300 two_members = Some (Inr (-1, two_members\<lparr>errno := EPERM\<rparr>))"
  using List_new_member_outcomes [OF two_members_repr, of "id_of ''eve''" "0x300" 3]
    List_new_member_outcomes [OF two_members_repr, of "id_of ''bob''" "0x300" 3]
  by (simp add: overread_def clash_def two_members_heap)

text \<open>
  C16: Searching by identifier returns the first member whose identifier is the same string of at
  most 16 bytes, searching by address the first with that address; a structure of zeros
  stands for no such member, and the list is not changed.
\<close>

theorem List_search_finds:
  assumes "list_repr st es" "es \<noteq> []" "16 \<le> length mid"
  shows "(\<exists>m. List_search_member_id mid st = Some (Inr (m, st)) \<and>
      (m_id m, m_ip m) = (case spec_find_id mid es of Some e \<Rightarrow> e | None \<Rightarrow> (replicate 16 0, 0))) \<and>
    (\<exists>m. List_search_member_ip ip st = Some (Inr (m, st)) \<and>
      (m_id m, m_ip m) = (case spec_find_ip ip es of Some e \<Rightarrow> e | None \<Rightarrow> (replicate 16 0, 0)))"
  using List_search_id_repr [OF assms] List_search_ip_repr [OF assms(1,2), of ip]
  unfolding not_found_def by blast

lemma List_search_finds_witness:
  "(\<exists>m. List_search_member_id (id_of ''bob'') two_members = Some (Inr (m, two_members)) \<and> m_ip m = 2) \<and>
   (\<exists>m. List_search_member_ip 7 two_members = Some (Inr (m, two_members)) \<and> m_ip m = 0)"
  using List_search_finds [OF two_members_repr, of "id_of ''bob''" 7]
  by (auto simp: spec_find_id_def spec_find_ip_def)

text \<open>
  C15: \<open>List_delete_member\<close> removes the first member behind the head whose identifier is the given
  string and returns 0, and leaves the rest of the list in order; when there is none, in
  particular for the program's own identifier, it returns -1 with \<open>EADDRNOTAVAIL\<close> and changes
  nothing.  In a list without duplicates a search then no longer finds the identifier, except at
  the head.
\<close>

theorem List_delete_member_removes:
  assumes "list_repr st es" "es \<noteq> []" "roster_ok es" "16 \<le> length mid"
  shows "if spec_known mid es
    then \<exists>st'. List_delete_member mid st = Some (Inr (0, st')) \<and> list_repr st' (spec_remove mid es) \<and>
      List_no_of_members st' = List_no_of_members st - 1 \<and>
      \<not> spec_known mid (spec_remove mid es) \<and> hd (spec_remove mid es) = hd es
    else List_delete_member mid st = Some (Inr (-1, st\<lparr>errno := EADDRNOTAVAIL\<rparr>))"
proof (cases "spec_known mid es")
  case True
  then obtain st' where st': "List_delete_member mid st = Some (Inr (0, st'))"
    "list_repr st' (spec_remove mid es)"
    using List_delete_member_cases [OF assms(1,4)] by auto
  have "Suc (length (spec_remove mid es)) = length es"
    using True length_remove_first [of "drop 1 es"] assms(2)
    by (cases es) (auto simp: spec_known_def spec_remove_def)
  then have "List_no_of_members st' = List_no_of_members st - 1"
    using list_repr_count assms(1) st'(2) by simp
  moreover have "\<not> spec_known mid (spec_remove mid es)"
    using spec_remove_gone [OF assms(3)] by (auto simp: spec_known_def)
  moreover have "hd (spec_remove mid es) = hd es"
    using assms(2) by (cases es) (simp_all add: spec_remove_def)
  ultimately show ?thesis
    using True st' by simp
qed (use List_delete_member_cases [OF assms(1,4)] in simp)

lemma List_delete_member_removes_witness:
  "\<exists>st. List_delete_member (id_of ''bob'') two_members = Some (Inr (0, st)) \<and>
    list_repr st [(id_of ''ann'', 1)]"
  using List_delete_member_removes [OF two_members_repr, of "id_of ''bob''"]
  by (auto simp: roster_ok_def spec_known_def spec_remove_def)

text \<open>
  C17: \<open>List_delete\<close> frees every cell of the list exactly once and resets the counter, but leaves
  \<open>list\<close> pointing to the first freed cell: a search, an insertion or a second \<open>List_delete\<close> after it
  uses freed memory.
\<close>

theorem List_delete_dangles:
  assumes "represents st as es" "es \<noteq> []"
  shows "\<exists>st'. List_delete st = Some (Inr (0, st')) \<and> List_no_of_members st' = 0 \<and>
    dom (heap st') = dom (heap st) - set as \<and>
    List_search_member_ip ip st' = Some (Inl Use_After_Free) \<and>
    List_new_member mid ip malloc st' = Some (Inl Use_After_Free) \<and>
    List_delete st' = Some (Inl Use_After_Free)"
proof -
  let ?st' = "st\<lparr>heap := heap st |` (- set as), counter := 0\<rparr>"
  have ptr: "list_ptr st \<noteq> 0" "heap ?st' (list_ptr st) = None"
    using assms by (auto simp: represents_def elim: linked.elims)
  then have "find_loop test (heap ?st') (list_ptr st) = Some (Inl Use_After_Free)"
    and "free_loop (heap ?st') (list_ptr st) = Some (Inl Use_After_Free)" for test
    by (simp_all add: find_loop.simps [of _ _ "list_ptr st"] free_loop.simps [of _ "list_ptr st"])
  then have "List_search_member_ip ip ?st' = Some (Inl Use_After_Free)"
    "List_new_member mid ip malloc ?st' = Some (Inl Use_After_Free)"
    "List_delete ?st' = Some (Inl Use_After_Free)"
    using ptr(1)
    by (simp_all add: List_search_member_ip_def List_search_def List_new_member_def List_delete_def
        Let_def)
  moreover have "dom (heap ?st') = dom (heap st) - set as"
    by auto
  ultimately show ?thesis
    using List_delete_repr [OF assms] by (auto simp: List_no_of_members_def)
qed

lemma List_delete_dangles_witness:
  "\<exists>st. List_delete two_members = Some (Inr (0, st)) \<and> List_delete st = Some (Inl Use_After_Free)"
proof -
  have "represents two_members [0x100, 0x200] [(id_of ''ann'', 1), (id_of ''bob'', 2)]"
    by (auto simp: represents_def two_members_def entry_at_def)
  then show ?thesis
    using List_delete_dangles [of two_members "[0x100, 0x200]" _ 0 "[]" 0] by fastforce
qed

end
