(* ===== verification/Crc_Burst.thy ===== *)
theory Crc_Burst
  imports Crc_Reference
begin

text \<open>
  The reflected registers detect every burst of as many bits as the register has, wherever in the bytes of the
  message it begins.
\<close>

unbundle bit_operations_syntax

section \<open>Bursts of bits\<close>

text \<open>Bit \<open>j\<close> of a message, in the order in which the reflected registers take the bits.\<close>

definition bit_at :: "u8 list \<Rightarrow> nat \<Rightarrow> bool" where
  "bit_at bs j \<longleftrightarrow> bit (bs ! (j div 8)) (j mod 8)"

text \<open>The messages differ, and only in bits \<open>i\<close> to \<open>i + n - 1\<close>.\<close>

definition burst :: "nat \<Rightarrow> nat \<Rightarrow> u8 list \<Rightarrow> u8 list \<Rightarrow> bool" where
  "burst n i us vs \<longleftrightarrow> length us = length vs \<and> us \<noteq> vs \<and>
     (\<forall>j < 8 * length us. bit_at us j \<noteq> bit_at vs j \<longrightarrow> i \<le> j \<and> j < i + n)"

lemma crc_rbyte_0 [simp]: "crc_rbyte p 0 0 = 0"
  by (simp add: crc_rbyte_def)

lemma crc_rbyte_zeros: "foldl (crc_rbyte p) 0 (replicate n 0) = 0"
  by (induction n) simp_all

text \<open>A short message whose first bits are clear enters the register as one that starts later.\<close>

lemma crc_rpack_skip:
  fixes p :: "'a::len word"
  assumes "8 * length bs \<le> LENGTH('a)" "\<And>j. j < r \<Longrightarrow> \<not> bit (crc_rpack bs :: 'a word) j" "r \<le> 8 * length bs"
  shows "foldl (crc_rbyte p) 0 bs = (crc_rstep p ^^ (8 * length bs - r)) (drop_bit r (crc_rpack bs))"
proof -
  have "foldl (crc_rbyte p) 0 bs = (crc_rstep p ^^ ((8 * length bs - r) + r)) (crc_rpack bs)"
    using assms(1,3) by (simp add: crc_rbyte_fold)
  moreover have "(crc_rstep p ^^ r) (crc_rpack bs :: 'a word) = drop_bit r (crc_rpack bs)"
    by (rule crc_rsteps_low_clear [OF assms(2)])
  ultimately show ?thesis
    by (simp only: funpow_add comp_def)
qed

text \<open>
  The bytes of a register and one more, different from zero only in a window of as many bits as the register has: the
  register is not zero after them.
\<close>

lemma crc_rbyte_window:
  fixes p :: "'a::len word"
  assumes "bit p (LENGTH('a) - 1)" "8 * length bs = LENGTH('a)" "r < 8"
    "\<And>j. j < r \<Longrightarrow> \<not> bit (crc_rpack bs :: 'a word) j" "\<And>j. r \<le> j \<Longrightarrow> \<not> bit (b :: u8) j"
    "foldl (crc_rbyte p) 0 (bs @ [b]) = 0"
  shows "bs = replicate (length bs) 0 \<and> b = 0"
proof -
  let ?L = "LENGTH('a)" and ?x = "crc_rpack bs :: 'a word" and ?b = "ucast b :: 'a word"
  have L: "8 \<le> ?L"
    using assms(2) by (cases bs) auto
  obtain n where n: "?L = n + r"
    using assms(3) L le_Suc_ex [of r ?L] by (auto simp: add.commute)
  then have len: "8 * length bs - r = n" "r \<le> 8 * length bs"
    using assms(2) by simp_all
  have bits_b: "bit ?b j = bit b j" for j
    using bit_ucast_u8 [OF L] .
  have shift: "(crc_rstep p ^^ n) (push_bit n ?b) = ?b"
  proof -
    have "drop_bit n (push_bit n ?b) = ?b"
    proof (rule bit_word_eqI)
      fix j assume "j < ?L"
      have "n + j < ?L" if "j < r"
        using that by (simp add: n)
      then show "bit (drop_bit n (push_bit n ?b)) j = bit ?b j"
        using assms(5) [of j] by (cases "j < r") (simp_all add: bit_drop_bit_eq bit_push_bit_iff bits_b)
    qed
    then show ?thesis
      by (subst crc_rsteps_low_clear) (simp_all add: bit_push_bit_iff)
  qed
  have "(crc_rstep p ^^ 8) (foldl (crc_rbyte p) 0 bs XOR ?b) = (crc_rstep p ^^ 8) 0"
    using assms(6) by (simp add: crc_rbyte_def)
  then have "foldl (crc_rbyte p) 0 bs XOR ?b = 0"
    by (rule injD [OF inj_crc_rsteps [OF assms(1)]])
  then have "foldl (crc_rbyte p) 0 bs = ?b"
    by simp
  then have "(crc_rstep p ^^ n) (drop_bit r ?x) = (crc_rstep p ^^ n) (push_bit n ?b)"
    using crc_rpack_skip [of bs r p] assms(2,4) len shift by simp
  then have eq: "drop_bit r ?x = push_bit n ?b"
    by (rule injD [OF inj_crc_rsteps [OF assms(1)]])
  have low: "bit (drop_bit r ?x) j = False" for j
  proof (cases "j < n")
    case True
    then show ?thesis
      unfolding eq by (simp add: bit_push_bit_iff)
  next
    case False
    then have "\<not> r + j < ?L"
      by (simp add: n)
    then have "\<not> bit ?x (r + j)"
      using bit_imp_le_length [of ?x "r + j"] by blast
    then show ?thesis
      by (simp add: bit_drop_bit_eq)
  qed
  have "\<not> bit ?x j" for j
    using low [of "j - r"] assms(4) [of j] by (cases "j < r") (auto simp: bit_drop_bit_eq)
  then have x: "?x = 0"
    by (simp add: bit_eq_iff)
  have "\<not> bit b j" for j
  proof (cases "j < r")
    case True
    then have "n + j < ?L"
      by (simp add: n)
    then have "bit (push_bit n ?b) (n + j) = bit b j"
      by (simp add: bit_push_bit_iff bits_b)
    then show ?thesis
      using low [of "n + j"] unfolding eq by simp
  qed (use assms(5) in simp)
  then have "b = 0"
    by (simp add: bit_eq_iff)
  moreover have "(crc_rpack (replicate (length bs) 0) :: 'a word) = crc_rpack bs"
  proof -
    have "(crc_rpack (replicate n 0) :: 'a word) = 0" for n
      by (induction n) simp_all
    then show ?thesis
      using x by simp
  qed
  then have "bs = replicate (length bs) 0"
    using crc_rpack_inj [of bs "replicate (length bs) 0", where 'a = 'a] assms(2) by simp
  ultimately show ?thesis
    by blast
qed

lemma crc_rbyte_zeros_back:
  fixes p :: "'a::len word"
  assumes "bit p (LENGTH('a) - 1)" "foldl (crc_rbyte p) c (replicate n 0) = 0"
  shows "c = 0"
  using crc_register.fold_inj [OF crc_register_rbyte [OF assms(1)], of c "replicate n 0" 0] assms(2)
  by (simp add: crc_rbyte_zeros)

text \<open>A difference that is all zero outside such a window does not get lost.\<close>

lemma crc_difference:
  fixes p :: "'a::len word"
  assumes "bit p (LENGTH('a) - 1)" "LENGTH('a) = 8 * m"
    "\<And>j. j < 8 * length ds \<Longrightarrow> bit_at ds j \<Longrightarrow> i \<le> j \<and> j < i + LENGTH('a)" "foldl (crc_rbyte p) 0 ds = 0"
  shows "ds = replicate (length ds) 0"
proof -
  define k r where "k = i div 8" and "r = i mod 8"
  have i: "i = 8 * k + r" "r < 8"
    by (simp_all add: k_def r_def)
  define n where "n = k + m + 1"
  define es where "es = ds @ replicate n 0"
  have es: "n \<le> length es" "foldl (crc_rbyte p) 0 es = 0" "es ! q = (if q < length ds then ds ! q else 0)"
      if "q < length es" for q
    using assms(4) that by (auto simp: es_def crc_rbyte_zeros nth_append)
  have bits: "i \<le> 8 * q + s \<and> 8 * q + s < i + 8 * m" if "q < length es" "s < 8" "bit (es ! q) s" for q s
  proof -
    have "q < length ds"
      using that es(3) by (cases "q < length ds") auto
    moreover from this have "bit_at ds (8 * q + s)"
      using that es(3) [of q] by (simp add: bit_at_def)
    ultimately show ?thesis
      using assms(3) [of "8 * q + s"] that(2) assms(2) by simp
  qed
  have zero: "es ! q = 0" if "q < length es" "q < k \<or> k + m < q" for q
  proof (rule bit_word_eqI)
    fix s assume s: "s < LENGTH(8)"
    have "\<not> (i \<le> 8 * q + s \<and> 8 * q + s < i + 8 * m)"
      using that(2) i s by auto
    then show "bit (es ! q) s = bit (0 :: u8) s"
      using bits [OF that(1), of s] s by auto
  qed
  have len: "k + m < length es"
    by (simp add: es_def n_def)
  define bs b where "bs = take m (drop k es)" and "b = es ! (k + m)"
  have parts: "take k es = replicate k 0" "drop n es = replicate (length es - n) 0"
    using zero len by (auto simp: list_eq_iff_nth_eq n_def)
  have "es = take k es @ bs @ [b] @ drop n es"
  proof -
    have "take k es @ bs = take (k + m) es"
      by (simp add: bs_def take_add)
    then show ?thesis
      using id_take_nth_drop [OF len] unfolding b_def n_def
      by (metis Suc_eq_plus1 append_Cons append_Nil append_assoc)
  qed
  then have split: "es = replicate k 0 @ bs @ [b] @ replicate (length es - n) 0"
    using parts by simp
  have "foldl (crc_rbyte p) (foldl (crc_rbyte p) 0 (bs @ [b])) (replicate (length es - n) 0) = 0"
    using es(2) [OF len] arg_cong [OF split, of "foldl (crc_rbyte p) 0"] by (simp add: crc_rbyte_zeros)
  then have window: "foldl (crc_rbyte p) 0 (bs @ [b]) = 0"
    by (rule crc_rbyte_zeros_back [OF assms(1)])
  have "0 < m"
    using len_gt_0 [where 'a = 'a] assms(2) by simp
  then have bs: "8 * length bs = LENGTH('a)" "bs ! 0 = es ! k"
    using len assms(2) by (simp_all add: bs_def)
  have first: "\<not> bit (crc_rpack bs :: 'a word) j" if "j < r" for j
    using bit_crc_rpack [of bs j, where 'a = 'a] bits [of k j] bs len i that by auto
  have last: "\<not> bit b j" if "r \<le> j" for j
    using bits [of "k + m" j] len i that bit_imp_le_length [of b j] by (auto simp: b_def)
  have zeros: "bs = replicate (length bs) 0" "b = 0"
    using crc_rbyte_window [OF assms(1) bs(1) i(2) first last window] by blast+
  have "set es = set (replicate k 0 @ bs @ [b] @ replicate (length es - n) 0)"
    by (rule arg_cong [OF split])
  moreover have "x = 0" if "x \<in> set bs" for x
    using that zeros(1) by (metis in_set_replicate)
  ultimately have "x = 0" if "x \<in> set es" for x
    using that zeros(2) by auto
  then show ?thesis
    by (auto simp: es_def intro!: replicate_eqI)
qed

lemma crc_burst_detected:
  fixes p :: "'a::len word"
  assumes "bit p (LENGTH('a) - 1)" "LENGTH('a) = 8 * m" "burst (LENGTH('a)) i us vs"
  shows "foldl (crc_rbyte p) c us \<noteq> foldl (crc_rbyte p) c vs"
proof
  assume eq: "foldl (crc_rbyte p) c us = foldl (crc_rbyte p) c vs"
  let ?ds = "map2 (XOR) us vs"
  have len: "length us = length vs" "us \<noteq> vs"
    using assms(3) by (simp_all add: burst_def)
  have "foldl (crc_rbyte p) 0 ?ds = 0"
    using crc_register.fold_xor [OF crc_register_rbyte [OF assms(1)] len(1), of c c] eq by simp
  moreover have "bit_at ?ds j \<longleftrightarrow> bit_at us j \<noteq> bit_at vs j" if "j < 8 * length us" for j
    using that len(1) by (simp add: bit_at_def bit_xor_iff div_less_iff_less_mult mult.commute)
  ultimately have "?ds = replicate (length us) 0"
    using crc_difference [OF assms(1,2), of ?ds i] assms(3) len(1) by (auto simp: burst_def)
  then have "?ds ! q = 0" if "q < length us" for q
    using that by simp
  then have "us ! q = vs ! q" if "q < length us" for q
    using that len(1) by simp
  then have "us = vs"
    using len(1) by (intro nth_equalityI) auto
  then show False
    using len(2) by blast
qed

end
