(* ===== verification/Packet.thy ===== *)
theory Packet
  imports Crc32 Crc_Burst Member_List
begin

unbundle bit_operations_syntax

text \<open>
  \<^verbatim>\<open>Chat/src/packet.h\<close> and the parts of \<^verbatim>\<open>task.c\<close> that build and take apart a packet:
  byte order, the layout of \<open>struct packet\<close> in memory, the member list in the payload, and
  the checksum test.  The machine is little-endian, as the one the program is built for.
  A write or read beyond the 400 bytes of the payload is the fault \<open>Out_Of_Bounds\<close>.
\<close>

section \<open>Byte order\<close>

definition htons :: "u16 \<Rightarrow> u16" where
  "htons x = push_bit 8 x OR drop_bit 8 x"

definition htonl :: "u32 \<Rightarrow> u32" where
  "htonl x = push_bit 24 (x AND 0xFF) OR push_bit 8 (x AND 0xFF00) OR
     drop_bit 8 (x AND 0xFF0000) OR drop_bit 24 x"

text \<open>\<open>ntohs\<close> and \<open>ntohl\<close> are the same exchanges.\<close>

definition ntohs :: "u16 \<Rightarrow> u16" where "ntohs x = htons x"
definition ntohl :: "u32 \<Rightarrow> u32" where "ntohl x = htonl x"

text \<open>The bytes of an integer in memory.\<close>

definition bytes16 :: "u16 \<Rightarrow> u8 list" where
  "bytes16 x = [ucast x, ucast (drop_bit 8 x)]"

definition bytes32 :: "u32 \<Rightarrow> u8 list" where
  "bytes32 x = [ucast x, ucast (drop_bit 8 x), ucast (drop_bit 16 x), ucast (drop_bit 24 x)]"

definition word16 :: "u8 \<Rightarrow> u8 \<Rightarrow> u16" where
  "word16 a b = ucast a OR push_bit 8 (ucast b)"

definition word32 :: "u8 \<Rightarrow> u8 \<Rightarrow> u8 \<Rightarrow> u8 \<Rightarrow> u32" where
  "word32 a b c d = ucast a OR push_bit 8 (ucast b) OR push_bit 16 (ucast c) OR push_bit 24 (ucast d)"

section \<open>The structure\<close>

definition VERSION :: u8 where "VERSION = 1"
definition SIGN_IN :: u8 where "SIGN_IN = 1"
definition SIGN_OUT :: u8 where "SIGN_OUT = 2"
definition MEMBER_LIST :: u8 where "MEMBER_LIST = 3"
definition MESSAGE :: u8 where "MESSAGE = 4"
definition ERROR_TYPE :: u8 where "ERROR_TYPE = 5"
definition SIZE_OF_MEMBER_IN_BYTES :: nat where "SIZE_OF_MEMBER_IN_BYTES = 20"
definition ID_LENGTH :: nat where "ID_LENGTH = 16"
definition PAYLOAD_SIZE :: nat where "PAYLOAD_SIZE = 20 * 20"

lemmas packet_types = SIGN_IN_def SIGN_OUT_def MEMBER_LIST_def MESSAGE_def ERROR_TYPE_def VERSION_def
lemmas packet_sizes = SIZE_OF_MEMBER_IN_BYTES_def ID_LENGTH_def PAYLOAD_SIZE_def

record packet =
  version :: u8
  ptyp :: u8
  plength :: u16
  pcrc :: u32
  payload :: "u8 list"

text \<open>The structure as it lies in memory, without padding, and back; \<open>sizeof(struct packet)\<close>
  is 408.\<close>

definition packet_bytes :: "packet \<Rightarrow> u8 list" where
  "packet_bytes p = [version p, ptyp p] @ bytes16 (plength p) @ bytes32 (pcrc p) @ payload p"

definition sizeof_packet :: nat where
  "sizeof_packet = 8 + PAYLOAD_SIZE"

definition packet_at :: "u8 list \<Rightarrow> packet" where
  "packet_at mem =
     \<lparr>version = mem ! 0, ptyp = mem ! 1, plength = word16 (mem ! 2) (mem ! 3),
      pcrc = word32 (mem ! 4) (mem ! 5) (mem ! 6) (mem ! 7), payload = drop 8 mem\<rparr>"

section \<open>The member list in the payload\<close>

text \<open>\<open>payload[i] = v\<close>\<close>

definition store :: "u8 list \<Rightarrow> nat \<Rightarrow> u8 \<Rightarrow> u8 list result" where
  "store pl i v = (if i < length pl then Inr (pl[i := v]) else Inl Out_Of_Bounds)"

fun store_all :: "u8 list \<Rightarrow> nat \<Rightarrow> u8 list \<Rightarrow> u8 list result" where
  "store_all pl i [] = Inr pl"
| "store_all pl i (v # vs) = bind_r (store pl i v) (\<lambda>pl. store_all pl (Suc i) vs)"

text \<open>The four bytes of \<open>ip_t = htonl(p->ip)\<close>, most significant first.\<close>

definition ip_bytes :: "u32 \<Rightarrow> u8 list" where
  "ip_bytes ip =
     (let ip_t = htonl ip in
      [ucast (drop_bit 24 (ip_t AND 0xFF000000)), ucast (drop_bit 16 (ip_t AND 0x00FF0000)),
       ucast (drop_bit 8 (ip_t AND 0x0000FF00)), ucast (ip_t AND 0x000000FF)])"

text \<open>The inner loop over the identifier: \<open>send_member_list\<close> copies all of it,
  \<open>send_sign_in\<close> stops after the terminator.\<close>

definition put_id :: "u8 list \<Rightarrow> nat \<Rightarrow> u8 list \<Rightarrow> u8 list result" where
  "put_id pl id_offset mid = store_all pl id_offset (take ID_LENGTH mid)"

fun up_to_nul :: "u8 list \<Rightarrow> u8 list" where
  "up_to_nul [] = []"
| "up_to_nul (c # cs) = (if c = 0 then [0] else c # up_to_nul cs)"

definition put_id_break :: "u8 list \<Rightarrow> nat \<Rightarrow> u8 list \<Rightarrow> u8 list result" where
  "put_id_break pl id_offset mid = store_all pl id_offset (up_to_nul (take ID_LENGTH mid))"

text \<open>\<open>for (i = 0; i < List_no_of_members(); i++) { ...; p = p->next; }\<close> with \<open>n\<close> rounds left.\<close>

fun put_members ::
  "(u8 list \<Rightarrow> nat \<Rightarrow> u8 list \<Rightarrow> u8 list result) \<Rightarrow> member_heap \<Rightarrow> nat \<Rightarrow> nat \<Rightarrow> nat \<Rightarrow> u8 list \<Rightarrow>
   u8 list result" where
  "put_members putid h p ip_addr_offset 0 pl = Inr pl"
| "put_members putid h p ip_addr_offset (Suc n) pl =
     (if p = 0 then Inl Null_Dereference
      else case h p of
        None \<Rightarrow> Inl Use_After_Free
      | Some m \<Rightarrow>
          bind_r (store_all pl ip_addr_offset (ip_bytes (m_ip m))) (\<lambda>pl.
          bind_r (putid pl (4 + ip_addr_offset) (m_id m)) (\<lambda>pl.
          put_members putid h (m_next m) (ip_addr_offset + SIZE_OF_MEMBER_IN_BYTES) n pl)))"

text \<open>\<open>payload[i]\<close>\<close>

definition load :: "u8 list \<Rightarrow> nat \<Rightarrow> u8 result" where
  "load pl i = (if i < length pl then Inr (pl ! i) else Inl Out_Of_Bounds)"

text \<open>The address and the pointer to the identifier of the entry at \<open>offset\<close>, as both receiving
  tasks read them; the identifier is what can be read from that pointer on.\<close>

definition get_member :: "u8 list \<Rightarrow> nat \<Rightarrow> (u32 \<times> u8 list) result" where
  "get_member pl offset =
     bind_r (load pl (1 + offset)) (\<lambda>a.
     bind_r (load pl (2 + offset)) (\<lambda>b.
     bind_r (load pl (3 + offset)) (\<lambda>c.
     bind_r (load pl (4 + offset)) (\<lambda>d.
     let ip = push_bit 24 (ucast a) OR push_bit 16 (ucast b) OR push_bit 8 (ucast c) OR ucast d;
         ip = ntohl ip
     in Inr (ip, drop (5 + offset) pl)))))"

section \<open>The checksum test\<close>

definition crc_is_equal :: "u8 list \<Rightarrow> u16 \<Rightarrow> u32 \<Rightarrow> bool result" where
  "crc_is_equal strToCheck strLength crcToCheck =
     bind_r (crc_32 gentab32 (Some strToCheck) (unat strLength)) (\<lambda>crc. Inr (crc = crcToCheck))"

section \<open>Byte order lemmas\<close>

text \<open>Words are compared bit by bit, with every index a numeral.\<close>

lemma less_8_cases: "n < (8 :: nat) \<Longrightarrow> n \<in> {0, 1, 2, 3, 4, 5, 6, 7}"
  by auto

lemma less_32_cases:
  "n < (32 :: nat) \<Longrightarrow> n \<in> {0, 1, 2, 3, 4, 5, 6, 7, 8, 9, 10, 11, 12, 13, 14, 15,
    16, 17, 18, 19, 20, 21, 22, 23, 24, 25, 26, 27, 28, 29, 30, 31}"
  by (simp add: less_Suc_eq numeral_eq_Suc)

lemma u8_eqI:
  assumes "\<And>n. n \<in> {0, 1, 2, 3, 4, 5, 6, 7} \<Longrightarrow> bit x n = bit (y :: u8) n"
  shows "x = y"
  by (rule bit_word_eqI) (rule assms, rule less_8_cases, simp)

lemma u32_eqI:
  assumes "\<And>n. n \<in> {0, 1, 2, 3, 4, 5, 6, 7, 8, 9, 10, 11, 12, 13, 14, 15,
    16, 17, 18, 19, 20, 21, 22, 23, 24, 25, 26, 27, 28, 29, 30, 31} \<Longrightarrow> bit x n = bit (y :: u32) n"
  shows "x = y"
  by (rule bit_word_eqI) (rule assms, rule less_32_cases, simp)

lemma bits_beyond [simp]:
  "8 \<le> n \<Longrightarrow> \<not> bit (x :: u8) n" "32 \<le> n \<Longrightarrow> \<not> bit (y :: u32) n"
  by (auto dest: bit_imp_le_length)

lemmas word_bits =
  bit_or_iff bit_and_iff bit_push_bit_iff bit_drop_bit_eq bit_ucast_u8 bit_unsigned_iff

lemma htons_htons [simp]: "htons (htons x) = x"
  by (rule bit_word_eqI)
    (auto simp: htons_def word_bits simp del: push_bit_or drop_bit_or dest: bit_imp_le_length)

lemma ntohs_htons [simp]: "ntohs (htons x) = x"
  by (simp add: ntohs_def)

lemma htonl_word32:
  "htonl x = word32 (ucast (drop_bit 24 x)) (ucast (drop_bit 16 x)) (ucast (drop_bit 8 x)) (ucast x)"
  by (rule u32_eqI, elim insertE emptyE; simp add: htonl_def word32_def word_bits)

lemma word32_bytes32 [simp]:
  "word32 (ucast x) (ucast (drop_bit 8 x)) (ucast (drop_bit 16 x)) (ucast (drop_bit 24 x)) = x"
  by (rule u32_eqI, elim insertE emptyE; simp add: word32_def word_bits)

lemma word32_parts [simp]:
  "(ucast (word32 a b c d) :: u8) = a" "(ucast (drop_bit 8 (word32 a b c d)) :: u8) = b"
  "(ucast (drop_bit 16 (word32 a b c d)) :: u8) = c" "(ucast (drop_bit 24 (word32 a b c d)) :: u8) = d"
  by (rule u8_eqI, elim insertE emptyE; simp add: word32_def word_bits del: drop_bit_or)+

lemma byte_selects:
  "(ucast (drop_bit 24 (w AND 0xFF000000)) :: u8) = ucast (drop_bit 24 (w :: u32))"
  "(ucast (drop_bit 16 (w AND 0x00FF0000)) :: u8) = ucast (drop_bit 16 (w :: u32))"
  "(ucast (drop_bit 8 (w AND 0x0000FF00)) :: u8) = ucast (drop_bit 8 (w :: u32))"
  "(ucast (w AND 0x000000FF) :: u8) = ucast (w :: u32)"
  by (rule u8_eqI, elim insertE emptyE; simp add: word_bits del: drop_bit_and)+

lemma htonl_htonl [simp]: "htonl (htonl x) = x"
  by (simp add: htonl_word32 [of "htonl x"]) (simp add: htonl_word32 [of x])

lemma ntohl_htonl [simp]: "ntohl (htonl x) = x"
  by (simp add: ntohl_def)

lemma ip_bytes_eq: "ip_bytes ip = bytes32 ip"
  by (simp add: ip_bytes_def bytes32_def byte_selects) (simp add: htonl_word32)

lemma word16_bytes16 [simp]: "word16 (ucast x) (ucast (drop_bit 8 x)) = x"
  by (rule bit_word_eqI) (auto simp: word16_def word_bits)

lemma ntohl_network:
  "ntohl (push_bit 24 (ucast (a :: u8)) OR push_bit 16 (ucast b) OR push_bit 8 (ucast c) OR ucast d) =
   word32 a b c d"
proof -
  have "push_bit 24 (ucast a) OR push_bit 16 (ucast b) OR push_bit 8 (ucast c) OR ucast d =
      word32 d c b a"
    by (simp add: word32_def ac_simps)
  then show ?thesis
    by (simp add: ntohl_def htonl_word32)
qed

section \<open>The structure in memory\<close>

lemma length_bytes32 [simp]: "length (bytes32 x) = 4"
  by (simp add: bytes32_def)

lemma length_packet_bytes [simp]: "length (packet_bytes p) = 8 + length (payload p)"
  by (simp add: packet_bytes_def bytes16_def bytes32_def)

lemma packet_at_bytes [simp]: "packet_at (packet_bytes p) = p"
  by (simp add: packet_at_def packet_bytes_def bytes16_def bytes32_def)

section \<open>Stores\<close>

lemma store_all_in_range:
  "i + length vs \<le> length pl \<Longrightarrow>
   store_all pl i vs = Inr (take i pl @ vs @ drop (i + length vs) pl)"
proof (induction vs arbitrary: pl i)
  case (Cons v vs)
  then have "store_all pl i (v # vs) = store_all (pl[i := v]) (Suc i) vs"
    by (simp add: store_def)
  also have "\<dots> = Inr (take (Suc i) (pl[i := v]) @ vs @ drop (Suc i + length vs) (pl[i := v]))"
    using Cons by (intro Cons.IH) simp
  finally show ?case
    using Cons.prems by (simp add: take_Suc_conv_app_nth take_update_cancel)
qed simp

lemma store_all_out_of_range:
  "vs \<noteq> [] \<Longrightarrow> length pl < i + length vs \<Longrightarrow> store_all pl i vs = Inl Out_Of_Bounds"
proof (induction vs arbitrary: pl i)
  case (Cons v vs)
  then show ?case
    by (cases "i < length pl"; cases "vs = []") (auto simp: store_def)
qed simp

section \<open>Writing and reading the member list\<close>

text \<open>
  \<open>holds same pl k es\<close>: from byte \<open>k\<close> of the payload on there are the entries \<open>es\<close>, each the four
  bytes of the address and then 16 bytes that are \<open>same\<close> as the identifier.
\<close>

fun holds :: "(u8 list \<Rightarrow> u8 list \<Rightarrow> bool) \<Rightarrow> u8 list \<Rightarrow> nat \<Rightarrow> entry list \<Rightarrow> bool" where
  "holds same pl k [] \<longleftrightarrow> True"
| "holds same pl k (e # es) \<longleftrightarrow>
     k + 20 \<le> length pl \<and> take 4 (drop k pl) = bytes32 (snd e) \<and>
     same (take 16 (drop (4 + k) pl)) (fst e) \<and> holds same pl (k + 20) es"

text \<open>What the loops need of the copy of an identifier: it writes 16 bytes at most, at the
  given place, and what is then there is the identifier up to \<open>same\<close>.\<close>

locale id_writer =
  fixes putid :: "u8 list \<Rightarrow> nat \<Rightarrow> u8 list \<Rightarrow> u8 list result"
    and same :: "u8 list \<Rightarrow> u8 list \<Rightarrow> bool"
  assumes putid_writes: "length mid = 16 \<Longrightarrow> 0 \<in> set mid \<Longrightarrow> k + 16 \<le> length pl \<Longrightarrow>
    \<exists>bs. putid pl k mid = Inr (take k pl @ bs @ drop (k + 16) pl) \<and> length bs = 16 \<and> same bs mid"
begin

lemma put_one:
  assumes "length (fst e) = 16" "0 \<in> set (fst e)" "k + 20 \<le> length pl"
  shows "\<exists>bs. bind_r (store_all pl k (ip_bytes (snd e))) (\<lambda>pl. putid pl (4 + k) (fst e)) =
      Inr (take k pl @ bytes32 (snd e) @ bs @ drop (k + 20) pl) \<and> length bs = 16 \<and> same bs (fst e)"
proof -
  have ip: "store_all pl k (ip_bytes (snd e)) = Inr (take k pl @ bytes32 (snd e) @ drop (k + 4) pl)"
    using assms(3) by (subst store_all_in_range) (simp_all add: ip_bytes_eq)
  show ?thesis
    using putid_writes [OF assms(1,2), of "4 + k" "take k pl @ bytes32 (snd e) @ drop (k + 4) pl"] assms(3)
    by (auto simp: ip add.commute)
qed

lemma put_members_holds:
  assumes "path h p as" "es = map (entry_at h) as"
    "\<forall>e \<in> set es. length (fst e) = 16 \<and> 0 \<in> set (fst e)" "k + 20 * length es \<le> length pl"
  shows "\<exists>pl'. put_members putid h p k (length es) pl = Inr pl' \<and> length pl' = length pl \<and>
    take k pl' = take k pl \<and> holds same pl' k es"
  using assms
proof (induction as arbitrary: p es k pl)
  case (Cons a as)
  from Cons.prems(1) obtain m where m: "h a = Some m" "path h (m_next m) as" "p = a" "a \<noteq> 0"
    by (rule path_Cons_E)
  define es' where "es' = map (entry_at h) as"
  have es: "es = (m_id m, m_ip m) # es'"
    using Cons.prems(2) m(1) by (simp add: es'_def entry_at_def)
  obtain bs where one: "bind_r (store_all pl k (ip_bytes (m_ip m))) (\<lambda>pl. putid pl (4 + k) (m_id m)) =
      Inr (take k pl @ bytes32 (m_ip m) @ bs @ drop (k + 20) pl)" "length bs = 16" "same bs (m_id m)"
    using put_one [of "(m_id m, m_ip m)" k pl] Cons.prems(3,4) es by auto
  let ?pl = "take k pl @ bytes32 (m_ip m) @ bs @ drop (k + 20) pl"
  have len: "length ?pl = length pl" "length (bytes32 (m_ip m)) = 4" "k \<le> length pl"
    using one(2) Cons.prems(4) es by simp_all
  have ids: "\<forall>e \<in> set es'. length (fst e) = 16 \<and> 0 \<in> set (fst e)"
    and room: "k + 20 + 20 * length es' \<le> length ?pl"
    using Cons.prems(3,4) es len(1) by simp_all
  from Cons.IH [OF m(2) es'_def ids room] obtain pl' where
    pl': "put_members putid h (m_next m) (k + 20) (length es') ?pl = Inr pl'"
      "length pl' = length pl" "take (k + 20) pl' = take (k + 20) ?pl" "holds same pl' (k + 20) es'"
    unfolding len(1) by blast
  have prefix: "take (k + 20) ?pl = take k pl @ bytes32 (m_ip m) @ bs"
    using len one(2) by simp
  have "take 20 (drop k pl') = drop k (take (k + 20) pl')"
    by (simp add: drop_take)
  also have "\<dots> = bytes32 (m_ip m) @ bs"
    unfolding pl'(3) prefix using len(3) by simp
  finally have entry: "take 20 (drop k pl') = bytes32 (m_ip m) @ bs" .
  have "take 4 (drop k pl') = take 4 (take 20 (drop k pl'))"
    by simp
  then have region1: "take 4 (drop k pl') = bytes32 (m_ip m)"
    unfolding entry by simp
  have "take 16 (drop (4 + k) pl') = drop 4 (take 20 (drop k pl'))"
    by (simp add: drop_take add.commute)
  then have region2: "take 16 (drop (4 + k) pl') = bs"
    unfolding entry by simp
  have "take k pl' = take k pl"
    using arg_cong [OF pl'(3), of "take k"] len by (simp add: prefix min_def)
  moreover have "put_members putid h p k (length es) pl = Inr pl'"
    using one(1) pl'(1) m es by (auto simp: SIZE_OF_MEMBER_IN_BYTES_def)
  ultimately show ?case
    using pl' region1 region2 one(3) Cons.prems(4) es by auto
qed simp

end

lemma up_to_nul_eq: "0 \<in> set bs \<Longrightarrow> up_to_nul bs = cstr bs @ [0]"
  by (induction bs) (auto simp: cstr_def)

lemma length_cstr: "0 \<in> set bs \<Longrightarrow> length (cstr bs) < length bs"
  by (induction bs) (auto simp: cstr_def)

lemma cstr_nul [simp]: "cstr (cstr bs @ 0 # cs) = cstr bs"
  by (induction bs) (auto simp: cstr_def)

lemma nul_notin_cstr [simp]: "0 \<notin> set (cstr bs)"
  by (auto simp: cstr_def dest: set_takeWhileD)

text \<open>Copying the whole identifier, and copying up to its terminator.\<close>

interpretation whole_id: id_writer put_id "(=)"
proof
  fix mid :: "u8 list" and k and pl :: "u8 list"
  assume "length mid = 16" "k + 16 \<le> length pl"
  then show "\<exists>bs. put_id pl k mid = Inr (take k pl @ bs @ drop (k + 16) pl) \<and>
      length bs = 16 \<and> bs = mid"
    by (intro exI [of _ mid]) (simp add: put_id_def ID_LENGTH_def store_all_in_range)
qed

definition same_string :: "u8 list \<Rightarrow> u8 list \<Rightarrow> bool" where
  "same_string bs mid \<longleftrightarrow> cstr bs = cstr mid \<and> 0 \<in> set bs"

interpretation id_string: id_writer put_id_break same_string
proof
  fix mid :: "u8 list" and k and pl :: "u8 list"
  assume mid: "length mid = 16" "0 \<in> set mid" "k + 16 \<le> length pl"
  let ?s = "cstr mid @ [0]"
  let ?bs = "?s @ take (16 - length ?s) (drop (k + length ?s) pl)"
  have len: "length ?s \<le> 16"
    using length_cstr [OF mid(2)] mid(1) by simp
  have "put_id_break pl k mid = Inr (take k pl @ ?s @ drop (k + length ?s) pl)"
    using mid len by (simp add: put_id_break_def ID_LENGTH_def up_to_nul_eq store_all_in_range)
  also have "drop (k + length ?s) pl =
      take (16 - length ?s) (drop (k + length ?s) pl) @ drop (k + 16) pl"
    using len append_take_drop_id [of "16 - length ?s" "drop (k + length ?s) pl"]
    by (simp add: add.commute)
  finally show "\<exists>bs. put_id_break pl k mid = Inr (take k pl @ bs @ drop (k + 16) pl) \<and>
      length bs = 16 \<and> same_string bs mid"
    using len mid(3) by (intro exI [of _ ?bs]) (simp add: same_string_def)
qed

text \<open>Reading an entry back.\<close>

lemma get_member_holds:
  assumes "holds same pl (1 + k) (e # es)"
  shows "get_member pl k = Inr (snd e, drop (5 + k) pl)"
proof -
  have b: "take 4 (drop (1 + k) pl) = bytes32 (snd e)" and len: "k + 21 \<le> length pl"
    using assms by simp_all
  have nth: "pl ! j = bytes32 (snd e) ! i" if "j = 1 + k + i" "i < 4" for i j
    using that len unfolding b [symmetric] by simp
  have bytes: "pl ! (1 + k) = ucast (snd e)" "pl ! (2 + k) = ucast (drop_bit 8 (snd e))"
    "pl ! (3 + k) = ucast (drop_bit 16 (snd e))" "pl ! (4 + k) = ucast (drop_bit 24 (snd e))"
    using nth [of "1 + k" 0] nth [of "2 + k" 1] nth [of "3 + k" 2] nth [of "4 + k" 3]
    by (simp_all add: bytes32_def)
  then show ?thesis
    using len unfolding get_member_def load_def
    by (simp only: if_True bind_r_Inr Let_def bytes ntohl_network word32_bytes32) simp
qed

section \<open>Bounds\<close>

text \<open>The payload has room for 19 members: with 20 the last byte does not fit, with more the
  address does not.\<close>

lemma put_members_length:
  assumes "\<And>pl k mid. putid pl k mid = Inl Out_Of_Bounds \<or>
      (\<exists>pl'. putid pl k mid = Inr pl' \<and> length pl' = length pl)"
    and "path h p as" "n \<le> length as"
  shows "put_members putid h p k n pl = Inl Out_Of_Bounds \<or>
    (k + 20 * n \<le> length pl + 16 \<or> n = 0) \<and>
    (\<exists>pl'. put_members putid h p k n pl = Inr pl' \<and> length pl' = length pl)"
  using assms(2,3)
proof (induction as arbitrary: p n k pl)
  case (Cons a as)
  from Cons.prems(1) obtain m where m: "h a = Some m" "path h (m_next m) as" "p = a" "a \<noteq> 0"
    by (rule path_Cons_E)
  show ?case
  proof (cases n)
    case (Suc n')
    show ?thesis
    proof (cases "k + 4 \<le> length pl")
      case False
      then have "store_all pl k (ip_bytes (m_ip m)) = Inl Out_Of_Bounds"
        by (intro store_all_out_of_range) (simp_all add: ip_bytes_eq bytes32_def)
      then show ?thesis
        using m Suc by simp
    next
      case True
      then obtain pl1 where pl1: "store_all pl k (ip_bytes (m_ip m)) = Inr pl1" "length pl1 = length pl"
        by (simp add: store_all_in_range ip_bytes_eq)
      consider "putid pl1 (4 + k) (m_id m) = Inl Out_Of_Bounds"
        | pl2 where "putid pl1 (4 + k) (m_id m) = Inr pl2" "length pl2 = length pl"
        using assms(1) [of pl1 "4 + k" "m_id m"] pl1(2) by auto
      then show ?thesis
      proof cases
        case 2
        then show ?thesis
          using Cons.IH [OF m(2), of n' "k + 20" pl2] Cons.prems(2) m pl1(1) Suc True
          by (auto simp: SIZE_OF_MEMBER_IN_BYTES_def)
      qed (use m pl1 Suc in simp)
    qed
  qed simp
qed simp

lemma store_all_length:
  "store_all pl k vs = Inl Out_Of_Bounds \<or> (\<exists>pl'. store_all pl k vs = Inr pl' \<and> length pl' = length pl)"
  by (cases "k + length vs \<le> length pl"; cases "vs = []")
    (simp_all add: store_all_in_range store_all_out_of_range)

lemma put_members_snoc:
  assumes "path h p (as @ [z])" "h z = Some m"
  shows "put_members putid h p k (Suc (length as)) pl =
    bind_r (put_members putid h p k (length as) pl) (\<lambda>pl.
    bind_r (store_all pl (k + 20 * length as) (ip_bytes (m_ip m))) (\<lambda>pl.
    putid pl (4 + (k + 20 * length as)) (m_id m)))"
  using assms(1)
proof (induction as arbitrary: p k pl)
  case Nil
  then have "p = z" "z \<noteq> 0"
    using assms(2) by (auto split: option.splits)
  then show ?case
    using assms(2) by (simp add: bind_r_def split: sum.split)
next
  case (Cons a as)
  obtain n where n: "h a = Some n" "path h (m_next n) (as @ [z])" "p = a" "a \<noteq> 0"
    using Cons.prems unfolding append_Cons by (rule path_Cons_E)
  have "k + SIZE_OF_MEMBER_IN_BYTES + 20 * length as = k + 20 * length (a # as)"
    by (simp add: SIZE_OF_MEMBER_IN_BYTES_def)
  then have "put_members putid h (m_next n) (k + SIZE_OF_MEMBER_IN_BYTES) (Suc (length as)) pl' =
      bind_r (put_members putid h (m_next n) (k + SIZE_OF_MEMBER_IN_BYTES) (length as) pl') (\<lambda>pl.
      bind_r (store_all pl (k + 20 * length (a # as)) (ip_bytes (m_ip m))) (\<lambda>pl.
      putid pl (4 + (k + 20 * length (a # as))) (m_id m)))" for pl'
    using Cons.IH [OF n(2), of "k + SIZE_OF_MEMBER_IN_BYTES" pl'] by (simp only:)
  then show ?case
    using n by (simp add: bind_r_def split: sum.split del: put_members.simps(2))
      (simp add: bind_r_def split: sum.split)
qed

lemma put_members_room:
  assumes "path h p (as @ bs)" "k + 20 * length as \<le> length pl" "\<forall>a \<in> set as. length (fst (entry_at h a)) = 16"
    "\<And>pl k mid. length mid = 16 \<Longrightarrow> k + 16 \<le> length pl \<Longrightarrow> \<exists>pl'. putid pl k mid = Inr pl' \<and> length pl' = length pl"
  shows "\<exists>pl'. put_members putid h p k (length as) pl = Inr pl' \<and> length pl' = length pl"
  using assms(1-3)
proof (induction as arbitrary: p k pl)
  case (Cons a as)
  obtain m where m: "h a = Some m" "path h (m_next m) (as @ bs)" "p = a" "a \<noteq> 0"
    using Cons.prems(1) unfolding append_Cons by (rule path_Cons_E)
  obtain pl1 where pl1: "store_all pl k (ip_bytes (m_ip m)) = Inr pl1" "length pl1 = length pl"
    using Cons.prems(2) by (simp add: store_all_in_range ip_bytes_eq)
  obtain pl2 where pl2: "putid pl1 (4 + k) (m_id m) = Inr pl2" "length pl2 = length pl1"
    using assms(4) [of "m_id m" "4 + k" pl1] Cons.prems(2,3) pl1(2) m(1) by (auto simp: entry_at_def)
  then show ?case
    using Cons.IH [OF m(2), of "k + 20" pl2] Cons.prems(2,3) m pl1 by (simp add: SIZE_OF_MEMBER_IN_BYTES_def)
qed simp

text \<open>How many bytes of an identifier the two copies write.\<close>

lemma up_to_nul_length:
  "length (up_to_nul bs) \<le> length bs"
  "length (up_to_nul (bs @ [c])) \<le> length bs \<longleftrightarrow> 0 \<in> set bs"
  by (induction bs) auto

lemma put_id_fits:
  assumes "length mid = 16"
  shows "k + 16 \<le> length pl \<Longrightarrow> \<exists>pl'. put_id pl k mid = Inr pl' \<and> length pl' = length pl"
    "k + 16 \<le> length pl \<Longrightarrow> \<exists>pl'. put_id_break pl k mid = Inr pl' \<and> length pl' = length pl"
    "length pl < k + 16 \<Longrightarrow> put_id pl k mid = Inl Out_Of_Bounds"
    "length pl = k + 15 \<Longrightarrow> put_id_break pl k mid = Inl Out_Of_Bounds \<longleftrightarrow> 0 \<notin> set (take 15 mid)"
proof -
  have all: "take ID_LENGTH mid = mid"
    using assms by (simp add: ID_LENGTH_def)
  have "mid = take 15 mid @ [mid ! 15]"
    using id_take_nth_drop [of 15 mid] assms by simp
  then have short: "length (up_to_nul mid) \<le> 15 \<longleftrightarrow> 0 \<in> set (take 15 mid)"
    using up_to_nul_length(2) [of "take 15 mid" "mid ! 15"] assms by (simp add: min_def)
  have ne: "up_to_nul mid \<noteq> []"
    using assms by (cases mid) auto
  show "k + 16 \<le> length pl \<Longrightarrow> \<exists>pl'. put_id pl k mid = Inr pl' \<and> length pl' = length pl"
    "k + 16 \<le> length pl \<Longrightarrow> \<exists>pl'. put_id_break pl k mid = Inr pl' \<and> length pl' = length pl"
    using up_to_nul_length(1) [of mid] assms by (simp_all add: put_id_def put_id_break_def all store_all_in_range)
  show "length pl < k + 16 \<Longrightarrow> put_id pl k mid = Inl Out_Of_Bounds"
    using assms by (auto simp: put_id_def all intro: store_all_out_of_range)
  show "put_id_break pl k mid = Inl Out_Of_Bounds \<longleftrightarrow> 0 \<notin> set (take 15 mid)" if "length pl = k + 15"
  proof (cases "length (up_to_nul mid) \<le> 15")
    case True
    then show ?thesis
      using short that by (simp add: put_id_break_def all store_all_in_range)
  next
    case False
    then show ?thesis
      using short that ne by (simp add: put_id_break_def all store_all_out_of_range)
  qed
qed

text \<open>Twenty members: all but the last byte of the last identifier fits.\<close>

lemma twenty_put:
  assumes "path h p as" "length as = 20" "\<forall>a \<in> set as. length (fst (entry_at h a)) = 16" "length pl = 400"
    "\<And>pl k mid. length mid = 16 \<Longrightarrow> k + 16 \<le> length pl \<Longrightarrow> \<exists>pl'. putid pl k mid = Inr pl' \<and> length pl' = length pl"
  shows "\<exists>pl'. put_members putid h p 1 20 pl = putid pl' 385 (fst (entry_at h (last as))) \<and> length pl' = 400"
proof -
  obtain bs z where as: "as = bs @ [z]" "length bs = 19"
    using assms(2) by (cases as rule: rev_cases) auto
  then have path: "path h p (bs @ [z])"
    using assms(1) by blast
  then obtain m where m: "h z = Some m"
    using path_nonnull [OF path, of z] by auto
  obtain pl1 where pl1: "put_members putid h p 1 (length bs) pl = Inr pl1" "length pl1 = 400"
    using put_members_room [OF path, of 1 pl putid] assms(3-5) as by auto
  obtain pl2 where "store_all pl1 381 (ip_bytes (m_ip m)) = Inr pl2" "length pl2 = 400"
    using pl1(2) by (simp add: store_all_in_range ip_bytes_eq)
  then show ?thesis
    using put_members_snoc [OF path m, of putid 1 pl] pl1(1) as m
    by (intro exI [of _ pl2]) (simp add: entry_at_def)
qed

lemma crc_is_equal_self:
  "unat n \<le> length pl \<Longrightarrow> crc_32 gentab32 (Some pl) (unat n) = Inr c \<Longrightarrow>
   crc_is_equal pl n c' = Inr (c' = c)"
  by (auto simp: crc_is_equal_def)

text \<open>
  C18: The checksum test of a packet accepts the checksum \<open>crc_32\<close> gives for the payload, and rejects it for every
  payload that differs in a burst of up to 32 bits, that is, in some bits that all lie among 32 consecutive ones, which need
  not begin with a byte (bits are counted from the least significant one of each byte on).  It reads past the payload
  when the length field says more than its size.
\<close>

theorem crc_is_equal_detects:
  assumes "unat len \<le> length pl" "length pl' = length pl" "burst 32 i (take (unat len) pl) (take (unat len) pl')"
    "crc_32 gentab32 (Some pl) (unat len) = Inr crc"
  shows "crc_is_equal pl len crc = Inr True \<and> crc_is_equal pl' len crc = Inr False \<and>
    (length pl < unat len' \<longrightarrow> crc_is_equal pl len' crc = Inl Out_Of_Bounds)"
proof -
  have "foldl (crc_rbyte CRC_POLY_32) CRC_START_32 (take (unat len) pl) \<noteq>
      foldl (crc_rbyte CRC_POLY_32) CRC_START_32 (take (unat len) pl')"
    by (rule crc_burst_detected [where m = 4 and i = i]) (use assms(3) in \<open>simp_all add: CRC_POLY_32_def\<close>)
  then show ?thesis
    using assms(1,2,4)
    by (auto simp: crc_is_equal_def crc_32_value crc_32_out_of_range simp del: foldl_append)
qed

text \<open>A burst of 32 bits in five bytes: the last bit of the second byte and the last but one of the sixth.\<close>

lemma crc_is_equal_detects_witness:
  "\<exists>crc. crc_is_equal [1, 2, 3, 4, 5, 6] 6 crc = Inr True \<and>
    crc_is_equal [1, 0x82, 3, 4, 5, 0x46] 6 crc = Inr False"
proof -
  let ?us = "[1, 2, 3, 4, 5, 6 :: u8]" and ?vs = "[1, 0x82, 3, 4, 5, 0x46 :: u8]"
  obtain crc where "crc_32 gentab32 (Some ?us) 6 = Inr crc"
    by (simp add: crc_32_value)
  moreover have "\<forall>j \<in> set [0..<48]. bit_at ?us j \<noteq> bit_at ?vs j \<longrightarrow> 15 \<le> j \<and> j < 47"
    by (simp add: bit_at_def upt_rec)
  then have "burst 32 15 ?us ?vs"
    by (simp add: burst_def)
  ultimately show ?thesis
    using crc_is_equal_detects [of 6 ?us ?vs 15 crc] by auto
qed

end
