(* ===== verification/Tasks.thy ===== *)
theory Tasks
  imports Packet
begin

unbundle bit_operations_syntax

text \<open>
  \<^verbatim>\<open>Chat/src/task.c\<close>: the tasks the thread pools run.  A task is a function of the shared
  state (the member list, the flag \<open>sign\<close>, the mutex) and of the environment, and leaves a
  trace of what it did on the network and what it told the user.  Tasks are taken one at a
  time here: a lock of a mutex that an earlier task left locked never returns, which is
  \<open>None\<close>.  Diagnostics on the terminal are not kept, but the strings they read are
  checked to end within their buffers.
\<close>

section \<open>State and environment\<close>

datatype event =
    Connected "u8 list" int
  | Sent int "u8 list"
  | Closed int
  | Said "u8 list"

record chat_state =
  roster :: list_state
  sign :: bool
  locked :: bool
  trace :: "event list"

text \<open>
  What the tasks do not decide: the descriptor \<open>Client_connect\<close> returns for an address, the
  results of the successive \<open>send\<close> calls on a descriptor, both after a history of events, the
  address \<open>malloc\<close> returns, and what a \<open>struct packet\<close> on the stack holds before it is written.
\<close>

record world =
  connect_to :: "event list \<Rightarrow> u8 list \<Rightarrow> int"
  send_results :: "event list \<Rightarrow> int \<Rightarrow> int list"
  mallocs :: "member_heap \<Rightarrow> nat"
  stack_packet :: packet

definition logged :: "event \<Rightarrow> chat_state \<Rightarrow> chat_state" where
  "logged e st = st\<lparr>trace := trace st @ [e]\<rparr>"

definition mutex_lock :: "chat_state \<Rightarrow> chat_state result option" where
  "mutex_lock st = (if locked st then None else Some (Inr (st\<lparr>locked := True\<rparr>)))"

definition mutex_unlock :: "chat_state \<Rightarrow> chat_state" where
  "mutex_unlock st = st\<lparr>locked := False\<rparr>"

definition set_errno :: "int \<Rightarrow> chat_state \<Rightarrow> chat_state" where
  "set_errno e st = st\<lparr>roster := (roster st)\<lparr>errno := e\<rparr>\<rparr>"

text \<open>A call of the member list on the shared state.\<close>

definition on_roster ::
  "(list_state \<Rightarrow> ('a \<times> list_state) result option) \<Rightarrow> chat_state \<Rightarrow> ('a \<times> chat_state) result option" where
  "on_roster f st = bind_c (f (roster st)) (\<lambda>(r, l). Some (Inr (r, st\<lparr>roster := l\<rparr>)))"

definition new_member_task :: "world \<Rightarrow> u8 list \<Rightarrow> u32 \<Rightarrow> chat_state \<Rightarrow> (int \<times> chat_state) result option" where
  "new_member_task w mid ip st =
     on_roster (List_new_member mid ip (mallocs w (heap (roster st)))) st"

section \<open>Start and end\<close>

definition Tasks_start :: "bool \<Rightarrow> chat_state \<Rightarrow> int \<times> chat_state" where
  "Tasks_start mutex_init_ok st =
     (if \<not> mutex_init_ok then (-1, st) else (0, st\<lparr>sign := False, locked := False\<rparr>))"

definition Tasks_clean :: "bool \<Rightarrow> chat_state \<Rightarrow> (int \<times> chat_state) result option" where
  "Tasks_clean mutex_destroy_ok st =
     bind_c (on_roster List_delete st) (\<lambda>(r, st).
     if r \<noteq> 0 then Some (Inr (-1, st))
     else if \<not> mutex_destroy_ok then Some (Inr (-1, st))
     else Some (Inr (0, st)))"

section \<open>Sending\<close>

text \<open>
  The loop of \<open>send_all_data\<close>, with the bytes of the packet, the results \<open>send\<close> will give, the
  bytes sent so far and the last result \<open>n\<close>.  \<open>packet+total\<close> counts in packets, so the address is
  \<open>total * sizeof(struct packet)\<close> bytes behind the first.  No result left means that
  \<open>send\<close> blocks for ever.
\<close>

fun send_loop ::
  "u8 list \<Rightarrow> int \<Rightarrow> int \<Rightarrow> int \<Rightarrow> int option \<Rightarrow> u8 list \<Rightarrow> int list \<Rightarrow>
   (int option \<times> int \<times> u8 list) result option" where
  "send_loop mem len tot bytes_left n sent results =
     (if \<not> tot < len then Some (Inr (n, tot, sent))
      else case results of
        [] \<Rightarrow> None
      | r # results \<Rightarrow>
          if int (length mem) < tot * int sizeof_packet + bytes_left then Some (Inl Out_Of_Bounds)
          else if r = -1 then Some (Inr (Some (-1), tot, sent))
          else send_loop mem len (tot + r) (bytes_left - r) (Some r)
            (sent @ take (nat r) (drop (nat tot * sizeof_packet) mem)) results)"

declare send_loop.simps [simp del]

text \<open>The result, the new \<open>*length\<close> and the bytes sent.\<close>

definition send_all_data ::
  "u8 list \<Rightarrow> int \<Rightarrow> int list \<Rightarrow> (int \<times> int \<times> u8 list) result option" where
  "send_all_data mem len results =
     bind_c (send_loop mem len 0 len None [] results) (\<lambda>(n, tot, sent).
     case n of
       None \<Rightarrow> Some (Inl Uninitialised_Read)
     | Some n \<Rightarrow> Some (Inr (if n = -1 then -1 else 0, tot, sent)))"

definition send_to_server ::
  "world \<Rightarrow> packet \<Rightarrow> int \<Rightarrow> chat_state \<Rightarrow> (int \<times> chat_state) result option" where
  "send_to_server w packet sockfd st =
     bind_c (send_all_data (packet_bytes packet) (int sizeof_packet)
       (send_results w (trace st) sockfd)) (\<lambda>(r, len, sent).
     let st = logged (Sent sockfd sent) st in
     if r = -1 then Some (Inr (-1, set_errno EPERM st)) else Some (Inr (0, st)))"

text \<open>\<open>Client_connect\<close>, and the close of the descriptor.\<close>

definition client_connect :: "world \<Rightarrow> u8 list \<Rightarrow> chat_state \<Rightarrow> int \<times> chat_state" where
  "client_connect w ip st =
     (let fd = connect_to w (trace st) ip in (fd, logged (Connected ip fd) st))"

definition size16 :: "int \<Rightarrow> u16" where
  "size16 members = of_int (members * int SIZE_OF_MEMBER_IN_BYTES + 1)"

text \<open>The packet both senders of the member list build.\<close>

definition roster_packet ::
  "(u8 list \<Rightarrow> nat \<Rightarrow> u8 list \<Rightarrow> u8 list result) \<Rightarrow> u8 \<Rightarrow> packet \<Rightarrow> list_state \<Rightarrow> packet result" where
  "roster_packet putid ty stack l =
     (let bufsize = size16 (List_no_of_members l);
          p = stack\<lparr>version := VERSION, ptyp := ty, plength := htons bufsize\<rparr>
      in bind_r (store (payload p) 0 (of_int (List_no_of_members l))) (\<lambda>pl.
         bind_r (put_members putid (heap l) (List_get_list l) 1 (nat (List_no_of_members l)) pl) (\<lambda>pl.
         bind_r (crc_32 gentab32 (Some pl) (unat bufsize)) (\<lambda>crc.
         Inr (p\<lparr>payload := pl, pcrc := htonl crc\<rparr>)))))"

text \<open>\<open>arg\<close> of \<open>send_sign_in\<close> is the string the user typed.\<close>

definition send_sign_in :: "world \<Rightarrow> u8 list \<Rightarrow> chat_state \<Rightarrow> chat_state result option" where
  "send_sign_in w ip st =
     bind_c (mutex_lock st) (\<lambda>st.
     let (sock_fd, st) = client_connect w ip st in
     if sock_fd = -1 then Some (Inr (mutex_unlock st))
     else
       bind_c (Some (roster_packet put_id_break SIGN_IN (stack_packet w) (roster st))) (\<lambda>packet.
       bind_c (send_to_server w packet sock_fd st) (\<lambda>(_, st).
       Some (Inr (mutex_unlock (logged (Closed sock_fd) (st\<lparr>sign := True\<rparr>)))))))"

text \<open>\<open>send_member_list\<close> also prints each identifier it copies.\<close>

definition put_id_print :: "u8 list \<Rightarrow> nat \<Rightarrow> u8 list \<Rightarrow> u8 list result" where
  "put_id_print pl id_offset mid =
     bind_r (put_id pl id_offset mid) (\<lambda>pl. bind_r (print_str mid) (\<lambda>_. Inr pl))"

definition send_member_list :: "world \<Rightarrow> u32 \<Rightarrow> chat_state \<Rightarrow> chat_state result option" where
  "send_member_list w ip st =
     bind_c (mutex_lock st) (\<lambda>st.
     let (sock_fd, st) = client_connect w (inet_ntoa ip) st in
     if sock_fd = -1 then Some (Inr (mutex_unlock st))
     else
       bind_c (Some (roster_packet put_id_print MEMBER_LIST (stack_packet w) (roster st))) (\<lambda>packet.
       bind_c (send_to_server w packet sock_fd st) (\<lambda>(_, st).
       Some (Inr (mutex_unlock (logged (Closed sock_fd) st))))))"

text \<open>The loop of \<open>send_quit\<close> and \<open>send_update\<close>: the packet goes to every member behind the
  head; a member that cannot be reached is skipped.\<close>

partial_function (option) broadcast_loop ::
  "world \<Rightarrow> packet \<Rightarrow> nat \<Rightarrow> chat_state \<Rightarrow> chat_state result option" where
  "broadcast_loop w packet p st =
     (if p = 0 then Some (Inr st)
      else case heap (roster st) p of
        None \<Rightarrow> Some (Inl Use_After_Free)
      | Some m \<Rightarrow>
          (case client_connect w (inet_ntoa (m_ip m)) st of
             (sock_fd, st) \<Rightarrow>
               if sock_fd = -1 then broadcast_loop w packet (m_next m) st
               else
                 (case send_to_server w packet sock_fd st of
                    None \<Rightarrow> None
                  | Some (Inl e) \<Rightarrow> Some (Inl e)
                  | Some (Inr (_, st)) \<Rightarrow>
                      broadcast_loop w packet (m_next m) (logged (Closed sock_fd) st))))"

text \<open>\<open>for (p = List_get_list()->next; ...)\<close> under the mutex.\<close>

definition broadcast :: "world \<Rightarrow> packet \<Rightarrow> chat_state \<Rightarrow> chat_state result option" where
  "broadcast w packet st =
     bind_c (mutex_lock st) (\<lambda>st.
     let head = List_get_list (roster st) in
     if head = 0 then Some (Inl Null_Dereference)
     else case heap (roster st) head of
       None \<Rightarrow> Some (Inl Use_After_Free)
     | Some m \<Rightarrow>
         bind_c (broadcast_loop w packet (m_next m) st) (\<lambda>st. Some (Inr (mutex_unlock st))))"

text \<open>\<open>memcpy(packet.payload, src, n)\<close>\<close>

definition copy_payload :: "u8 list \<Rightarrow> u8 list \<Rightarrow> nat \<Rightarrow> u8 list result" where
  "copy_payload pl src n = bind_r (memcpy_bytes src n) (\<lambda>bs. store_all pl 0 bs)"

definition send_quit :: "world \<Rightarrow> chat_state \<Rightarrow> chat_state result option" where
  "send_quit w st =
     (let me = List_get_list (roster st) in
      if me = 0 then Some (Inl Null_Dereference)
      else case heap (roster st) me of
        None \<Rightarrow> Some (Inl Use_After_Free)
      | Some m \<Rightarrow>
          bind_c (Some (print_str (m_id m))) (\<lambda>s.
          let size = of_nat (length s + 1) :: u16;
              p = (stack_packet w)\<lparr>version := VERSION, ptyp := SIGN_OUT, plength := htons size\<rparr>
          in
          bind_c (Some (crc_32 gentab32 (Some (m_id m)) (unat size))) (\<lambda>crc.
          bind_c (Some (copy_payload (payload p) (m_id m) (unat size))) (\<lambda>pl.
          broadcast w (p\<lparr>pcrc := htonl crc, payload := pl\<rparr>) st))))"

text \<open>\<open>strtok\<close> on the bytes of a buffer from a position on: the position of the token or
  \<open>NULL\<close>, the buffer with the token's end overwritten, and the saved position.\<close>

definition strtok :: "u8 list \<Rightarrow> u8 list \<Rightarrow> nat \<Rightarrow> (nat option \<times> u8 list \<times> nat) result" where
  "strtok mem delims pos =
     (let start = pos + length (takeWhile (\<lambda>c. c \<in> set delims) (drop pos mem)) in
      if length mem \<le> start then Inl Out_Of_Bounds
      else if mem ! start = 0 then Inr (None, mem, start)
      else
        let stop = start + length (takeWhile (\<lambda>c. c \<noteq> 0 \<and> c \<notin> set delims) (drop start mem)) in
        if length mem \<le> stop then Inl Out_Of_Bounds
        else if mem ! stop = 0 then Inr (Some start, mem, stop)
        else Inr (Some start, mem[stop := 0], Suc stop))"

definition send_msg :: "world \<Rightarrow> u8 list \<Rightarrow> chat_state \<Rightarrow> chat_state result option" where
  "send_msg w buffer st =
     bind_c (Some (strtok buffer [0x20, 0x0A] 0)) (\<lambda>(id_pos, mem, save).
     bind_c (Some (strtok mem [0x0A] save)) (\<lambda>(msg_pos, mem, _).
     case (id_pos, msg_pos) of
       (Some i, Some m) \<Rightarrow>
         let mid = drop (Suc i) mem; msg = drop m mem in
         bind_c (Some (print_str msg)) (\<lambda>s.
         let bufsize = of_nat (length s + 1) :: u16 in
         bind_c (mutex_lock st) (\<lambda>st.
         bind_c (on_roster (List_search_member_id mid) st) (\<lambda>(messeger, st).
         if m_ip messeger = 0 then Some (Inr (mutex_unlock st))
         else
           let (sock_fd, st) = client_connect w (inet_ntoa (m_ip messeger)) st in
           if sock_fd = -1 then Some (Inr (mutex_unlock st))
           else
             let p = (stack_packet w)\<lparr>version := VERSION, ptyp := MESSAGE, plength := htons bufsize\<rparr> in
             bind_c (Some (crc_32 gentab32 (Some msg) (unat bufsize))) (\<lambda>crc.
             bind_c (Some (store_all (payload p) 0 (s @ [0]))) (\<lambda>pl.
             bind_c (send_to_server w (p\<lparr>pcrc := htonl crc, payload := pl\<rparr>) sock_fd st) (\<lambda>(_, st).
             Some (Inr (mutex_unlock (logged (Closed sock_fd) st)))))))))
     | _ \<Rightarrow> Some (Inl Null_Dereference)))"

text \<open>\<open>struct error_args\<close> holds four characters of the address and the code; as a string the
  code runs on behind the structure unless it is zero.\<close>

definition send_error :: "world \<Rightarrow> u8 list \<Rightarrow> u8 \<Rightarrow> chat_state \<Rightarrow> chat_state result option" where
  "send_error w ip error_code st =
     (let string_length = htons 1;
          p = (stack_packet w)\<lparr>version := VERSION, ptyp := ERROR_TYPE, plength := htons string_length\<rparr>
      in
      bind_c (Some (crc_32 gentab32 (Some [error_code]) 1)) (\<lambda>crc.
      bind_c (Some (print_str [error_code])) (\<lambda>s.
      bind_c (Some (store_all (payload p) 0 (s @ [0]))) (\<lambda>pl.
      bind_c (Some (print_str ip)) (\<lambda>host.
      let (sock_fd, st) = client_connect w host st in
      if sock_fd = -1 then Some (Inr st)
      else
        bind_c (send_to_server w (p\<lparr>pcrc := ucast (htons (ucast crc)), payload := pl\<rparr>) sock_fd st)
          (\<lambda>(_, st). Some (Inr (logged (Closed sock_fd) st))))))))"

definition send_update :: "world \<Rightarrow> u8 list \<Rightarrow> chat_state \<Rightarrow> chat_state result option" where
  "send_update w pl st =
     bind_c (Some (load pl 0)) (\<lambda>n.
     let size = of_nat (unat n * SIZE_OF_MEMBER_IN_BYTES + 1) :: u16;
         p = (stack_packet w)\<lparr>version := VERSION, ptyp := MEMBER_LIST\<rparr>
     in
     bind_c (Some (copy_payload (payload p) pl (unat size))) (\<lambda>pl'.
     bind_c (Some (crc_32 gentab32 (Some pl') (unat size))) (\<lambda>crc.
     broadcast w (p\<lparr>payload := pl', pcrc := htonl crc, plength := htons size\<rparr>) st)))"

section \<open>Receiving\<close>

definition YEL :: "u8 list" where "YEL = 0x1B # bytes_of ''[33m''"

text \<open>The rounds of \<open>recv_sign_in\<close>, \<open>n\<close> of them left; the first one answers the sender.\<close>

fun sign_in_loop ::
  "world \<Rightarrow> u8 list \<Rightarrow> nat \<Rightarrow> nat \<Rightarrow> nat \<Rightarrow> chat_state \<Rightarrow> chat_state result option" where
  "sign_in_loop w pl i offset 0 st = Some (Inr st)"
| "sign_in_loop w pl i offset (Suc n) st =
     bind_c (Some (get_member pl offset)) (\<lambda>(ip, mid).
     bind_c (if i = 0
             then bind_c (Some (print_str mid)) (\<lambda>_. send_member_list w ip st)
             else Some (Inr st)) (\<lambda>st.
     bind_c (mutex_lock st) (\<lambda>st.
     bind_c (new_member_task w mid ip st) (\<lambda>(r, st).
     bind_c (if r \<noteq> 0 then Some (print_str mid) else Some (Inr [])) (\<lambda>_.
     let st = mutex_unlock st in
     bind_c (Some (print_str mid)) (\<lambda>_.
     sign_in_loop w pl (Suc i) (offset + SIZE_OF_MEMBER_IN_BYTES) n st))))))"

definition recv_sign_in :: "world \<Rightarrow> u8 list \<Rightarrow> chat_state \<Rightarrow> (int \<times> chat_state) result option" where
  "recv_sign_in w pl st =
     bind_c (Some (load pl 0)) (\<lambda>no_member.
     bind_c (if List_no_of_members (roster st) > 1 then send_update w pl st else Some (Inr st)) (\<lambda>st.
     bind_c (sign_in_loop w pl 0 0 (unat no_member) st) (\<lambda>st.
     Some (Inr (0, st)))))"

text \<open>
  \<open>strncpy(id, id_f, lenght)\<close> writes through the pointer \<open>id\<close>, which was never given a value.  The
  argument \<open>wild\<close> is the writable memory the pointer happens to reach, if any.
\<close>

definition strncpy_bytes :: "u8 list \<Rightarrow> u8 list \<Rightarrow> nat \<Rightarrow> u8 list result" where
  "strncpy_bytes dst src n =
     (let s = take n (cstr src) in
      if length s < n \<and> 0 \<notin> set src \<or> length dst < n then Inl Out_Of_Bounds
      else Inr (s @ replicate (n - length s) 0 @ drop n dst))"

definition recv_quit ::
  "u8 list option \<Rightarrow> u8 list \<Rightarrow> u16 \<Rightarrow> chat_state \<Rightarrow> (int \<times> chat_state) result option" where
  "recv_quit wild id_f lenght st =
     (case wild of
        None \<Rightarrow> Some (Inl Uninitialised_Read)
      | Some dst \<Rightarrow>
          bind_c (Some (strncpy_bytes dst id_f (unat lenght))) (\<lambda>mid.
          bind_c (Some (print_str mid)) (\<lambda>s.
          let st = logged (Said (0x40 # s @ bytes_of '': quit'' @ [0x0A])) st in
          bind_c (mutex_lock st) (\<lambda>st.
          bind_c (on_roster (List_delete_member mid) st) (\<lambda>(r, st).
          if r \<noteq> 0 then Some (Inr (-1, st))
          else Some (Inr (0, mutex_unlock st)))))))"

text \<open>The line both \<open>recv_msg\<close> and \<open>recv_error\<close> print, with the identifier of the sender.\<close>

definition say_from :: "u8 list \<Rightarrow> u32 \<Rightarrow> chat_state \<Rightarrow> (int \<times> chat_state) result option" where
  "say_from msg ip st =
     bind_c (mutex_lock st) (\<lambda>st.
     bind_c (on_roster (List_search_member_ip ip) st) (\<lambda>(messeger, st).
     let st = mutex_unlock st in
     bind_c (Some (print_str (m_id messeger))) (\<lambda>name.
     bind_c (Some (print_str msg)) (\<lambda>s.
     Some (Inr (0, logged (Said (YEL @ 0x23 # name @ bytes_of '': '' @ s @ 0x0A # RESET)) st))))))"

definition recv_msg :: "u8 list \<Rightarrow> u32 \<Rightarrow> chat_state \<Rightarrow> (int \<times> chat_state) result option" where
  "recv_msg msg ip st = say_from msg ip st"

definition recv_error :: "u8 list \<Rightarrow> u32 \<Rightarrow> chat_state \<Rightarrow> (int \<times> chat_state) result option" where
  "recv_error error ip st = say_from error ip st"

fun member_list_loop ::
  "world \<Rightarrow> u8 list \<Rightarrow> nat \<Rightarrow> nat \<Rightarrow> chat_state \<Rightarrow> chat_state result option" where
  "member_list_loop w pl offset 0 st = Some (Inr st)"
| "member_list_loop w pl offset (Suc n) st =
     bind_c (Some (get_member pl offset)) (\<lambda>(ip, mid).
     bind_c (new_member_task w mid ip st) (\<lambda>(r, st).
     bind_c (if r \<noteq> 0 then Some (print_str mid) else Some (Inr [])) (\<lambda>_.
     bind_c (Some (print_str mid)) (\<lambda>_.
     member_list_loop w pl (offset + SIZE_OF_MEMBER_IN_BYTES) n st))))"

definition recv_member_list :: "world \<Rightarrow> u8 list \<Rightarrow> chat_state \<Rightarrow> (int \<times> chat_state) result option" where
  "recv_member_list w pl st =
     bind_c (Some (load pl 0)) (\<lambda>no_member.
     bind_c (if List_no_of_members (roster st) > 1 \<and> sign st then send_update w pl st
             else Some (Inr st)) (\<lambda>st.
     bind_c (mutex_lock st) (\<lambda>st.
     bind_c (member_list_loop w pl 0 (unat no_member) st) (\<lambda>st.
     Some (Inr (0, (mutex_unlock st)\<lparr>sign := False\<rparr>))))))"

text \<open>
  \<open>recv_from_client\<close>: \<open>received\<close> is what \<open>recv\<close> stored, \<open>None\<close> for its error result; the
  rest of the structure keeps what the stack held.  \<open>wild\<close> is for \<open>recv_quit\<close>.
\<close>

definition close_fd :: "int \<Rightarrow> chat_state \<Rightarrow> chat_state result option" where
  "close_fd fd st = Some (Inr (logged (Closed fd) st))"

definition dispatch ::
  "world \<Rightarrow> u8 list option \<Rightarrow> packet \<Rightarrow> u32 \<Rightarrow> int \<Rightarrow> chat_state \<Rightarrow> chat_state result option" where
  "dispatch w wild pck peer_ip new_fd st =
     (if ptyp pck = SIGN_IN then bind_c (recv_sign_in w (payload pck) st) (\<lambda>(_, st). Some (Inr st))
      else if ptyp pck = SIGN_OUT then
        bind_c (recv_quit wild (payload pck) (ntohs (plength pck)) st) (\<lambda>(_, st). close_fd new_fd st)
      else if ptyp pck = MEMBER_LIST then
        bind_c (recv_member_list w (payload pck) st) (\<lambda>(_, st). close_fd new_fd st)
      else if ptyp pck = MESSAGE then
        bind_c (recv_msg (payload pck) peer_ip st) (\<lambda>(_, st). close_fd new_fd st)
      else if ptyp pck = ERROR_TYPE then
        bind_c (recv_error (payload pck) peer_ip st) (\<lambda>(_, st). close_fd new_fd st)
      else Some (Inr st))"

text \<open>The warning about a false checksum looks the sender up, without the mutex, and goes on.\<close>

definition warn_crc :: "u32 \<Rightarrow> chat_state \<Rightarrow> chat_state result option" where
  "warn_crc peer_ip st =
     bind_c (on_roster (List_search_member_ip peer_ip) st) (\<lambda>(m, st).
     bind_c (Some (print_str (m_id m))) (\<lambda>_. Some (Inr st)))"

definition recv_from_client ::
  "world \<Rightarrow> u8 list option \<Rightarrow> int \<Rightarrow> u32 \<Rightarrow> u8 list option \<Rightarrow> chat_state \<Rightarrow>
   chat_state result option" where
  "recv_from_client w wild new_fd peer_ip received st =
     (case received of
        None \<Rightarrow> close_fd new_fd st
      | Some bytes \<Rightarrow>
          if bytes = [] then close_fd new_fd st
          else
            let pck = packet_at (bytes @ drop (length bytes) (packet_bytes (stack_packet w))) in
            bind_c (Some (crc_is_equal (payload pck) (ntohs (plength pck)) (ntohl (pcrc pck)))) (\<lambda>ok.
            bind_c (if \<not> ok then warn_crc peer_ip st else Some (Inr st)) (\<lambda>st.
            dispatch w wild pck peer_ip new_fd st)))"

end
