(* ===== verification/Task_Properties.thy ===== *)
theory Task_Properties
  imports Tasks
begin

unbundle bit_operations_syntax

text \<open>
  What the tasks of \<open>Tasks\<close> do: sending a packet, the member list from one peer to
  another, the bounds of the payload, and what the error paths leave behind.
\<close>

section \<open>send\<close>

lemma send_loop_done: "\<not> tot < len \<Longrightarrow> send_loop mem len tot left n sent rs = Some (Inr (n, tot, sent))"
  by (subst send_loop.simps) simp

lemma send_all_at_once:
  "length mem = sizeof_packet \<Longrightarrow>
   send_all_data mem (int sizeof_packet) (int sizeof_packet # rs) = Some (Inr (0, int sizeof_packet, mem))"
  by (simp add: send_all_data_def sizeof_packet_def send_loop.simps [of _ _ 0] send_loop_done)

lemma send_all_fails:
  "length mem = sizeof_packet \<Longrightarrow>
   send_all_data mem (int sizeof_packet) (-1 # rs) = Some (Inr (-1, 0, []))"
  by (simp add: send_all_data_def sizeof_packet_def send_loop.simps [of _ _ 0])

lemma send_all_partial:
  assumes "length mem = sizeof_packet" "0 < r" "r < int sizeof_packet"
  shows "send_all_data mem (int sizeof_packet) (r # rs) =
    (if rs = [] then None else Some (Inl Out_Of_Bounds))"
proof -
  have "1 * int sizeof_packet \<le> r * int sizeof_packet"
    using assms(2) by (intro mult_right_mono) simp_all
  then show ?thesis
    using assms
    by (cases rs)
      (simp_all add: send_all_data_def send_loop.simps [of _ _ 0] send_loop.simps [of _ _ r])
qed

text \<open>
  C23: \<open>send_all_data\<close> sends a whole packet when \<open>send\<close> takes all of it in one call, and reports
  -1 with nothing sent when the first call fails.  After a call that takes only part of the packet
  it does not go on with the rest: \<open>packet+total\<close> lies that many packets, not bytes, behind the
  start, and the next call is given memory beyond the packet.
\<close>

theorem send_all_data_outcomes:
  assumes "length mem = sizeof_packet" "0 < r" "r < int sizeof_packet"
  shows "send_all_data mem (int sizeof_packet) (int sizeof_packet # rs) =
      Some (Inr (0, int sizeof_packet, mem)) \<and>
    send_all_data mem (int sizeof_packet) (-1 # rs) = Some (Inr (-1, 0, [])) \<and>
    send_all_data mem (int sizeof_packet) (r # r' # rs) = Some (Inl Out_Of_Bounds)"
  using send_all_at_once [OF assms(1)] send_all_fails [OF assms(1)] send_all_partial [OF assms]
  by simp

lemma send_all_data_outcomes_witness:
  "send_all_data (replicate 408 7) 408 [408] = Some (Inr (0, 408, replicate 408 7)) \<and>
   send_all_data (replicate 408 7) 408 [400, 8] = Some (Inl Out_Of_Bounds)"
  using send_all_data_outcomes [of "replicate 408 7" 400 "[]" 8]
  by (simp add: sizeof_packet_def PAYLOAD_SIZE_def)

section \<open>The packet with the member list\<close>

definition stack_ok :: "world \<Rightarrow> bool" where
  "stack_ok w \<longleftrightarrow> length (payload (stack_packet w)) = PAYLOAD_SIZE"

definition ids_end :: "entry list \<Rightarrow> bool" where
  "ids_end es \<longleftrightarrow> (\<forall>e \<in> set es. 0 \<in> set (fst e))"

interpretation printed_id: id_writer put_id_print "(=)"
proof
  fix mid :: "u8 list" and k and pl :: "u8 list"
  assume "length mid = 16" "0 \<in> set mid" "k + 16 \<le> length pl"
  then show "\<exists>bs. put_id_print pl k mid = Inr (take k pl @ bs @ drop (k + 16) pl) \<and>
      length bs = 16 \<and> bs = mid"
    using whole_id.putid_writes [of mid k pl] by (auto simp: put_id_print_def print_str_def)
qed

lemma unat_size16: "n \<le> 19 \<Longrightarrow> unat (size16 (int n)) = 20 * n + 1"
proof -
  assume "n \<le> 19"
  have "size16 (int n) = of_nat (20 * n + 1)"
    by (simp add: size16_def SIZE_OF_MEMBER_IN_BYTES_def mult.commute)
  moreover have "unat (of_nat (20 * n + 1) :: u16) = 20 * n + 1"
    using \<open>n \<le> 19\<close> by (simp only: unat_of_nat) simp
  ultimately show ?thesis
    by simp
qed

text \<open>A packet that carries the list \<open>es\<close> and whose checksum is right.\<close>

definition carries :: "(u8 list \<Rightarrow> u8 list \<Rightarrow> bool) \<Rightarrow> u8 \<Rightarrow> packet \<Rightarrow> entry list \<Rightarrow> bool" where
  "carries same ty p es \<longleftrightarrow> version p = VERSION \<and> ptyp p = ty \<and> length (payload p) = PAYLOAD_SIZE \<and>
     payload p ! 0 = of_nat (length es) \<and> holds same (payload p) 1 es \<and>
     unat (ntohs (plength p)) = 20 * length es + 1 \<and>
     crc_is_equal (payload p) (ntohs (plength p)) (ntohl (pcrc p)) = Inr True"

lemma crc_is_equal_made:
  "crc_32 gentab32 (Some pl) (unat n) = Inr c \<Longrightarrow> crc_is_equal pl n c = Inr True"
  by (simp add: crc_is_equal_def)

lemma crc_32_returns: "n \<le> length pl \<Longrightarrow> \<exists>c. crc_32 gentab32 (Some pl) n = Inr c"
  by (simp add: crc_32_value)

lemma nth_0_of_take: "take 1 xs = take 1 ys \<Longrightarrow> xs \<noteq> [] \<Longrightarrow> ys \<noteq> [] \<Longrightarrow> xs ! 0 = ys ! 0"
  by (cases xs; cases ys) simp_all

lemma roster_packet_carries:
  assumes "id_writer putid same" "list_repr l es" "ids_end es" "length es \<le> 19"
    "length (payload stack) = PAYLOAD_SIZE"
  shows "\<exists>p. roster_packet putid ty stack l = Inr p \<and> carries same ty p es"
proof -
  from assms(2) obtain as where as: "path (heap l) (list_ptr l) as" "es = map (entry_at (heap l)) as"
    "counter l = int (length es)" "\<forall>e \<in> set es. length (fst e) = 16"
    by (rule represents_E)
  let ?n = "of_nat (length es) :: u8"
  let ?pl = "(payload stack)[0 := ?n]"
  have "\<forall>e \<in> set es. length (fst e) = 16 \<and> 0 \<in> set (fst e)" "1 + 20 * length es \<le> length ?pl"
    using as(4) assms(3,4,5) by (auto simp: ids_end_def PAYLOAD_SIZE_def)
  from id_writer.put_members_holds [OF assms(1) as(1,2) this] obtain pl' where
    pl': "put_members putid (heap l) (list_ptr l) 1 (length es) ?pl = Inr pl'"
      "length pl' = PAYLOAD_SIZE" "take 1 pl' = take 1 ?pl" "holds same pl' 1 es"
    using assms(5) by auto
  let ?size = "size16 (int (length es))"
  have size: "unat ?size = 20 * length es + 1"
    by (rule unat_size16 [OF assms(4)])
  then obtain c where c: "crc_32 gentab32 (Some pl') (unat ?size) = Inr c"
    using crc_32_returns [of "unat ?size" pl'] pl'(2) assms(4) by (auto simp: PAYLOAD_SIZE_def)
  let ?p = "stack\<lparr>version := VERSION, ptyp := ty, plength := htons ?size, payload := pl',
    pcrc := htonl c\<rparr>"
  have nonempty: "payload stack \<noteq> []"
    using assms(5) by (auto simp: PAYLOAD_SIZE_def)
  have "roster_packet putid ty stack l = Inr ?p"
    using as(3) pl'(1) c assms(5) nonempty
    by (simp add: roster_packet_def List_no_of_members_def List_get_list_def store_def Let_def)
  moreover have "pl' ! 0 = ?n"
    using nth_0_of_take [OF pl'(3)] pl'(2) assms(5) by (fastforce simp: PAYLOAD_SIZE_def)
  ultimately show ?thesis
    using pl' size crc_is_equal_made [OF c] by (simp add: carries_def)
qed

section \<open>Sending the member list\<close>

lemma send_to_server_whole:
  assumes "length (payload p) = PAYLOAD_SIZE" "send_results w (trace st) fd = int sizeof_packet # rs"
  shows "send_to_server w p fd st = Some (Inr (0, logged (Sent fd (packet_bytes p)) st))"
  using assms send_all_at_once [of "packet_bytes p" rs]
  by (simp add: send_to_server_def sizeof_packet_def)

lemma logged_simps [simp]:
  "roster (logged e st) = roster st" "locked (logged e st) = locked st" "sign (logged e st) = sign st"
  "trace (logged e st) = trace st @ [e]"
  by (simp_all add: logged_def)

lemma mutex_unlock_simps [simp]:
  "roster (mutex_unlock st) = roster st" "locked (mutex_unlock st) = False"
  "sign (mutex_unlock st) = sign st" "trace (mutex_unlock st) = trace st"
  by (simp_all add: mutex_unlock_def)

text \<open>The environment lets a connection to \<open>ip\<close> and the sending of one packet succeed.\<close>

definition reachable :: "world \<Rightarrow> chat_state \<Rightarrow> u8 list \<Rightarrow> int \<Rightarrow> bool" where
  "reachable w st ip fd \<longleftrightarrow> connect_to w (trace st) ip = fd \<and> fd \<noteq> -1 \<and>
     (\<exists>rs. send_results w (trace st @ [Connected ip fd]) fd = int sizeof_packet # rs)"

lemma send_member_list_sends:
  assumes "list_repr (roster st) es" "ids_end es" "length es \<le> 19" "stack_ok w" "\<not> locked st"
    "reachable w st (inet_ntoa ip) fd"
  shows "\<exists>p st'. send_member_list w ip st = Some (Inr st') \<and> carries (=) MEMBER_LIST p es \<and>
    trace st' = trace st @ [Connected (inet_ntoa ip) fd, Sent fd (packet_bytes p), Closed fd] \<and>
    roster st' = roster st \<and> sign st' = sign st \<and> \<not> locked st'"
proof -
  obtain p where p: "roster_packet put_id_print MEMBER_LIST (stack_packet w) (roster st) = Inr p"
    "carries (=) MEMBER_LIST p es"
    using roster_packet_carries [OF printed_id.id_writer_axioms assms(1-3), of "stack_packet w"]
      assms(4) unfolding stack_ok_def by blast
  obtain rs where fd: "connect_to w (trace st) (inet_ntoa ip) = fd" "fd \<noteq> -1"
    "send_results w (trace st @ [Connected (inet_ntoa ip) fd]) fd = int sizeof_packet # rs"
    using assms(6) unfolding reachable_def by blast
  let ?st = "logged (Connected (inet_ntoa ip) fd) (st\<lparr>locked := True\<rparr>)"
  have "send_to_server w p fd ?st = Some (Inr (0, logged (Sent fd (packet_bytes p)) ?st))"
    by (rule send_to_server_whole) (use p(2) fd(3) in \<open>simp_all add: carries_def\<close>)
  then have "send_member_list w ip st =
      Some (Inr (mutex_unlock (logged (Closed fd) (logged (Sent fd (packet_bytes p)) ?st))))"
    using p(1) fd(1,2) assms(5)
    by (simp add: send_member_list_def mutex_lock_def client_connect_def Let_def)
  then show ?thesis
    using p(2) by auto
qed

section \<open>Receiving the member list\<close>

text \<open>The pairs the receiving loop sees: the identifier is everything from its first byte to
  the end of the payload.\<close>

fun announced :: "u8 list \<Rightarrow> nat \<Rightarrow> entry list \<Rightarrow> entry list" where
  "announced pl k [] = []"
| "announced pl k (e # es) = (drop (5 + k) pl, snd e) # announced pl (k + 20) es"

lemma announced_ids:
  assumes "\<And>bs mid. same bs mid \<Longrightarrow> 0 \<in> set mid \<Longrightarrow> 0 \<in> set bs"
    "holds same pl (1 + k) es" "ids_end es"
  shows "\<forall>e \<in> set (announced pl k es). id_ok (fst e)"
  using assms(2,3)
proof (induction es arbitrary: k)
  case (Cons e es)
  then have "0 \<in> set (take 16 (drop (5 + k) pl))" "k + 21 \<le> length pl"
    using assms(1) [of "take 16 (drop (5 + k) pl)" "fst e"] by (simp_all add: ids_end_def add.commute)
  then show ?case
    using Cons.IH [of "k + 20"] Cons.prems by (simp add: ids_end_def id_ok_def add.commute)
qed simp

lemma id_ok_prints: "id_ok mid \<Longrightarrow> \<exists>s. print_str mid = Inr s"
  by (auto simp: id_ok_def print_str_def dest: in_set_takeD)

text \<open>The loop is the batch insertion of the member list.\<close>

lemma member_list_loop_batch:
  assumes "holds same pl (1 + k) es" "\<forall>e \<in> set (announced pl k es). id_ok (fst e)"
  shows "member_list_loop w pl k (length es) st =
    bind_c (add_batch List_new_member (\<lambda>l. mallocs w (heap l)) (announced pl k es) (roster st))
      (\<lambda>l. Some (Inr (st\<lparr>roster := l\<rparr>)))"
  using assms
proof (induction es arbitrary: k st)
  case (Cons e es)
  obtain s where s: "print_str (drop (5 + k) pl) = Inr s"
    using id_ok_prints [of "drop (5 + k) pl"] Cons.prems(2) by auto
  have get: "get_member pl k = Inr (snd e, drop (5 + k) pl)"
    by (rule get_member_holds [OF Cons.prems(1)])
  have IH: "member_list_loop w pl (k + 20) (length es) st' =
    bind_c (add_batch List_new_member (\<lambda>l. mallocs w (heap l)) (announced pl (k + 20) es) (roster st'))
      (\<lambda>l. Some (Inr (st'\<lparr>roster := l\<rparr>)))" for st'
    using Cons.IH [of "k + 20" st'] Cons.prems by (simp add: add.commute)
  show ?case
    by (cases "List_new_member (drop (5 + k) pl) (snd e) (mallocs w (heap (roster st))) (roster st)" rule: run_cases)
      (simp_all add: get s IH new_member_task_def on_roster_def SIZE_OF_MEMBER_IN_BYTES_def)
qed simp

text \<open>\<open>malloc\<close> always finds a cell while the heap is finite.\<close>

definition malloc_ok :: "world \<Rightarrow> bool" where
  "malloc_ok w \<longleftrightarrow> (\<forall>h. finite (dom h) \<longrightarrow> mallocs w h \<noteq> 0 \<and> h (mallocs w h) = None)"

lemma malloc_ok_fresh: "malloc_ok w \<Longrightarrow> list_repr l es \<Longrightarrow> list_fresh l (mallocs w (heap l))"
  by (auto simp: malloc_ok_def list_fresh_def elim: represents_E)

lemma spec_add_take: "spec_add es (take 16 mid, ip) = spec_add es (mid, ip)"
  by (simp add: spec_add_def clash_def)

lemma announced_same:
  assumes "holds (=) pl (1 + k) es" "\<forall>e \<in> set es. length (fst e) = 16"
  shows "spec_add_all own (announced pl k es) = spec_add_all own es"
  using assms
proof (induction es arbitrary: k own)
  case (Cons e es)
  have "take 16 (drop (5 + k) pl) = fst e"
    using Cons.prems(1) by (simp add: add.commute)
  then have "spec_add own (drop (5 + k) pl, snd e) = spec_add own e"
    using spec_add_take [of own "drop (5 + k) pl" "snd e"] by simp
  then show ?case
    using Cons.IH [of "k + 20" "spec_add own e"] Cons.prems
    by (simp add: spec_add_all_def add.commute)
qed simp

text \<open>The task adds the pairs the loop sees.\<close>

lemma recv_member_list_adds:
  assumes "holds same pl 1 es" "\<forall>e \<in> set (announced pl 0 es). id_ok (fst e)"
    "pl \<noteq> []" "pl ! 0 = of_nat (length es)" "length es < 256"
    "list_repr (roster st) own" "own \<noteq> []" "malloc_ok w" "\<not> locked st"
    "length own = 1 \<or> \<not> sign st"
  shows "\<exists>l. recv_member_list w pl st = Some (Inr (0, st\<lparr>roster := l, locked := False, sign := False\<rparr>)) \<and>
    list_repr l (spec_add_all own (announced pl 0 es))"
proof -
  obtain l where l: "add_batch List_new_member (\<lambda>l. mallocs w (heap l)) (announced pl 0 es) (roster st) =
      Some (Inr l)" "list_repr l (spec_add_all own (announced pl 0 es))"
    using members.add_batch_spec [OF assms(6,7,2), of "\<lambda>l. mallocs w (heap l)"]
      malloc_ok_fresh [OF assms(8)] by auto
  have "unat (pl ! 0) = length es"
    using assms(4,5) by (simp add: unat_of_nat)
  then have "recv_member_list w pl st =
      Some (Inr (0, (mutex_unlock (st\<lparr>locked := True, roster := l\<rparr>))\<lparr>sign := False\<rparr>))"
    using assms(3,9,10) list_repr_count [OF assms(6)] l(1)
      member_list_loop_batch [of same pl 0 es w "st\<lparr>locked := True\<rparr>"] assms(1,2)
    by (auto simp: recv_member_list_def load_def mutex_lock_def)
  then show ?thesis
    using l(2) by (intro exI [of _ l]) (simp add: mutex_unlock_def)
qed

lemma recv_member_list_merges:
  assumes "holds (=) pl 1 es" "ids_end es" "\<forall>e \<in> set es. length (fst e) = 16"
    "pl \<noteq> []" "pl ! 0 = of_nat (length es)" "length es < 256"
    "list_repr (roster st) own" "own \<noteq> []" "malloc_ok w" "\<not> locked st"
    "length own = 1 \<or> \<not> sign st"
  shows "\<exists>l. recv_member_list w pl st = Some (Inr (0, st\<lparr>roster := l, locked := False, sign := False\<rparr>)) \<and>
    list_repr l (spec_add_all own es)"
proof -
  have "\<forall>e \<in> set (announced pl 0 es). id_ok (fst e)"
    by (rule announced_ids [of "(=)"]) (use assms(1,2) in auto)
  moreover have "spec_add_all own (announced pl 0 es) = spec_add_all own es"
    using announced_same [of pl 0 es own] assms(1,3) by simp
  ultimately show ?thesis
    using recv_member_list_adds [OF assms(1) _ assms(4-11)] by simp
qed

section \<open>A member list from one peer to another\<close>

lemma find_Some_in_set: "find P xs = Some x \<Longrightarrow> x \<in> set xs"
  by (auto simp: find_Some_iff)

lemma warn_crc_returns:
  assumes "list_repr (roster st) own" "own \<noteq> []" "ids_end own"
  shows "warn_crc ip st = Some (Inr st)"
proof -
  obtain m where m: "List_search_member_ip ip (roster st) = Some (Inr (m, roster st))"
    "(m_id m, m_ip m) = (case spec_find_ip ip own of Some e \<Rightarrow> e | None \<Rightarrow> not_found)"
    using List_search_ip_repr [OF assms(1,2)] by blast
  have "0 \<in> set (m_id m)"
  proof (cases "spec_find_ip ip own")
    case (Some e)
    then have "e \<in> set own"
      unfolding spec_find_ip_def by (rule find_Some_in_set)
    then have "0 \<in> set (fst e)"
      using assms(3) by (simp add: ids_end_def)
    moreover have "m_id m = fst e"
      using m(2) Some by (cases e) simp
    ultimately show ?thesis
      by simp
  qed (use m(2) in \<open>simp add: not_found_def\<close>)
  then show ?thesis
    using m(1) by (simp add: warn_crc_def on_roster_def print_str_def)
qed

text \<open>Whatever the checksum test says, the packet is dispatched.\<close>

lemma recv_from_client_dispatches:
  assumes "list_repr (roster st) own" "own \<noteq> []" "ids_end own"
    "length (payload p) = PAYLOAD_SIZE" "unat (ntohs (plength p)) \<le> PAYLOAD_SIZE" "stack_ok w"
  shows "recv_from_client w wild fd ip (Some (packet_bytes p)) st = dispatch w wild p ip fd st"
proof -
  have rest: "drop (8 + length (payload p)) (packet_bytes (stack_packet w)) = []"
    using assms(4,6) by (simp add: stack_ok_def)
  have "packet_bytes p \<noteq> []"
    by (simp add: packet_bytes_def)
  moreover obtain b where
    "crc_is_equal (payload p) (ntohs (plength p)) (ntohl (pcrc p)) = Inr b"
    using crc_32_returns [of "unat (ntohs (plength p))" "payload p"] assms(4,5)
    by (auto simp: crc_is_equal_def)
  ultimately show ?thesis
    using warn_crc_returns [OF assms(1-3)] by (simp add: recv_from_client_def rest Let_def)
qed

text \<open>
  C11: When a peer whose list \<open>es\<close> has at most 19 members sends it with \<open>send_member_list\<close> and another
  peer reads the bytes that went over the connection with \<open>recv_from_client\<close>, both return with
  the mutex free and their descriptors closed, and the receiver's list has become its old list with the
  pairs of \<open>es\<close> added in order, except those whose identifier or address was taken.
\<close>

theorem member_list_exchange:
  assumes "list_repr (roster a) es" "ids_end es" "length es \<le> 19" "\<not> locked a"
    "stack_ok wa" "reachable wa a (inet_ntoa ip) fd"
    "list_repr (roster b) own" "own \<noteq> []" "ids_end own" "\<not> locked b" "length own = 1 \<or> \<not> sign b"
    "stack_ok wb" "malloc_ok wb"
  shows "\<exists>a' bytes b'. send_member_list wa ip a = Some (Inr a') \<and>
    trace a' = trace a @ [Connected (inet_ntoa ip) fd, Sent fd bytes, Closed fd] \<and> \<not> locked a' \<and>
    recv_from_client wb wild fd' peer (Some bytes) b = Some (Inr b') \<and>
    list_repr (roster b') (spec_add_all own es) \<and> trace b' = trace b @ [Closed fd'] \<and>
    \<not> locked b' \<and> \<not> sign b'"
proof -
  obtain p a' where a': "send_member_list wa ip a = Some (Inr a')" "carries (=) MEMBER_LIST p es"
    "trace a' = trace a @ [Connected (inet_ntoa ip) fd, Sent fd (packet_bytes p), Closed fd]"
    "\<not> locked a'"
    using send_member_list_sends [OF assms(1,2,3,5,4,6)] by blast
  have p: "length (payload p) = PAYLOAD_SIZE" "unat (ntohs (plength p)) \<le> PAYLOAD_SIZE"
    "holds (=) (payload p) 1 es" "payload p \<noteq> []" "payload p ! 0 = of_nat (length es)"
    "ptyp p = MEMBER_LIST"
    using a'(2) assms(3) by (auto simp: carries_def PAYLOAD_SIZE_def)
  have "\<forall>e \<in> set es. length (fst e) = 16"
    using assms(1) by (auto elim: represents_E)
  then obtain l where l: "list_repr l (spec_add_all own es)" "recv_member_list wb (payload p) b =
      Some (Inr (0, b\<lparr>roster := l, locked := False, sign := False\<rparr>))"
    using recv_member_list_merges [OF p(3) assms(2) _ p(4,5) _ assms(7,8,13,10,11)] assms(3) by auto
  have "recv_from_client wb wild fd' peer (Some (packet_bytes p)) b =
      Some (Inr (logged (Closed fd') (b\<lparr>roster := l, locked := False, sign := False\<rparr>)))"
    using recv_from_client_dispatches [OF assms(7-9) p(1,2) assms(12)] l(2) p(6)
    by (simp add: dispatch_def close_fd_def packet_types)
  then show ?thesis
    using a' l(1) by auto
qed

text \<open>A friendly environment, and two peers.\<close>

definition calm_world :: world where
  "calm_world =
     \<lparr>connect_to = \<lambda>_ _. 3, send_results = \<lambda>_ _. [408], mallocs = \<lambda>h. Suc (Max (insert 0 (dom h))),
      stack_packet = \<lparr>version = 0, ptyp = 0, plength = 0, pcrc = 0, payload = replicate 400 0\<rparr>\<rparr>"

lemma calm_world_ok:
  "stack_ok calm_world" "malloc_ok calm_world" "reachable calm_world st ip 3"
proof -
  have "h (Suc (Max (insert 0 (dom h)))) = None" if "finite (dom h)" for h :: member_heap
  proof (rule ccontr)
    assume "h (Suc (Max (insert 0 (dom h)))) \<noteq> None"
    then have "Suc (Max (insert 0 (dom h))) \<le> Max (insert 0 (dom h))"
      using that by (intro Max_ge) auto
    then show False
      by simp
  qed
  then show "malloc_ok calm_world"
    by (auto simp: malloc_ok_def calm_world_def)
qed (simp_all add: calm_world_def stack_ok_def reachable_def PAYLOAD_SIZE_def sizeof_packet_def)

definition peer_ann_bob :: chat_state where
  "peer_ann_bob = \<lparr>roster = two_members, sign = False, locked = False, trace = []\<rparr>"

definition peer_eve :: chat_state where
  "peer_eve =
     \<lparr>roster = \<lparr>heap = [0x100 \<mapsto> \<lparr>m_ip = 3, m_id = id_of ''eve'', m_next = 0\<rparr>],
        list_ptr = 0x100, counter = 1, errno = 0\<rparr>,
      sign = True, locked = False, trace = []\<rparr>"

lemma peer_reprs:
  "list_repr (roster peer_ann_bob) [(id_of ''ann'', 1), (id_of ''bob'', 2)]"
  "list_repr (roster peer_eve) [(id_of ''eve'', 3)]"
  using two_members_repr
  by (auto simp: peer_ann_bob_def peer_eve_def entry_at_def intro!: list_reprI [where as = "[0x100]"])

lemma member_list_exchange_witness:
  "\<exists>a bytes b. send_member_list calm_world 3 peer_ann_bob = Some (Inr a) \<and>
    trace a = [Connected (inet_ntoa 3) 3, Sent 3 bytes, Closed 3] \<and>
    recv_from_client calm_world None 4 1 (Some bytes) peer_eve = Some (Inr b) \<and>
    list_repr (roster b) [(id_of ''eve'', 3), (id_of ''ann'', 1), (id_of ''bob'', 2)]"
  using member_list_exchange [OF peer_reprs(1) _ _ _ calm_world_ok(1) calm_world_ok(3) peer_reprs(2)
      _ _ _ _ calm_world_ok(1,2), of 3 None 4 1]
  by (auto simp: ids_end_def peer_ann_bob_def peer_eve_def spec_add_all_def spec_add_def clash_def)

section \<open>Too many members\<close>

lemma put_id_bounded:
  "put_id pl k mid = Inl Out_Of_Bounds \<or> (\<exists>pl'. put_id pl k mid = Inr pl' \<and> length pl' = length pl)"
  "put_id_break pl k mid = Inl Out_Of_Bounds \<or>
    (\<exists>pl'. put_id_break pl k mid = Inr pl' \<and> length pl' = length pl)"
  unfolding put_id_def put_id_break_def by (rule store_all_length)+

lemma put_id_print_bounded:
  "put_id_print pl k mid = Inl Out_Of_Bounds \<or>
    (\<exists>pl'. put_id_print pl k mid = Inr pl' \<and> length pl' = length pl)"
  using put_id_bounded(1) [of pl k mid] by (auto simp: put_id_print_def print_str_def)

lemma roster_packet_overflows:
  assumes "\<And>pl k mid. putid pl k mid = Inl Out_Of_Bounds \<or>
      (\<exists>pl'. putid pl k mid = Inr pl' \<and> length pl' = length pl)"
    "list_repr l es" "20 \<le> length es" "length (payload stack) = PAYLOAD_SIZE"
  shows "roster_packet putid ty stack l = Inl Out_Of_Bounds"
proof -
  from assms(2) obtain as where as: "path (heap l) (list_ptr l) as" "es = map (entry_at (heap l)) as"
    "counter l = int (length es)"
    by (rule represents_E)
  let ?pl = "(payload stack)[0 := of_nat (length es)]"
  have nonempty: "payload stack \<noteq> []"
    using assms(4) by (auto simp: PAYLOAD_SIZE_def)
  have pl: "length ?pl = 400"
    using assms(4) by (simp add: PAYLOAD_SIZE_def)
  from put_members_length [OF assms(1) as(1), where n = "length es" and k = 1 and pl = ?pl] as(2) assms(3)
  consider (oob) "put_members putid (heap l) (list_ptr l) 1 (length es) ?pl = Inl Out_Of_Bounds"
    | (full) pl' where "put_members putid (heap l) (list_ptr l) 1 (length es) ?pl = Inr pl'"
      "length pl' = 400" "length es = 20"
    unfolding pl by fastforce
  then show ?thesis
  proof cases
    case full
    have "unat (size16 20) = 401"
      by (simp add: size16_def SIZE_OF_MEMBER_IN_BYTES_def)
    then have "crc_32 gentab32 (Some pl') (unat (size16 (int (length es)))) = Inl Out_Of_Bounds"
      using full by (simp add: crc_32_out_of_range)
    then show ?thesis
      using full as(3) nonempty
      by (simp add: roster_packet_def List_no_of_members_def List_get_list_def store_def Let_def)
  qed (use as(3) nonempty in
      \<open>simp add: roster_packet_def List_no_of_members_def List_get_list_def store_def Let_def\<close>)
qed

text \<open>The payload after the loop over the members, with the copy of an identifier that a sender uses.\<close>

definition copied ::
  "(u8 list \<Rightarrow> nat \<Rightarrow> u8 list \<Rightarrow> u8 list result) \<Rightarrow> world \<Rightarrow> chat_state \<Rightarrow> u8 list result" where
  "copied putid w st =
     put_members putid (heap (roster st)) (List_get_list (roster st)) 1 (nat (List_no_of_members (roster st)))
       ((payload (stack_packet w))[0 := of_int (List_no_of_members (roster st))])"

lemma copied_overflows:
  assumes "list_repr (roster st) es" "20 \<le> length es" "stack_ok w"
  shows "copied put_id w st = Inl Out_Of_Bounds"
    "copied put_id_break w st = Inl Out_Of_Bounds \<longleftrightarrow> 20 < length es \<or> 0 \<notin> set (take 15 (fst (last es)))"
    "copied put_id_break w st = Inr pl \<Longrightarrow> length es = 20 \<and> length pl = PAYLOAD_SIZE"
proof -
  from assms(1) obtain as where as: "path (heap (roster st)) (list_ptr (roster st)) as"
      "es = map (entry_at (heap (roster st))) as" "counter (roster st) = int (length es)"
      "\<forall>e \<in> set es. length (fst e) = 16"
    by (rule represents_E)
  let ?pl = "(payload (stack_packet w))[0 := of_nat (length es)]"
  have pl: "length ?pl = 400"
    using assms(3) by (simp add: stack_ok_def PAYLOAD_SIZE_def)
  have copied: "copied putid w st =
      put_members putid (heap (roster st)) (list_ptr (roster st)) 1 (length es) ?pl" for putid
    by (simp add: copied_def List_no_of_members_def List_get_list_def as(3))
  have bounded: "copied putid w st = Inl Out_Of_Bounds \<or>
      length es \<le> 20 \<and> (\<exists>pl'. copied putid w st = Inr pl' \<and> length pl' = 400)"
    if "\<And>pl k mid. putid pl k mid = Inl Out_Of_Bounds \<or> (\<exists>pl'. putid pl k mid = Inr pl' \<and> length pl' = length pl)"
    for putid
    using put_members_length [OF that as(1), where n = "length es" and k = 1 and pl = ?pl] as(2) assms(2) pl
    unfolding copied
    by fastforce
  have twenty: "\<exists>pl'. copied putid w st = putid pl' 385 (fst (last es)) \<and> length pl' = 400"
    if "\<And>pl k mid. length mid = 16 \<Longrightarrow> k + 16 \<le> length pl \<Longrightarrow> \<exists>pl'. putid pl k mid = Inr pl' \<and> length pl' = length pl"
      "length es = 20" for putid
  proof -
    have "length as = 20" "as \<noteq> []" "\<forall>a \<in> set as. length (fst (entry_at (heap (roster st)) a)) = 16"
      using as(2,4) that(2) by auto
    then show ?thesis
      using twenty_put [where putid = putid and pl = ?pl, OF as(1) _ _ pl that(1)] that(2)
      unfolding copied by (simp add: as(2) last_map)
  qed
  have last: "length (fst (last es)) = 16"
    using as(4) assms(2) last_in_set [of es] by fastforce
  show "copied put_id w st = Inl Out_Of_Bounds"
  proof (cases "length es = 20")
    case True
    then show ?thesis
      using twenty [OF put_id_fits(1)] put_id_fits(3) [OF last, of _ 385] by fastforce
  next
    case False
    then show ?thesis
      using bounded [of put_id, OF put_id_bounded(1)] assms(2) by auto
  qed
  show "copied put_id_break w st = Inl Out_Of_Bounds \<longleftrightarrow> 20 < length es \<or> 0 \<notin> set (take 15 (fst (last es)))"
  proof (cases "length es = 20")
    case True
    then show ?thesis
      using twenty [OF put_id_fits(2)] put_id_fits(4) [OF last, of _ 385] by fastforce
  next
    case False
    then show ?thesis
      using bounded [of put_id_break, OF put_id_bounded(2)] assms(2) by auto
  qed
  show "length es = 20 \<and> length pl = PAYLOAD_SIZE" if "copied put_id_break w st = Inr pl"
    using bounded [of put_id_break, OF put_id_bounded(2)] that assms(2) by (auto simp: PAYLOAD_SIZE_def)
qed

text \<open>
  C21: The payload of 400 bytes has room for 19 members of 20 bytes and the count, and nothing checks the number.  With 20
  members or more, as soon as the peer can be connected, both senders leave the packet on the stack.  The loop of
  \<open>send_member_list\<close> writes beyond it.  That of \<open>send_sign_in\<close>, which stops at the terminator of an
  identifier, writes beyond it exactly when there are more than 20 members or the twentieth identifier has no
  terminator among its first 15 bytes; otherwise all is written within it and the checksum is made of 401 bytes, one more
  than it has.
\<close>

theorem member_list_overflow:
  assumes "list_repr (roster st) es" "20 \<le> length es" "\<not> locked st" "stack_ok w"
    "connect_to w (trace st) (inet_ntoa ip) \<noteq> -1" "connect_to w (trace st) host \<noteq> -1"
  shows "send_member_list w ip st = Some (Inl Out_Of_Bounds) \<and> copied put_id w st = Inl Out_Of_Bounds \<and>
    send_sign_in w host st = Some (Inl Out_Of_Bounds) \<and>
    (copied put_id_break w st = Inl Out_Of_Bounds \<longleftrightarrow> 20 < length es \<or> 0 \<notin> set (take 15 (fst (last es)))) \<and>
    (\<forall>pl. copied put_id_break w st = Inr pl \<longrightarrow> length es = 20 \<and> length pl = PAYLOAD_SIZE \<and>
      unat (size16 (List_no_of_members (roster st))) = 401 \<and> crc_32 gentab32 (Some pl) 401 = Inl Out_Of_Bounds)"
proof -
  have print: "roster_packet put_id_print ty (stack_packet w) (roster st) = Inl Out_Of_Bounds" for ty
    by (rule roster_packet_overflows [OF put_id_print_bounded assms(1,2)])
      (use assms(4) in \<open>simp add: stack_ok_def\<close>)
  have stop: "roster_packet put_id_break ty (stack_packet w) (roster st) = Inl Out_Of_Bounds" for ty
    by (rule roster_packet_overflows [OF put_id_bounded(2) assms(1,2)])
      (use assms(4) in \<open>simp add: stack_ok_def\<close>)
  have "send_member_list w ip st = Some (Inl Out_Of_Bounds)" "send_sign_in w host st = Some (Inl Out_Of_Bounds)"
    using assms(3,5,6) print stop
    by (simp_all add: send_member_list_def send_sign_in_def mutex_lock_def client_connect_def Let_def)
  moreover have "unat (size16 (List_no_of_members (roster st))) = 401 \<and> crc_32 gentab32 (Some pl) 401 = Inl Out_Of_Bounds"
    if "copied put_id_break w st = Inr pl" for pl
    using copied_overflows(3) [OF assms(1,2,4) that] list_repr_count [OF assms(1)]
    by (simp add: size16_def SIZE_OF_MEMBER_IN_BYTES_def PAYLOAD_SIZE_def crc_32_out_of_range)
  ultimately show ?thesis
    using copied_overflows [OF assms(1,2,4)] by blast
qed

text \<open>A list of twenty members, built by the operation that adds them.\<close>

definition crowd :: "entry list" where
  "crowd = map (\<lambda>n. (of_nat n # replicate 15 0, of_nat n)) [7..<26]"

lemma crowd_ok: "roster_ok ((id_of ''eve'', 3) # crowd)" "length crowd = 19"
  "\<forall>e \<in> set crowd. id_ok (fst e)"
  by (simp_all add: crowd_def roster_ok_def cstr_def id_ok_def id_of_def bytes_of_def)

lemma twenty_members: "\<exists>l. list_repr l ((id_of ''eve'', 3) # crowd)"
  using members.add_batch_spec [OF peer_reprs(2) _ crowd_ok(3), of "\<lambda>l. mallocs calm_world (heap l)"]
    malloc_ok_fresh [OF calm_world_ok(2)] spec_add_all_distinct [of "[(id_of ''eve'', 3)]" crowd] crowd_ok(1)
  by auto

lemma member_list_overflow_witness:
  "\<exists>st. send_member_list calm_world 3 st = Some (Inl Out_Of_Bounds) \<and> copied put_id calm_world st = Inl Out_Of_Bounds \<and>
    copied put_id_break calm_world st \<noteq> Inl Out_Of_Bounds \<and> \<not> locked st"
proof -
  obtain l where "list_repr l ((id_of ''eve'', 3) # crowd)"
    using twenty_members by blast
  moreover have "0 \<in> set (take 15 (fst (last ((id_of ''eve'', 3) # crowd))))"
    by (simp add: crowd_def)
  ultimately have "send_member_list calm_world 3 (peer_eve\<lparr>roster := l\<rparr>) = Some (Inl Out_Of_Bounds) \<and>
      copied put_id calm_world (peer_eve\<lparr>roster := l\<rparr>) = Inl Out_Of_Bounds \<and>
      copied put_id_break calm_world (peer_eve\<lparr>roster := l\<rparr>) \<noteq> Inl Out_Of_Bounds"
    using member_list_overflow [of "peer_eve\<lparr>roster := l\<rparr>" _ calm_world 3 "[]"] crowd_ok(2) calm_world_ok(1)
    by (simp add: peer_eve_def calm_world_def)
  then show ?thesis
    by (intro exI [of _ "peer_eve\<lparr>roster := l\<rparr>"]) (simp add: peer_eve_def)
qed

section \<open>What a receiver does with a packet it should not trust\<close>

lemma recv_from_client_length:
  assumes "length (payload p) = PAYLOAD_SIZE" "PAYLOAD_SIZE < unat (ntohs (plength p))" "stack_ok w"
  shows "recv_from_client w wild fd ip (Some (packet_bytes p)) st = Some (Inl Out_Of_Bounds)"
proof -
  have rest: "drop (8 + length (payload p)) (packet_bytes (stack_packet w)) = []"
    using assms(1,3) by (simp add: stack_ok_def)
  have "packet_bytes p \<noteq> []"
    by (simp add: packet_bytes_def)
  moreover have "crc_is_equal (payload p) (ntohs (plength p)) (ntohl (pcrc p)) = Inl Out_Of_Bounds"
    using assms(1,2) by (simp add: crc_is_equal_def crc_32_out_of_range)
  ultimately show ?thesis
    by (simp add: recv_from_client_def rest)
qed

text \<open>
  C20: A packet with a false checksum is not rejected: whatever stands in the checksum field, the
  receiver does the same with the packet.  A length field of more than 400 makes the test itself
  read beyond the packet.
\<close>

theorem false_crc_is_processed:
  assumes "list_repr (roster st) own" "own \<noteq> []" "ids_end own" "stack_ok w"
    "length (payload p) = PAYLOAD_SIZE"
  shows "(unat (ntohs (plength p)) \<le> PAYLOAD_SIZE \<longrightarrow>
      recv_from_client w wild fd ip (Some (packet_bytes (p\<lparr>pcrc := c\<rparr>))) st =
      recv_from_client w wild fd ip (Some (packet_bytes p)) st) \<and>
    (PAYLOAD_SIZE < unat (ntohs (plength p)) \<longrightarrow>
      recv_from_client w wild fd ip (Some (packet_bytes p)) st = Some (Inl Out_Of_Bounds))"
proof -
  have "dispatch w wild (p\<lparr>pcrc := c\<rparr>) ip fd st = dispatch w wild p ip fd st"
    by (simp add: dispatch_def)
  then show ?thesis
    using recv_from_client_dispatches [OF assms(1-3) _ _ assms(4)] assms(5)
      recv_from_client_length [OF assms(5) _ assms(4)]
    by simp
qed

definition hello :: packet where
  "hello = \<lparr>version = 1, ptyp = 4, plength = htons 3, pcrc = 0, payload = [0x68, 0x69] @ replicate 398 0\<rparr>"

lemma peer_eve_ids: "ids_end [(id_of ''eve'', 3)]"
  by (simp add: ids_end_def)

lemma false_crc_is_processed_witness:
  "recv_from_client calm_world None 4 3 (Some (packet_bytes (hello\<lparr>pcrc := 77\<rparr>))) peer_eve =
   recv_from_client calm_world None 4 3 (Some (packet_bytes hello)) peer_eve"
  using false_crc_is_processed [OF peer_reprs(2) _ peer_eve_ids calm_world_ok(1), of hello None 4 3 77]
  by (simp add: hello_def PAYLOAD_SIZE_def)

lemma get_member_beyond: "length pl \<le> k + 4 \<Longrightarrow> \<exists>e. get_member pl k = Inl e"
  by (cases "k + 1 < length pl"; cases "k + 2 < length pl"; cases "k + 3 < length pl")
    (auto simp: get_member_def load_def)

lemma member_list_loop_overruns:
  "length pl \<le> k + 20 * n + 4 \<Longrightarrow> member_list_loop w pl k (Suc n) st \<noteq> Some (Inr st')"
proof (induction n arbitrary: k st)
  case 0
  then show ?case
    using get_member_beyond [of pl k] by auto
next
  case (Suc n)
  then show ?case
    using Suc.IH [of "k + 20"] by (auto simp: SIZE_OF_MEMBER_IN_BYTES_def simp del: member_list_loop.simps(2)
        simp: member_list_loop.simps(2) [of w pl k "Suc n"])
qed

text \<open>
  C22: The count in the first byte of a member list is not checked against the packet: with more
  than 20 the loop leaves the payload, so \<open>recv_member_list\<close> never returns normally.
\<close>

theorem member_count_unchecked:
  assumes "length pl = PAYLOAD_SIZE" "20 < unat (pl ! 0)"
  shows "recv_member_list w pl st \<noteq> Some (Inr r)"
proof -
  obtain n where "unat (pl ! 0) = Suc n" "20 \<le> n"
    using assms(2) by (cases "unat (pl ! 0)") auto
  moreover have "load pl 0 = Inr (pl ! 0)"
    using assms(1) by (simp add: load_def PAYLOAD_SIZE_def)
  ultimately show ?thesis
    using member_list_loop_overruns [of pl 0 n] assms(1)
    by (auto simp: recv_member_list_def PAYLOAD_SIZE_def simp del: member_list_loop.simps)
qed

lemma member_count_unchecked_witness:
  "recv_member_list calm_world (255 # replicate 399 0) peer_eve \<noteq> Some (Inr (0, peer_eve))"
  using member_count_unchecked [of "255 # replicate 399 0"] by (simp add: PAYLOAD_SIZE_def)

text \<open>
  \<open>recv_quit\<close> copies the identifier through a pointer that has no value.  If the pointer happens to reach
  writable memory, a known member is removed and the mutex released, but for an unknown one the
  function returns with the mutex locked, and from then on every task that takes the mutex
  waits for ever.
\<close>

theorem recv_quit_outcomes:
  assumes "list_repr (roster st) es" "\<not> locked st" "strncpy_bytes dst id_f (unat n) = Inr mid"
    "16 \<le> length mid" "print_str mid = Inr s"
  shows "recv_quit None id_f n st = Some (Inl Uninitialised_Read) \<and>
    (if spec_known mid es
     then \<exists>st'. recv_quit (Some dst) id_f n st = Some (Inr (0, st')) \<and> \<not> locked st' \<and>
       list_repr (roster st') (spec_remove mid es)
     else \<exists>st'. recv_quit (Some dst) id_f n st = Some (Inr (-1, st')) \<and> locked st' \<and>
       list_repr (roster st') es \<and>
       send_member_list w ip st' = None \<and> recv_msg msg ip st' = None)"
proof -
  note del = List_delete_member_cases [OF assms(1,4)]
  show ?thesis
    using del assms
    by (auto simp: recv_quit_def mutex_lock_def on_roster_def send_member_list_def recv_msg_def
        say_from_def split: if_splits)
qed

lemma recv_quit_outcomes_witness:
  "\<exists>st'. recv_quit (Some (replicate 16 0)) (id_of ''eve'') 4 peer_ann_bob = Some (Inr (-1, st')) \<and>
    locked st' \<and> send_member_list calm_world 1 st' = None"
proof -
  have "strncpy_bytes (replicate 16 0) (id_of ''eve'') (unat (4 :: u16)) = Inr (id_of ''eve'')"
    by (simp add: strncpy_bytes_def) (simp add: id_of_def bytes_of_def eval_nat_numeral)
  then show ?thesis
    using recv_quit_outcomes [OF peer_reprs(1), of "replicate 16 0" "id_of ''eve''" 4 "id_of ''eve''"
        "bytes_of ''eve''" calm_world 1 "[]"]
    by (auto simp: peer_ann_bob_def print_str_def spec_known_def)
qed

text \<open>
  Every packet of a type that ends an exchange leaves its descriptor closed as the last thing the task
  does; for a sign-in packet and for an unknown type \<open>recv_from_client\<close> returns without closing
  it, and nobody else knows it.
\<close>

theorem dispatch_closes:
  assumes "ptyp p \<in> {SIGN_OUT, MEMBER_LIST, MESSAGE, ERROR_TYPE}" "ptyp q \<notin> {SIGN_IN, SIGN_OUT, MEMBER_LIST, MESSAGE, ERROR_TYPE}"
    "dispatch w wild p ip fd st = Some (Inr st')"
  shows "last (trace st') = Closed fd \<and> dispatch w wild q ip fd st = Some (Inr st) \<and>
    dispatch w wild (p\<lparr>ptyp := SIGN_IN\<rparr>) ip fd st =
      bind_c (recv_sign_in w (payload p) st) (\<lambda>(_, st). Some (Inr st))"
  using assms by (auto simp: dispatch_def packet_types close_fd_def split: if_splits)

lemma dispatch_closes_witness:
  "\<exists>st. dispatch calm_world None hello 3 4 peer_eve = Some (Inr st) \<and> last (trace st) = Closed 4"
proof -
  have "heap (roster peer_eve) 0x100 = Some \<lparr>m_ip = 3, m_id = id_of ''eve'', m_next = 0\<rparr>"
    by (simp add: peer_eve_def)
  then have "\<exists>st. dispatch calm_world None hello 3 4 peer_eve = Some (Inr st)"
    by (simp add: dispatch_def hello_def packet_types recv_msg_def say_from_def mutex_lock_def on_roster_def
        List_search_member_ip_def List_search_def close_fd_def print_str_def peer_eve_def)
  then show ?thesis
    using dispatch_closes [of hello "hello\<lparr>ptyp := 9\<rparr>" calm_world None 3 4 peer_eve]
    by (auto simp: hello_def packet_types)
qed

section \<open>Messages\<close>

lemma takeWhile_token:
  "\<forall>c \<in> set tok. P c \<Longrightarrow> \<not> P d \<Longrightarrow> takeWhile P (tok @ d # rest) = tok"
  by (subst takeWhile_append2) auto

lemma strtok_token:
  assumes "tok \<noteq> []" "\<forall>c \<in> set tok. c \<noteq> 0 \<and> c \<notin> set delims" "d \<in> set delims" "d \<noteq> 0"
  shows "strtok (pre @ tok @ d # rest) delims (length pre) =
    Inr (Some (length pre), pre @ tok @ 0 # rest, Suc (length pre + length tok))"
proof -
  obtain t ts where tok: "tok = t # ts"
    using assms(1) by (cases tok) auto
  have "takeWhile (\<lambda>c. c \<noteq> 0 \<and> c \<notin> set delims) (tok @ d # rest) = tok"
    by (rule takeWhile_token) (use assms in auto)
  then show ?thesis
    using assms(2,3,4) by (simp add: strtok_def tok nth_append list_update_append Let_def)
qed

lemma strtok_none:
  "0 \<notin> set delims \<Longrightarrow> strtok (pre @ 0 # rest) delims (length pre) = Inr (None, pre @ 0 # rest, length pre)"
  by (simp add: strtok_def)

lemma cstr_string: "0 \<notin> set s \<Longrightarrow> cstr (s @ 0 # rest) = s"
  unfolding cstr_def by (rule takeWhile_token) auto

lemma cstr_take_string: "0 \<notin> set s \<Longrightarrow> cstr (take n (s @ 0 # rest)) = take n s"
proof (cases "n \<le> length s")
  case True
  assume "0 \<notin> set s"
  then have "\<forall>c \<in> set (take n s). c \<noteq> 0"
    by (auto dest: in_set_takeD)
  then show ?thesis
    using True by (simp add: cstr_def)
next
  case False
  assume "0 \<notin> set s"
  then show ?thesis
    using False cstr_string [of s "take (n - Suc (length s)) rest"] by (simp add: take_Cons' )
qed

lemma crc_32_take:
  "take n xs = take n ys \<Longrightarrow> n \<le> length xs \<Longrightarrow> n \<le> length ys \<Longrightarrow>
   crc_32 gentab32 (Some xs) n = crc_32 gentab32 (Some ys) n"
  by (simp add: crc_32_value)

text \<open>What the user types: \<open>@name text\<close> and a newline, in a buffer of which \<open>rest\<close> follows.\<close>

definition typed :: "u8 list \<Rightarrow> u8 list \<Rightarrow> u8 list \<Rightarrow> u8 list" where
  "typed name msg rest = 0x40 # name @ 0x20 # msg @ 0x0A # 0 # rest"

definition word_ok :: "u8 list \<Rightarrow> bool" where
  "word_ok s \<longleftrightarrow> (\<forall>c \<in> set s. c \<noteq> 0 \<and> c \<noteq> 0x20 \<and> c \<noteq> 0x0A)"

definition line_ok :: "u8 list \<Rightarrow> bool" where
  "line_ok s \<longleftrightarrow> s \<noteq> [] \<and> (\<forall>c \<in> set s. c \<noteq> 0 \<and> c \<noteq> 0x0A)"

lemma strtok_typed:
  assumes "word_ok name" "line_ok msg"
  shows "strtok (typed name msg rest) [0x20, 0x0A] 0 =
      Inr (Some 0, 0x40 # name @ 0 # msg @ 0x0A # 0 # rest, length name + 2)"
    and "strtok (0x40 # name @ 0 # msg @ 0x0A # 0 # rest) [0x0A] (length name + 2) =
      Inr (Some (length name + 2), 0x40 # name @ 0 # msg @ 0 # 0 # rest, length name + 3 + length msg)"
  using strtok_token [of "0x40 # name" "[0x20, 0x0A]" "0x20" "[]" "msg @ 0x0A # 0 # rest"]
    strtok_token [of msg "[0x0A]" "0x0A" "0x40 # name @ [0]" "0 # rest"] assms
  by (auto simp: typed_def word_ok_def line_ok_def)

text \<open>A packet that carries a message.\<close>

definition carries_text :: "packet \<Rightarrow> u8 list \<Rightarrow> bool" where
  "carries_text p msg \<longleftrightarrow> version p = VERSION \<and> ptyp p = MESSAGE \<and> length (payload p) = PAYLOAD_SIZE \<and>
     (\<exists>rest. payload p = msg @ 0 # rest) \<and> unat (ntohs (plength p)) = length msg + 1 \<and>
     crc_is_equal (payload p) (ntohs (plength p)) (ntohl (pcrc p)) = Inr True"

text \<open>Up to the point where the connection to the member stands.\<close>

lemma send_msg_connected:
  assumes "word_ok name" "line_ok msg" "14 \<le> length rest" "list_repr (roster st) es" "es \<noteq> []"
    "find (\<lambda>e. take 16 name = cstr (fst e)) es = Some e" "snd e \<noteq> 0" "\<not> locked st"
    "connect_to w (trace st) (inet_ntoa (snd e)) = fd" "fd \<noteq> -1"
  defines "sz \<equiv> of_nat (length msg + 1) :: u16"
  shows "send_msg w (typed name msg rest) st =
    (let p = (stack_packet w)\<lparr>version := VERSION, ptyp := MESSAGE, plength := htons sz\<rparr>;
         st = logged (Connected (inet_ntoa (snd e)) fd) (st\<lparr>locked := True\<rparr>) in
     bind_c (Some (crc_32 gentab32 (Some (msg @ 0 # 0 # rest)) (unat sz))) (\<lambda>crc.
     bind_c (Some (store_all (payload p) 0 (msg @ [0]))) (\<lambda>pl.
     bind_c (send_to_server w (p\<lparr>pcrc := htonl crc, payload := pl\<rparr>) fd st) (\<lambda>(_, st).
     Some (Inr (mutex_unlock (logged (Closed fd) st)))))))"
proof -
  let ?mid = "name @ 0 # msg @ 0 # 0 # rest"
  have "0 \<notin> set name" "0 \<notin> set msg"
    using assms(1,2) by (auto simp: word_ok_def line_ok_def)
  then have "cstr (take 16 ?mid) = take 16 name" and s: "print_str (msg @ 0 # 0 # rest) = Inr msg"
    using cstr_take_string [of name 16 "msg @ 0 # 0 # rest"] cstr_string [of msg "0 # rest"]
    by (simp_all add: print_str_def)
  then obtain m where m: "List_search_member_id ?mid (roster st) = Some (Inr (m, roster st))" "m_ip m = snd e"
    using List_search_id_repr [OF assms(4,5), of ?mid] assms(3,6)
    by (cases e) (auto simp: spec_find_id_def)
  show ?thesis
    unfolding send_msg_def strtok_typed [OF assms(1,2)] sz_def
    using m s assms(7-10) strtok_typed(2) [OF assms(1,2), of rest]
    by (simp add: mutex_lock_def on_roster_def client_connect_def Let_def)
qed

lemma send_msg_no_text:
  assumes "word_ok name"
  shows "send_msg w (0x40 # name @ 0x0A # 0 # rest) st = Some (Inl Null_Dereference)"
proof -
  have "strtok (0x40 # name @ 0x0A # 0 # rest) [0x20, 0x0A] 0 =
      Inr (Some 0, 0x40 # name @ 0 # 0 # rest, length name + 2)"
    using strtok_token [of "0x40 # name" "[0x20, 0x0A]" "0x0A" "[]" "0 # rest"] assms
    by (auto simp: word_ok_def)
  moreover have "strtok (0x40 # name @ 0 # 0 # rest) [0x0A] (length name + 2) =
      Inr (None, 0x40 # name @ 0 # 0 # rest, length name + 2)"
    using strtok_none [of "[0x0A]" "0x40 # name @ [0]" rest] by simp
  ultimately show ?thesis
    by (simp add: send_msg_def)
qed

text \<open>The packet of a text that fits: what \<open>send_msg\<close> stores in it is accepted by the other side.\<close>

lemma text_packet:
  fixes msg rest
  defines "bufsize \<equiv> of_nat (length msg + 1) :: u16"
  assumes "length msg \<le> 399" "stack_ok w" "crc_32 gentab32 (Some (msg @ 0 # 0 # rest)) (unat bufsize) = Inr c"
  shows "\<exists>pl. store_all (payload (stack_packet w)) 0 (msg @ [0]) = Inr pl \<and> length pl = PAYLOAD_SIZE \<and>
    carries_text ((stack_packet w)\<lparr>version := VERSION, ptyp := MESSAGE, plength := htons bufsize,
      pcrc := htonl c, payload := pl\<rparr>) msg"
proof -
  let ?pl = "msg @ 0 # drop (length msg + 1) (payload (stack_packet w))"
  have len: "length (payload (stack_packet w)) = 400"
    using assms(3) by (simp add: stack_ok_def PAYLOAD_SIZE_def)
  have bufsize: "unat bufsize = length msg + 1"
    using assms(2) unfolding bufsize_def by (simp only: unat_of_nat) simp
  have "crc_32 gentab32 (Some ?pl) (unat bufsize) = Inr c"
    using crc_32_take [of "unat bufsize" ?pl "msg @ 0 # 0 # rest"] assms(2,4) bufsize len by simp
  then have "carries_text ((stack_packet w)\<lparr>version := VERSION, ptyp := MESSAGE, plength := htons bufsize,
      pcrc := htonl c, payload := ?pl\<rparr>) msg"
    using crc_is_equal_made [of ?pl bufsize c] bufsize assms(2) len by (simp add: carries_text_def PAYLOAD_SIZE_def)
  then show ?thesis
    using assms(2) len by (intro exI [of _ ?pl]) (simp add: store_all_in_range PAYLOAD_SIZE_def)
qed

text \<open>
  C19: For a line \<open>@name text\<close> with a member of that name, \<open>send_msg\<close> sends the text, with its terminator and a
  right checksum, to the address of the member, if the text has at most 399 bytes; with 400 bytes or
  more, which the input buffer of 1024 allows, it writes beyond the packet on the stack.  A line
  \<open>@name\<close> without text makes it read through a null pointer.
\<close>

theorem send_msg_outcomes:
  assumes "word_ok name" "line_ok msg" "14 \<le> length rest" "list_repr (roster st) es" "es \<noteq> []"
    "find (\<lambda>e. take 16 name = cstr (fst e)) es = Some e" "snd e \<noteq> 0" "\<not> locked st" "stack_ok w"
    "reachable w st (inet_ntoa (snd e)) fd" "length msg < 1024"
  shows "(if length msg \<le> 399
      then \<exists>p st'. send_msg w (typed name msg rest) st = Some (Inr st') \<and> carries_text p msg \<and>
        trace st' = trace st @ [Connected (inet_ntoa (snd e)) fd, Sent fd (packet_bytes p), Closed fd] \<and>
        roster st' = roster st \<and> \<not> locked st'
      else send_msg w (typed name msg rest) st = Some (Inl Out_Of_Bounds)) \<and>
    send_msg w (0x40 # name @ 0x0A # 0 # rest) st = Some (Inl Null_Dereference)"
proof
  show "send_msg w (0x40 # name @ 0x0A # 0 # rest) st = Some (Inl Null_Dereference)"
    by (rule send_msg_no_text [OF assms(1)])
  obtain rs where fd: "connect_to w (trace st) (inet_ntoa (snd e)) = fd" "fd \<noteq> -1"
    "send_results w (trace st @ [Connected (inet_ntoa (snd e)) fd]) fd = int sizeof_packet # rs"
    using assms(10) unfolding reachable_def by blast
  let ?size = "of_nat (length msg + 1) :: u16"
  have "unat ?size = length msg + 1"
    using assms(11) by (simp only: unat_of_nat) simp
  then obtain c where c: "crc_32 gentab32 (Some (msg @ 0 # 0 # rest)) (unat ?size) = Inr c"
    using crc_32_returns [of "unat ?size" "msg @ 0 # 0 # rest"] by auto
  note run = send_msg_connected [OF assms(1-8) fd(1,2)]
  show "if length msg \<le> 399
      then \<exists>p st'. send_msg w (typed name msg rest) st = Some (Inr st') \<and> carries_text p msg \<and>
        trace st' = trace st @ [Connected (inet_ntoa (snd e)) fd, Sent fd (packet_bytes p), Closed fd] \<and>
        roster st' = roster st \<and> \<not> locked st'
      else send_msg w (typed name msg rest) st = Some (Inl Out_Of_Bounds)"
  proof (cases "length msg \<le> 399")
    case True
    let ?st = "logged (Connected (inet_ntoa (snd e)) fd) (st\<lparr>locked := True\<rparr>)"
    obtain pl where pl: "store_all (payload (stack_packet w)) 0 (msg @ [0]) = Inr pl" "length pl = PAYLOAD_SIZE"
        "carries_text ((stack_packet w)\<lparr>version := VERSION, ptyp := MESSAGE, plength := htons ?size,
          pcrc := htonl c, payload := pl\<rparr>) msg" (is "carries_text ?p msg")
      using text_packet [OF True assms(9) c] by blast
    have "send_to_server w ?p fd ?st = Some (Inr (0, logged (Sent fd (packet_bytes ?p)) ?st))"
      by (rule send_to_server_whole) (use pl(2) fd(3) in simp_all)
    then show ?thesis
      unfolding run using c pl True by (auto simp: Let_def)
  next
    case False
    then have "store_all (payload (stack_packet w)) 0 (msg @ [0]) = Inl Out_Of_Bounds"
      using assms(9) by (intro store_all_out_of_range) (simp_all add: stack_ok_def PAYLOAD_SIZE_def)
    then show ?thesis
      unfolding run using c False by (simp add: Let_def)
  qed
qed

lemma send_msg_outcomes_witness:
  "\<exists>st. send_msg calm_world (typed (bytes_of ''bob'') (bytes_of ''hi'') (replicate 14 0)) peer_ann_bob =
      Some (Inr st) \<and> \<not> locked st"
  using send_msg_outcomes [OF _ _ _ peer_reprs(1) _ _ _ _ calm_world_ok(1) calm_world_ok(3),
      of "bytes_of ''bob''" "bytes_of ''hi''" "replicate 14 0" "(id_of ''bob'', 2)"]
  by (auto simp: word_ok_def line_ok_def peer_ann_bob_def bytes_of_def)

end
