(* ===== verification/Task_Invariant.thy ===== *)
theory Task_Invariant
  imports Task_Properties "HOL-Library.Multiset"
begin

text \<open>
  What every task keeps, whatever the network sends and the user types: the member list stays a
  well-formed list that starts with the own entry, and a task closes the connections it opens.
  Tasks are run one after the other, each in an environment of its own.
\<close>

section \<open>Runs of tasks\<close>

text \<open>The tasks the command thread and the server thread start.\<close>

datatype job =
    Sign_In_To "u8 list"
  | Quit
  | Message "u8 list"
  | Incoming "u8 list option" int u32 "u8 list option"

fun run_job :: "world \<Rightarrow> job \<Rightarrow> chat_state \<Rightarrow> chat_state result option" where
  "run_job w (Sign_In_To ip) st = send_sign_in w ip st"
| "run_job w Quit st = send_quit w st"
| "run_job w (Message buffer) st = send_msg w buffer st"
| "run_job w (Incoming wild new_fd peer_ip received) st = recv_from_client w wild new_fd peer_ip received st"

fun run_jobs :: "(world \<times> job) list \<Rightarrow> chat_state \<Rightarrow> chat_state result option" where
  "run_jobs [] st = Some (Inr st)"
| "run_jobs ((w, j) # js) st = bind_c (run_job w j st) (run_jobs js)"

section \<open>The invariant\<close>

definition peer_ok :: "entry \<Rightarrow> chat_state \<Rightarrow> bool" where
  "peer_ok me st \<longleftrightarrow> (\<exists>es. list_repr (roster st) (me # es) \<and> roster_ok (me # es))"

text \<open>\<open>malloc\<close> returns \<open>NULL\<close> or a cell that is not in use.\<close>

definition malloc_sane :: "world \<Rightarrow> bool" where
  "malloc_sane w \<longleftrightarrow> (\<forall>h. finite (dom h) \<longrightarrow> mallocs w h = 0 \<or> h (mallocs w h) = None)"

text \<open>The connections opened and the descriptors closed in a trace.\<close>

fun opened :: "event list \<Rightarrow> int multiset" where
  "opened [] = {#}"
| "opened (Connected ip fd # es) = (if fd = -1 then {#} else {#fd#}) + opened es"
| "opened (e # es) = opened es"

fun closed :: "event list \<Rightarrow> int multiset" where
  "closed [] = {#}"
| "closed (Closed fd # es) = add_mset fd (closed es)"
| "closed (e # es) = closed es"

lemma opened_append [simp]: "opened (es @ fs) = opened es + opened fs"
  by (induction es rule: opened.induct) simp_all

lemma closed_append [simp]: "closed (es @ fs) = closed es + closed fs"
  by (induction es rule: closed.induct) simp_all

text \<open>From \<open>st\<close> to \<open>st'\<close> the list stays well-formed, and the descriptors closed are those opened
  and \<open>F\<close>.\<close>

definition keeps :: "int multiset \<Rightarrow> chat_state \<Rightarrow> chat_state \<Rightarrow> bool" where
  "keeps F st st' \<longleftrightarrow> (\<forall>me. peer_ok me st \<longrightarrow> peer_ok me st') \<and>
     (\<exists>es. trace st' = trace st @ es \<and> closed es = opened es + F)"

lemma keeps_refl [simp, intro]: "keeps {#} st st"
  by (simp add: keeps_def)

lemma keeps_trans:
  assumes "keeps F st st'" "keeps G st' st''"
  shows "keeps (F + G) st st''"
proof -
  obtain es fs where "trace st' = trace st @ es" "closed es = opened es + F"
      "trace st'' = trace st' @ fs" "closed fs = opened fs + G"
    using assms unfolding keeps_def by blast
  then have "trace st'' = trace st @ es @ fs" "closed (es @ fs) = opened (es @ fs) + (F + G)"
    by (simp_all add: ac_simps)
  then show ?thesis
    using assms unfolding keeps_def by blast
qed

lemma keeps_before: "keeps {#} st st' \<Longrightarrow> keeps G st' st'' \<Longrightarrow> keeps G st st''"
  using keeps_trans [of "{#}"] by simp

lemma keeps_after: "keeps F st st' \<Longrightarrow> keeps {#} st' st'' \<Longrightarrow> keeps F st st''"
  using keeps_trans [of F _ _ "{#}"] by simp

lemma peer_ok_same: "roster st' = roster st \<Longrightarrow> peer_ok me st' = peer_ok me st"
  by (simp add: peer_ok_def)

lemma keeps_same_roster:
  "roster st' = roster st \<Longrightarrow> trace st' = trace st @ es \<Longrightarrow> closed es = opened es + F \<Longrightarrow> keeps F st st'"
  unfolding keeps_def by (blast dest: peer_ok_same)

lemma keeps_errno [simp, intro]: "keeps {#} st (set_errno e st)"
  by (simp add: keeps_def peer_ok_def set_errno_def)

lemma keeps_quiet [simp, intro]:
  "keeps {#} st (mutex_unlock st)" "keeps {#} st (st\<lparr>locked := b\<rparr>)" "keeps {#} st (st\<lparr>sign := b\<rparr>)"
  by (rule keeps_same_roster [where es = "[]"]; simp)+

lemma keeps_logged [simp, intro]:
  "keeps {#} st (logged (Sent fd bs) st)" "keeps {#} st (logged (Said bs) st)"
  "keeps {#fd#} st (logged (Closed fd) st)"
  by (rule keeps_same_roster, simp, simp, simp)+

lemma keeps_quiet_iff [simp]:
  "keeps F st (mutex_unlock st') = keeps F st st'" "keeps F (st\<lparr>locked := b\<rparr>) st' = keeps F st st'"
  "keeps F st (st'\<lparr>sign := b\<rparr>) = keeps F st st'" "keeps F st (logged e (st'\<lparr>sign := b\<rparr>)) = keeps F st (logged e st')"
  by (simp_all add: keeps_def peer_ok_def)

lemma keeps_lock [dest!]: "mutex_lock st = Some (Inr st') \<Longrightarrow> st' = st\<lparr>locked := True\<rparr>"
  by (simp add: mutex_lock_def split: if_splits)

text \<open>A connection that is opened and closed again, with \<open>F\<close> closed in between.\<close>

lemma client_connect_cases:
  "client_connect w ip st = (fd, st') \<Longrightarrow> st' = logged (Connected ip fd) st"
  by (auto simp: client_connect_def Let_def)

lemma keeps_refused: "client_connect w ip st = (-1, st') \<Longrightarrow> keeps {#} st st'"
  by (rule keeps_same_roster [where es = "[Connected ip (-1)]"]) (auto dest: client_connect_cases)

lemma keeps_session:
  assumes "client_connect w ip st = (fd, st')" "fd \<noteq> -1" "keeps {#} st' st''"
  shows "keeps {#} st (logged (Closed fd) st'')"
proof -
  have st': "st' = logged (Connected ip fd) st"
    using assms(1) by (rule client_connect_cases)
  obtain es where "trace st'' = trace st' @ es" "closed es = opened es"
    using assms(3) unfolding keeps_def by auto
  then have "trace (logged (Closed fd) st'') = trace st @ (Connected ip fd # es @ [Closed fd])"
      "closed (Connected ip fd # es @ [Closed fd]) = opened (Connected ip fd # es @ [Closed fd]) + {#}"
    using assms(2) st' by simp_all
  moreover have "peer_ok me st'' \<Longrightarrow> peer_ok me (logged (Closed fd) st'')"
      "peer_ok me st \<Longrightarrow> peer_ok me st'" for me
    by (simp_all add: peer_ok_def st')
  ultimately show ?thesis
    using assms(3) unfolding keeps_def by blast
qed

section \<open>The member list\<close>

lemma new_member_keeps_list:
  assumes "list_repr s (me # es)" "roster_ok (me # es)" "p = 0 \<or> heap s p = None"
    "List_new_member mid ip p s = Some (Inr (r, s'))"
  shows "\<exists>es'. list_repr s' (me # es') \<and> roster_ok (me # es')"
proof (cases "16 \<le> length mid")
  case True
  have hit: "spec_hit mid ip (me # es) \<noteq> Inl e" for e
    using List_new_member_cases [OF assms(1) _ True, of ip p] assms(4) by (auto split: sum.splits)
  then obtain b where b: "spec_hit mid ip (me # es) = Inr b"
    by (cases "spec_hit mid ip (me # es)") auto
  show ?thesis
  proof (cases "b \<or> p = 0")
    case True
    then have "s' = s\<lparr>errno := errno s'\<rparr>"
      using List_new_member_cases [OF assms(1) _ \<open>16 \<le> length mid\<close>, of ip p] b assms(4)
      by (cases b) auto
    then show ?thesis
      using assms(1,2) list_repr_errno by metis
  next
    case False
    then show ?thesis
      using List_new_member_added [OF assms(1) _ True, of ip p] roster_ok_snoc [OF assms(2) _ True, of ip]
        b assms(3,4) by (auto simp: list_fresh_def)
  qed
next
  case False
  then have "s' = s\<lparr>errno := errno s'\<rparr>"
    using assms(4) list_repr_ptr [OF assms(1)]
    by (auto simp: List_new_member_def memcpy_bytes_def Let_def split: if_splits)
  then show ?thesis
    using assms(1,2) list_repr_errno by metis
qed

text \<open>Whatever test looks for the member to delete, it is found behind its predecessor.\<close>

lemma prev_loop_found:
  assumes "path h p as" "as \<noteq> []" "prev_loop test h p = Some (Inr (q, d))" "d \<noteq> 0"
  shows "\<exists>xs ys. as = xs @ q # d # ys"
  using assms
proof (induction as arbitrary: p)
  case (Cons a as)
  from Cons.prems(1) obtain m where m: "h a = Some m" "path h (m_next m) as" "p = a" "a \<noteq> 0"
    by (rule path_Cons_E)
  show ?case
  proof (cases as)
    case Nil
    then show ?thesis
      using m Cons.prems(3,4) by simp
  next
    case (Cons b bs)
    from m(2) obtain n where n: "h b = Some n" "m_next m = b" "b \<noteq> 0"
      unfolding Cons by (rule path_Cons_E) simp
    show ?thesis
    proof (cases "(q, d) = (a, b)")
      case True
      then show ?thesis
        using Cons by (intro exI [of _ "[]"] exI [of _ bs]) simp
    next
      case False
      then have "prev_loop test h (m_next m) = Some (Inr (q, d))"
        using Cons.prems(3) m n by (auto split: sum.splits if_splits)
      then obtain xs ys where "as = xs @ q # d # ys"
        using Cons.IH [OF m(2)] Cons Cons.prems(4) by auto
      then show ?thesis
        by (intro exI [of _ "a # xs"] exI [of _ ys]) simp
    qed
  qed
qed simp

lemma delete_member_keeps_list:
  assumes "list_repr s (me # es)" "roster_ok (me # es)" "List_delete_member mid s = Some (Inr (r, s'))"
  shows "\<exists>es'. list_repr s' (me # es') \<and> roster_ok (me # es')"
proof -
  from assms(1) obtain as where as: "path (heap s) (list_ptr s) as" "me # es = map (entry_at (heap s)) as"
    "counter s = int (length (me # es))" "\<forall>e \<in> set (me # es). length (fst e) = 16" "finite (dom (heap s))"
    by (rule represents_E)
  have ptr: "list_ptr s \<noteq> 0" and ne: "as \<noteq> []"
    using list_repr_ptr [OF assms(1)] as(2) by auto
  from assms(3) ptr obtain q d where found:
    "prev_loop (\<lambda>n. strncmp_eq 16 (m_id n) mid) (heap s) (list_ptr s) = Some (Inr (q, d))"
    by (auto simp: List_delete_member_def)
  show ?thesis
  proof (cases "d = 0")
    case True
    then have "s' = s\<lparr>errno := EADDRNOTAVAIL\<rparr>"
      using assms(3) found ptr by (simp add: List_delete_member_def)
    then show ?thesis
      using assms(1,2) by auto
  next
    case False
    from prev_loop_found [OF as(1) ne found False] obtain xs ys where split: "as = xs @ q # d # ys"
      by blast
    obtain m n where mn: "heap s q = Some m" "heap s d = Some n"
      using path_nonnull [OF as(1), of q] path_nonnull [OF as(1), of d] split by auto
    let ?h = "(heap s)(q \<mapsto> m\<lparr>m_next := m_next n\<rparr>, d := None)"
    have s': "s' = s\<lparr>heap := ?h, counter := counter s - 1\<rparr>"
      using assms(3) found False ptr mn by (simp add: List_delete_member_def)
    have d: "d \<notin> set (xs @ q # ys)"
      using path_distinct [OF as(1)] split by simp
    have path: "path ?h (list_ptr s) (xs @ q # ys)"
      by (rule path_unlink) (use as(1) split mn in auto)
    let ?left = "map (entry_at (heap s)) (xs @ q # ys)"
    obtain es' where es': "?left = me # es'" "length es = Suc (length es')"
      using as(2) split by (cases xs) auto
    have "list_repr s' (me # es')"
      using path as(3-5) d mn es' as(2) split unfolding s' es'(1) [symmetric]
      by (intro list_reprI [where as = "xs @ q # ys"]) (auto simp: entry_at_def)
    moreover have "roster_ok (me # es')"
      using assms(2) unfolding es'(1) [symmetric] as(2) split by (auto simp: roster_ok_def)
    ultimately show ?thesis
      by blast
  qed
qed

lemma keeps_roster:
  assumes "\<And>me es. list_repr (roster st) (me # es) \<Longrightarrow> roster_ok (me # es) \<Longrightarrow>
      \<exists>es'. list_repr l (me # es') \<and> roster_ok (me # es')"
  shows "keeps {#} st (st\<lparr>roster := l\<rparr>)"
  using assms unfolding keeps_def peer_ok_def by auto

lemma keeps_new_member:
  assumes "malloc_sane w" "new_member_task w mid ip st = Some (Inr (r, st'))"
  shows "keeps {#} st st'"
proof -
  obtain l where l: "List_new_member mid ip (mallocs w (heap (roster st))) (roster st) = Some (Inr (r, l))"
      "st' = st\<lparr>roster := l\<rparr>"
    using assms(2) by (auto simp: new_member_task_def on_roster_def)
  show ?thesis
    unfolding l(2)
  proof (rule keeps_roster)
    fix me es
    assume repr: "list_repr (roster st) (me # es)" and ok: "roster_ok (me # es)"
    have "finite (dom (heap (roster st)))"
      using repr by (rule represents_E)
    then show "\<exists>es'. list_repr l (me # es') \<and> roster_ok (me # es')"
      using new_member_keeps_list [OF repr ok _ l(1)] assms(1) by (auto simp: malloc_sane_def)
  qed
qed

lemma keeps_delete_member:
  assumes "on_roster (List_delete_member mid) st = Some (Inr (r, st'))"
  shows "keeps {#} st st'"
  using assms delete_member_keeps_list by (auto simp: on_roster_def intro!: keeps_roster)

lemma List_search_same:
  "List_search test s = Some (Inr (m, s')) \<Longrightarrow> s' = s\<lparr>errno := errno s'\<rparr>"
  by (auto simp: List_search_def split: if_splits)

lemma keeps_search:
  assumes "on_roster f st = Some (Inr (m, st'))" "f = List_search_member_id mid \<or> f = List_search_member_ip ip"
  shows "keeps {#} st st'"
proof -
  obtain l where l: "f (roster st) = Some (Inr (m, l))" "st' = st\<lparr>roster := l\<rparr>"
    using assms(1) by (auto simp: on_roster_def)
  then have "l = (roster st)\<lparr>errno := errno l\<rparr>"
    using assms(2) List_search_same by (auto simp: List_search_member_id_def List_search_member_ip_def)
  then show ?thesis
    unfolding l(2) by (intro keeps_roster) (metis list_repr_errno)
qed

lemmas keeps_search_id = keeps_search [OF _ disjI1 [OF refl]]
lemmas keeps_search_ip = keeps_search [OF _ disjI2 [OF refl]]

section \<open>Sending\<close>

lemma keeps_send:
  "send_to_server w p fd st = Some (Inr (r, st')) \<Longrightarrow> keeps {#} st st'"
  by (auto simp: send_to_server_def Let_def split: if_splits intro: keeps_after)

text \<open>A connection for one packet, as all senders make it.\<close>

lemma keeps_send_session:
  assumes "client_connect w ip st = (fd, st1)" "fd \<noteq> -1" "send_to_server w p fd st1 = Some (Inr (r, st2))"
  shows "keeps {#} st (logged (Closed fd) st2)"
  using assms keeps_session keeps_send by blast

lemma keeps_broadcast_loop:
  assumes "broadcast_loop w packet p st = Some r"
  shows "\<forall>st'. r = Inr st' \<longrightarrow> keeps {#} st st'"
proof (rule broadcast_loop.raw_induct [OF _ assms, where P = "\<lambda>w packet p st r. \<forall>st'. r = Inr st' \<longrightarrow> keeps {#} st st'"])
  fix loop w packet p st r
  assume IH: "\<And>w packet p st r. loop w packet p st = Some r \<Longrightarrow> \<forall>st'. r = Inr st' \<longrightarrow> keeps {#} st st'"
    and run: "(if p = 0 then Some (Inr st)
      else case heap (roster st) p of
        None \<Rightarrow> Some (Inl Use_After_Free)
      | Some m \<Rightarrow>
          (case client_connect w (inet_ntoa (m_ip m)) st of
             (sock_fd, st) \<Rightarrow>
               if sock_fd = -1 then loop w packet (m_next m) st
               else
                 (case send_to_server w packet sock_fd st of
                    None \<Rightarrow> None
                  | Some (Inl e) \<Rightarrow> Some (Inl e)
                  | Some (Inr (_, st)) \<Rightarrow>
                      loop w packet (m_next m) (logged (Closed sock_fd) st)))) = Some r"
  show "\<forall>st'. r = Inr st' \<longrightarrow> keeps {#} st st'"
  proof (cases "p = 0 \<or> heap (roster st) p = None")
    case True
    then show ?thesis
      using run by (auto split: if_splits)
  next
    case False
    then obtain m where p: "p \<noteq> 0" "heap (roster st) p = Some m"
      by auto
    obtain fd st1 where c: "client_connect w (inet_ntoa (m_ip m)) st = (fd, st1)"
      by (cases "client_connect w (inet_ntoa (m_ip m)) st")
    show ?thesis
    proof (cases "fd = -1")
      case True
      then have "loop w packet (m_next m) st1 = Some r" "keeps {#} st st1"
        using run p c keeps_refused by auto
      then show ?thesis
        using IH keeps_before by blast
    next
      case False
      show ?thesis
      proof (cases "\<exists>n st2. send_to_server w packet fd st1 = Some (Inr (n, st2))")
        case True
        then obtain n st2 where sent: "send_to_server w packet fd st1 = Some (Inr (n, st2))"
          by blast
        then have "loop w packet (m_next m) (logged (Closed fd) st2) = Some r"
          using run p c False by simp
        then show ?thesis
          using IH keeps_before [OF keeps_send_session [OF c False sent]] by blast
      qed (use run p c False in \<open>auto split: option.splits sum.splits\<close>)
    qed
  qed
qed

lemma keeps_broadcast:
  assumes "broadcast w packet st = Some (Inr st')"
  shows "keeps {#} st st'"
proof -
  obtain p st1 where "broadcast_loop w packet p (st\<lparr>locked := True\<rparr>) = Some (Inr st1)"
      "st' = mutex_unlock st1"
    using assms by (auto simp: broadcast_def Let_def split: if_splits option.splits)
  then show ?thesis
    using keeps_broadcast_loop by fastforce
qed

lemma keeps_send_update: "send_update w pl st = Some (Inr st') \<Longrightarrow> keeps {#} st st'"
  by (auto simp: send_update_def Let_def intro: keeps_broadcast)

lemma keeps_send_quit: "send_quit w st = Some (Inr st') \<Longrightarrow> keeps {#} st st'"
  by (auto simp: send_quit_def Let_def split: if_splits option.splits intro: keeps_broadcast)

lemma keeps_send_sign_in:
  assumes "send_sign_in w ip st = Some (Inr st')"
  shows "keeps {#} st st'"
proof -
  obtain fd st1 where c: "client_connect w ip (st\<lparr>locked := True\<rparr>) = (fd, st1)"
    by (cases "client_connect w ip (st\<lparr>locked := True\<rparr>)")
  then show ?thesis
    using assms keeps_refused [of w ip "st\<lparr>locked := True\<rparr>"] keeps_send_session [OF c]
    by (auto simp: send_sign_in_def mutex_lock_def split: if_splits)
qed

lemma keeps_send_member_list:
  assumes "send_member_list w ip st = Some (Inr st')"
  shows "keeps {#} st st'"
proof -
  obtain fd st1 where c: "client_connect w (inet_ntoa ip) (st\<lparr>locked := True\<rparr>) = (fd, st1)"
    by (cases "client_connect w (inet_ntoa ip) (st\<lparr>locked := True\<rparr>)")
  then show ?thesis
    using assms keeps_refused [of w _ "st\<lparr>locked := True\<rparr>"] keeps_send_session [OF c]
    by (auto simp: send_member_list_def mutex_lock_def split: if_splits)
qed

text \<open>The ways \<open>send_msg\<close> returns, under the mutex in each of them.\<close>

lemma send_msg_runs:
  assumes "send_msg w buffer st = Some (Inr st')"
  obtains mid to st1 fd st2 where "\<not> locked st"
    "on_roster (List_search_member_id mid) (st\<lparr>locked := True\<rparr>) = Some (Inr (to, st1))"
    "client_connect w (inet_ntoa (m_ip to)) st1 = (fd, st2)"
    "st' = mutex_unlock st1 \<or> fd = -1 \<and> st' = mutex_unlock st2 \<or>
      (\<exists>p r st3. fd \<noteq> -1 \<and> send_to_server w p fd st2 = Some (Inr (r, st3)) \<and>
        st' = mutex_unlock (logged (Closed fd) st3))"
proof -
  obtain i mem save m mem' save' where tok: "strtok buffer [0x20, 0x0A] 0 = Inr (i, mem, save)"
      "strtok mem [0x0A] save = Inr (m, mem', save')"
    using assms by (auto simp: send_msg_def)
  then obtain x y where xy: "i = Some x" "m = Some y"
    using assms by (cases i; cases m) (auto simp: send_msg_def)
  have free: "\<not> locked st"
    using assms tok xy by (auto simp: send_msg_def Let_def mutex_lock_def split: if_splits)
  obtain to st1 where found: "on_roster (List_search_member_id (drop (Suc x) mem')) (st\<lparr>locked := True\<rparr>) =
      Some (Inr (to, st1))"
    using assms tok xy by (auto simp: send_msg_def Let_def)
  obtain fd st2 where c: "client_connect w (inet_ntoa (m_ip to)) st1 = (fd, st2)"
    by (cases "client_connect w (inet_ntoa (m_ip to)) st1")
  consider "st' = mutex_unlock st1" | "fd = -1" "st' = mutex_unlock st2"
    | p r st3 where "fd \<noteq> -1" "send_to_server w p fd st2 = Some (Inr (r, st3))" "st' = mutex_unlock (logged (Closed fd) st3)"
    using assms tok xy found c by (auto simp: send_msg_def Let_def split: if_splits)
  then show ?thesis
    by cases (rule that [OF free found c]; blast)+
qed

lemma keeps_send_msg:
  assumes "send_msg w buffer st = Some (Inr st')"
  shows "keeps {#} st st'"
  using assms
proof (rule send_msg_runs)
  fix mid to st1 fd st2
  assume found: "on_roster (List_search_member_id mid) (st\<lparr>locked := True\<rparr>) = Some (Inr (to, st1))"
    and c: "client_connect w (inet_ntoa (m_ip to)) st1 = (fd, st2)"
    and ways: "st' = mutex_unlock st1 \<or> fd = -1 \<and> st' = mutex_unlock st2 \<or>
      (\<exists>p r st3. fd \<noteq> -1 \<and> send_to_server w p fd st2 = Some (Inr (r, st3)) \<and>
        st' = mutex_unlock (logged (Closed fd) st3))"
  have "keeps {#} st st1"
    using keeps_search_id [OF found] by simp
  with ways show ?thesis
    using keeps_refused [of w _ st1] keeps_send_session [OF c] c by (auto intro: keeps_before)
qed

section \<open>Receiving\<close>

lemma keeps_sign_in_loop:
  assumes "malloc_sane w" "sign_in_loop w pl i offset n st = Some (Inr st')"
  shows "keeps {#} st st'"
  using assms(2)
proof (induction n arbitrary: i offset st)
  case (Suc n)
  obtain ip mid st1 r st2 where step:
      "(if i = 0 then bind_c (Some (print_str mid)) (\<lambda>_. send_member_list w ip st) else Some (Inr st)) = Some (Inr st1)"
      "new_member_task w mid ip (st1\<lparr>locked := True\<rparr>) = Some (Inr (r, st2))"
      "sign_in_loop w pl (Suc i) (offset + SIZE_OF_MEMBER_IN_BYTES) n (mutex_unlock st2) = Some (Inr st')"
    using Suc.prems by auto
  have "keeps {#} st st1"
    using step(1) keeps_send_member_list by (auto split: if_splits)
  moreover have "keeps {#} st1 st2"
    using keeps_new_member [OF assms(1) step(2)] by simp
  moreover have "keeps {#} st2 st'"
    using Suc.IH [OF step(3)] keeps_before [of st2 "mutex_unlock st2"] by simp
  ultimately show ?case
    by (blast intro: keeps_before)
qed simp

lemma keeps_member_list_loop:
  assumes "malloc_sane w" "member_list_loop w pl offset n st = Some (Inr st')"
  shows "keeps {#} st st'"
  using assms(2)
proof (induction n arbitrary: offset st)
  case (Suc n)
  then obtain ip mid r st1 where "new_member_task w mid ip st = Some (Inr (r, st1))"
      "member_list_loop w pl (offset + SIZE_OF_MEMBER_IN_BYTES) n st1 = Some (Inr st')"
    by auto
  then show ?case
    using keeps_new_member [OF assms(1)] Suc.IH by (blast intro: keeps_before)
qed simp

lemma keeps_recv_sign_in:
  assumes "malloc_sane w" "recv_sign_in w pl st = Some (Inr (r, st'))"
  shows "keeps {#} st st'"
proof -
  obtain n st1 where "(if List_no_of_members (roster st) > 1 then send_update w pl st else Some (Inr st)) =
        Some (Inr st1)" and loop: "sign_in_loop w pl 0 0 n st1 = Some (Inr st')"
    using assms(2) by (auto simp: recv_sign_in_def)
  then have "keeps {#} st st1"
    using keeps_send_update by (auto split: if_splits)
  then show ?thesis
    using keeps_before keeps_sign_in_loop [OF assms(1) loop] by blast
qed

lemma keeps_recv_member_list:
  assumes "malloc_sane w" "recv_member_list w pl st = Some (Inr (r, st'))"
  shows "keeps {#} st st'"
proof -
  obtain n st1 st2 where run: "(if List_no_of_members (roster st) > 1 \<and> sign st then send_update w pl st
        else Some (Inr st)) = Some (Inr st1)"
      "member_list_loop w pl 0 n (st1\<lparr>locked := True\<rparr>) = Some (Inr st2)"
      "st' = (mutex_unlock st2)\<lparr>sign := False\<rparr>"
    using assms(2) by (auto simp: recv_member_list_def)
  have "keeps {#} st st1"
    using run(1) keeps_send_update by (auto split: if_splits)
  then show ?thesis
    using keeps_member_list_loop [OF assms(1) run(2)] run(3) by (auto intro: keeps_before)
qed

lemma keeps_recv_quit:
  assumes "recv_quit wild id_f n st = Some (Inr (r, st'))"
  shows "keeps {#} st st'"
proof -
  obtain s mid r' st1 where
      "on_roster (List_delete_member mid) ((logged (Said s) st)\<lparr>locked := True\<rparr>) = Some (Inr (r', st1))"
      "st' = st1 \<or> st' = mutex_unlock st1"
    using assms by (auto simp: recv_quit_def Let_def split: option.splits if_splits)
  then show ?thesis
    using keeps_delete_member keeps_before [OF keeps_logged(2)] by fastforce
qed

lemma keeps_say_from:
  assumes "say_from msg ip st = Some (Inr (r, st'))"
  shows "keeps {#} st st'"
proof -
  obtain m st1 s where "on_roster (List_search_member_ip ip) (st\<lparr>locked := True\<rparr>) = Some (Inr (m, st1))"
      "st' = logged (Said s) (mutex_unlock st1)"
    using assms by (auto simp: say_from_def Let_def)
  then show ?thesis
    using keeps_after [OF _ keeps_logged(2) [of "mutex_unlock st1" s], of "{#}" st]
      keeps_search_ip [of ip "st\<lparr>locked := True\<rparr>"] by simp
qed

lemma keeps_warn_crc:
  assumes "warn_crc ip st = Some (Inr st')"
  shows "keeps {#} st st'"
  using assms keeps_search_ip [of ip st] by (auto simp: warn_crc_def)

text \<open>The descriptor of the connection is closed for these types of packet.\<close>

definition ends_exchange :: "u8 \<Rightarrow> bool" where
  "ends_exchange ty \<longleftrightarrow> ty = SIGN_OUT \<or> ty = MEMBER_LIST \<or> ty = MESSAGE \<or> ty = ERROR_TYPE"

lemma keeps_close:
  "keeps {#} st st1 \<Longrightarrow> close_fd fd st1 = Some (Inr st') \<Longrightarrow> keeps {#fd#} st st'"
  using keeps_before [OF _ keeps_logged(3)] by (auto simp: close_fd_def)

lemma keeps_dispatch:
  assumes "malloc_sane w" "dispatch w wild p ip fd st = Some (Inr st')"
  shows "keeps (if ends_exchange (ptyp p) then {#fd#} else {#}) st st'"
proof -
  consider "ptyp p = SIGN_IN" | "ptyp p = SIGN_OUT" | "ptyp p = MEMBER_LIST" | "ptyp p = MESSAGE"
    | "ptyp p = ERROR_TYPE" | "\<not> ends_exchange (ptyp p)" "ptyp p \<noteq> SIGN_IN"
    unfolding ends_exchange_def by blast
  then show ?thesis
    using assms(2)
    by cases (auto simp: dispatch_def packet_types ends_exchange_def recv_msg_def recv_error_def
        intro: keeps_recv_sign_in [OF assms(1)] keeps_close [OF keeps_recv_quit]
          keeps_close [OF keeps_recv_member_list [OF assms(1)]] keeps_close [OF keeps_say_from])
qed

text \<open>The descriptors of others that a job closes: that of the connection it serves, unless the
  packet is a sign-in or of an unknown type.\<close>

fun serves :: "world \<Rightarrow> job \<Rightarrow> int multiset" where
  "serves w (Incoming wild fd ip (Some bytes)) =
     (if bytes \<noteq> [] \<and> \<not> ends_exchange (ptyp (packet_at (bytes @ drop (length bytes) (packet_bytes (stack_packet w)))))
      then {#} else {#fd#})"
| "serves w (Incoming wild fd ip None) = {#fd#}"
| "serves w j = {#}"

lemma keeps_recv_from_client:
  assumes "malloc_sane w" "recv_from_client w wild fd ip received st = Some (Inr st')"
  shows "keeps (serves w (Incoming wild fd ip received)) st st'"
proof (cases "received = None \<or> received = Some []")
  case True
  then show ?thesis
    using assms(2) keeps_logged(3) [of fd st] by (auto simp: recv_from_client_def close_fd_def)
next
  case False
  then obtain bytes where bytes: "received = Some bytes" "bytes \<noteq> []"
    by (cases received) auto
  let ?p = "packet_at (bytes @ drop (length bytes) (packet_bytes (stack_packet w)))"
  obtain st1 where "st1 = st \<or> warn_crc ip st = Some (Inr st1)"
      and run: "dispatch w wild ?p ip fd st1 = Some (Inr st')"
    using assms(2) bytes by (auto simp: recv_from_client_def Let_def split: if_splits)
  then have "keeps {#} st st1"
    using keeps_warn_crc by auto
  then show ?thesis
    using keeps_before keeps_dispatch [OF assms(1) run] bytes by auto
qed

lemma keeps_run_job:
  "malloc_sane w \<Longrightarrow> run_job w j st = Some (Inr st') \<Longrightarrow> keeps (serves w j) st st'"
  using keeps_send_sign_in keeps_send_quit keeps_send_msg keeps_recv_from_client by (cases j) auto

lemma keeps_run_jobs:
  assumes "\<forall>(w, j) \<in> set js. malloc_sane w" "run_jobs js st = Some (Inr st')"
  shows "keeps (\<Sum>\<^sub># (mset (map (\<lambda>(w, j). serves w j) js))) st st'"
  using assms
proof (induction js arbitrary: st)
  case (Cons a js)
  obtain w j where a: "a = (w, j)"
    by (cases a)
  then obtain st1 where "run_job w j st = Some (Inr st1)" "run_jobs js st1 = Some (Inr st')"
    using Cons.prems(2) by auto
  then show ?case
    using Cons keeps_run_job [of w j st st1] keeps_trans a by simp
qed simp

section \<open>The property\<close>

text \<open>
  Whatever tasks the user starts and whatever bytes the network delivers, in whatever environment that
  allocates memory rightly: as long as no task faults or blocks, the member list stays a well-formed chain
  that starts with the own entry, has the right counter and neither an identifier nor an address
  twice; what happened is only added to the trace; and the descriptors closed are exactly the
  connections the tasks opened and those of the connections served, except that the one of a sign-in or of
  an unknown packet is never closed.
\<close>

theorem tasks_keep_peer:
  assumes "\<forall>(w, j) \<in> set js. malloc_sane w" "run_jobs js st = Some (Inr st')"
    "list_repr (roster st) (me # es)" "roster_ok (me # es)"
  shows "(\<exists>es'. list_repr (roster st') (me # es') \<and> roster_ok (me # es') \<and>
      List_no_of_members (roster st') = int (length (me # es'))) \<and>
    (\<exists>new. trace st' = trace st @ new \<and>
      closed new = opened new + \<Sum>\<^sub># (mset (map (\<lambda>(w, j). serves w j) js)))"
proof -
  have "peer_ok me st'"
    using keeps_run_jobs [OF assms(1,2)] assms(3,4) unfolding keeps_def peer_ok_def by blast
  then obtain es' where "list_repr (roster st') (me # es')" "roster_ok (me # es')"
    unfolding peer_ok_def by blast
  then show ?thesis
    using keeps_run_jobs [OF assms(1,2)] list_repr_count [of "roster st'" "me # es'"]
    unfolding keeps_def by blast
qed

text \<open>Eve gets a message and then a connection on which nothing can be read.\<close>

lemma hello_served:
  "\<exists>st. run_job calm_world (Incoming None 4 1 (Some (packet_bytes hello))) peer_eve = Some (Inr st)"
proof -
  have "heap (roster peer_eve) 0x100 = Some \<lparr>m_ip = 3, m_id = id_of ''eve'', m_next = 0\<rparr>"
    by (simp add: peer_eve_def)
  then have "\<exists>st. dispatch calm_world None hello 1 4 peer_eve = Some (Inr st)"
    by (simp add: dispatch_def hello_def packet_types recv_msg_def say_from_def mutex_lock_def on_roster_def
        List_search_member_ip_def List_search_def close_fd_def print_str_def peer_eve_def member_zero_def)
  moreover have "recv_from_client calm_world None 4 1 (Some (packet_bytes hello)) peer_eve =
      dispatch calm_world None hello 1 4 peer_eve"
    by (rule recv_from_client_dispatches [OF peer_reprs(2) _ peer_eve_ids _ _ calm_world_ok(1)])
      (simp_all add: hello_def PAYLOAD_SIZE_def ntohs_def htons_def)
  ultimately show ?thesis
    by simp
qed

lemma eve_ok:
  "malloc_sane calm_world" "roster_ok [(id_of ''eve'', 3)]"
  "serves calm_world (Incoming None 4 1 (Some (packet_bytes hello))) = {#4#}"
proof -
  show "malloc_sane calm_world"
    using calm_world_ok(2) by (simp add: malloc_ok_def malloc_sane_def)
qed (simp_all add: roster_ok_def id_of_def bytes_of_def calm_world_def hello_def PAYLOAD_SIZE_def ends_exchange_def
    packet_types packet_bytes_def packet_at_def)

lemma tasks_keep_peer_witness:
  "\<exists>st. run_jobs [(calm_world, Incoming None 4 1 (Some (packet_bytes hello))),
        (calm_world, Incoming None 5 1 None)] peer_eve = Some (Inr st) \<and>
    (\<exists>es'. list_repr (roster st) ((id_of ''eve'', 3) # es')) \<and>
    closed (trace st) = opened (trace st) + {#4, 5#}"
proof -
  obtain st where run: "run_jobs [(calm_world, Incoming None 4 1 (Some (packet_bytes hello))),
        (calm_world, Incoming None 5 1 None)] peer_eve = Some (Inr st)"
    using hello_served by (auto simp: recv_from_client_def close_fd_def)
  then show ?thesis
    using tasks_keep_peer [OF _ run peer_reprs(2) eve_ok(2)] eve_ok(1,3) by (auto simp: peer_eve_def)
qed

end
