(* ===== verification/Group_Join.thy ===== *)
theory Group_Join
  imports Task_Properties
begin

text \<open>
  A newcomer joins a group, with all the tasks this takes, each on the peer that runs it: the
  sign-in of the newcomer, what the peer it reaches tells the others and answers, and
  what the newcomer and the others make of what they receive.
\<close>

section \<open>An environment without failures\<close>

text \<open>Every \<open>send\<close> takes the whole packet, and \<open>f\<close> says which descriptor a connection gets; -1 is
  a peer that cannot be reached.\<close>

definition lossless :: "world \<Rightarrow> (u8 list \<Rightarrow> int) \<Rightarrow> bool" where
  "lossless w f \<longleftrightarrow> (\<forall>tr ip. connect_to w tr ip = f ip) \<and>
     (\<forall>tr fd. \<exists>rs. send_results w tr fd = int sizeof_packet # rs)"

lemma lossless_connect:
  "lossless w f \<Longrightarrow> client_connect w ip st = (f ip, logged (Connected ip (f ip)) st)"
  by (simp add: lossless_def client_connect_def Let_def)

lemma lossless_send:
  assumes "lossless w f" "length (payload p) = PAYLOAD_SIZE"
  shows "send_to_server w p fd st = Some (Inr (0, logged (Sent fd (packet_bytes p)) st))"
proof -
  obtain rs where "send_results w (trace st) fd = int sizeof_packet # rs"
    using assms(1) unfolding lossless_def by blast
  then show ?thesis
    using send_to_server_whole assms(2) by blast
qed

lemma lossless_reachable: "lossless w f \<Longrightarrow> f ip \<noteq> -1 \<Longrightarrow> reachable w st ip (f ip)"
  unfolding lossless_def reachable_def by blast

section \<open>The sign-in\<close>

lemma send_sign_in_sends:
  assumes "list_repr (roster st) es" "ids_end es" "length es \<le> 19" "stack_ok w" "\<not> locked st"
    "lossless w f" "f ip \<noteq> -1"
  shows "\<exists>p. send_sign_in w ip st = Some (Inr (st\<lparr>locked := False, sign := True,
      trace := trace st @ [Connected ip (f ip), Sent (f ip) (packet_bytes p), Closed (f ip)]\<rparr>)) \<and>
    carries same_string SIGN_IN p es"
proof -
  obtain p where p: "roster_packet put_id_break SIGN_IN (stack_packet w) (roster st) = Inr p"
    "carries same_string SIGN_IN p es"
    using roster_packet_carries [OF id_string.id_writer_axioms assms(1-3), of "stack_packet w"]
      assms(4) unfolding stack_ok_def by blast
  moreover have "length (payload p) = PAYLOAD_SIZE"
    using p(2) by (simp add: carries_def)
  ultimately show ?thesis
    using assms(5,7)
    by (intro exI [of _ p]) (simp add: send_sign_in_def mutex_lock_def mutex_unlock_def logged_def
        lossless_connect [OF assms(6)] lossless_send [OF assms(6)])
qed

section \<open>Telling the others\<close>

text \<open>What goes over the network when a packet is sent to every entry of a list.\<close>

definition session :: "(u8 list \<Rightarrow> int) \<Rightarrow> packet \<Rightarrow> entry \<Rightarrow> event list" where
  "session f p e =
     (let ip = inet_ntoa (snd e) in
      Connected ip (f ip) #
        (if f ip = -1 then [] else [Sent (f ip) (packet_bytes p), Closed (f ip)]))"

definition sessions :: "(u8 list \<Rightarrow> int) \<Rightarrow> packet \<Rightarrow> entry list \<Rightarrow> event list" where
  "sessions f p es = concat (map (session f p) es)"

lemma broadcast_loop_sessions:
  assumes "lossless w f" "length (payload p) = PAYLOAD_SIZE" "path (heap (roster st)) q as"
  shows "broadcast_loop w p q st =
    Some (Inr (st\<lparr>trace := trace st @ sessions f p (map (entry_at (heap (roster st))) as)\<rparr>))"
  using assms(3)
proof (induction as arbitrary: q st)
  case Nil
  then show ?case
    by (subst broadcast_loop.simps) (simp add: sessions_def)
next
  case (Cons a as)
  from Cons.prems obtain m where m: "heap (roster st) a = Some m" "path (heap (roster st)) (m_next m) as"
      "q = a" "a \<noteq> 0"
    by (rule path_Cons_E)
  let ?st = "st\<lparr>trace := trace st @ session f p (entry_at (heap (roster st)) a)\<rparr>"
  have "broadcast_loop w p q st = broadcast_loop w p (m_next m) ?st"
    using m by (subst broadcast_loop.simps)
      (simp add: lossless_connect [OF assms(1)] lossless_send [OF assms(1,2)] session_def entry_at_def
        logged_def Let_def)
  then show ?case
    using Cons.IH [of ?st] m by (simp add: sessions_def)
qed

lemma broadcast_sessions:
  assumes "lossless w f" "length (payload p) = PAYLOAD_SIZE" "list_repr (roster st) es" "es \<noteq> []" "\<not> locked st"
  shows "broadcast w p st = Some (Inr (st\<lparr>locked := False, trace := trace st @ sessions f p (tl es)\<rparr>))"
proof -
  from assms(3) obtain as where as: "path (heap (roster st)) (list_ptr (roster st)) as"
      "es = map (entry_at (heap (roster st))) as"
    by (rule represents_E)
  then obtain a as' where cells: "as = a # as'"
    using assms(4) by (cases as) auto
  obtain m where m: "heap (roster st) a = Some m" "path (heap (roster st)) (m_next m) as'"
      "list_ptr (roster st) = a" "a \<noteq> 0" "tl es = map (entry_at (heap (roster st))) as'"
    using as(1) unfolding cells by (rule path_Cons_E) (simp add: as(2) cells)
  show ?thesis
    using broadcast_loop_sessions [OF assms(1,2), of "st\<lparr>locked := True\<rparr>" "m_next m" as'] m assms(5)
    by (simp add: broadcast_def mutex_lock_def mutex_unlock_def List_get_list_def Let_def)
qed

text \<open>\<open>send_update\<close> makes a member list of the payload of a sign-in and sends it to all members.\<close>

lemma holds_prefix:
  assumes "holds same pl k es" "take (k + 20 * length es) pl' = take (k + 20 * length es) pl"
    "length pl' = length pl"
  shows "holds same pl' k es"
  using assms
proof (induction es arbitrary: k)
  case (Cons e es)
  have cut: "take n (drop i pl') = take n (drop i pl)" if "i + n \<le> k + 20" for i n
  proof -
    have "take (i + n) (take (k + 20 * length (e # es)) pl') = take (i + n) (take (k + 20 * length (e # es)) pl)"
      using Cons.prems(2) by simp
    then have "take (i + n) pl' = take (i + n) pl"
      using that by (simp add: min_def)
    then show ?thesis
      by (simp add: take_drop add.commute)
  qed
  have "holds same pl' (k + 20) es"
    using Cons.IH [of "k + 20"] Cons.prems by (simp add: add.assoc)
  then show ?case
    using Cons.prems(1,3) cut [of k 4] cut [of "4 + k" 16] by simp
qed simp

lemma send_update_sends:
  assumes "carries same SIGN_IN p es" "length es \<le> 19" "list_repr (roster st) own" "own \<noteq> []" "\<not> locked st"
    "stack_ok w" "lossless w f"
  shows "\<exists>u. send_update w (payload p) st =
      Some (Inr (st\<lparr>locked := False, trace := trace st @ sessions f u (tl own)\<rparr>)) \<and>
    carries same MEMBER_LIST u es"
proof -
  define n where "n = 20 * length es + 1"
  define size :: u16 where "size = of_nat n"
  have p: "length (payload p) = PAYLOAD_SIZE" "payload p ! 0 = of_nat (length es)" "holds same (payload p) 1 es"
    using assms(1) by (simp_all add: carries_def)
  have "unat size = n"
    using assms(2) unfolding size_def n_def by (simp only: unat_of_nat) simp
  then have size: "unat size = n" "n \<le> PAYLOAD_SIZE" "0 < n" "unat (payload p ! 0) = length es"
    using assms(2) p(2) by (simp_all add: unat_of_nat PAYLOAD_SIZE_def n_def)
  have stack: "length (payload (stack_packet w)) = PAYLOAD_SIZE"
    using assms(6) by (simp add: stack_ok_def)
  define pl where "pl = take n (payload p) @ drop n (payload (stack_packet w))"
  have copy: "copy_payload (payload (stack_packet w)) (payload p) n = Inr pl"
    using size(2) p(1) stack by (simp add: pl_def copy_payload_def memcpy_bytes_def store_all_in_range)
  have pl: "length pl = PAYLOAD_SIZE" "take (1 + 20 * length es) pl = take (1 + 20 * length es) (payload p)"
      "pl ! 0 = of_nat (length es)"
    using size(2,3) p stack by (simp_all add: pl_def nth_append PAYLOAD_SIZE_def n_def)
  obtain c where c: "crc_32 gentab32 (Some pl) n = Inr c"
    using crc_32_returns [of n pl] pl(1) size(2) by auto
  let ?u = "(stack_packet w)\<lparr>version := VERSION, ptyp := MEMBER_LIST, payload := pl, pcrc := htonl c,
    plength := htons size\<rparr>"
  have load: "load (payload p) 0 = Inr (payload p ! 0)"
    using p(1) by (simp add: load_def PAYLOAD_SIZE_def)
  have num: "of_nat (unat (payload p ! 0) * SIZE_OF_MEMBER_IN_BYTES + 1) = size"
    by (simp only: size(4) SIZE_OF_MEMBER_IN_BYTES_def mult.commute size_def n_def)
  have "send_update w (payload p) st = broadcast w ?u st"
    unfolding send_update_def load Let_def bind_c_simps num size(1)
    by (simp add: copy c)
  moreover have "carries same MEMBER_LIST ?u es"
    using pl holds_prefix [OF p(3) pl(2)] p(1) size(1) crc_is_equal_made [of pl size c] c
    by (simp add: carries_def n_def)
  moreover have "length (payload ?u) = PAYLOAD_SIZE"
    using pl(1) by simp
  ultimately show ?thesis
    using broadcast_sessions [OF assms(7) _ assms(3-5), of ?u] by metis
qed

section \<open>The answer\<close>

lemma send_member_list_lossless:
  assumes "list_repr (roster st) es" "ids_end es" "length es \<le> 19" "stack_ok w" "\<not> locked st"
    "lossless w f" "f (inet_ntoa ip) \<noteq> -1"
  shows "\<exists>p. send_member_list w ip st = Some (Inr (st\<lparr>locked := False,
      trace := trace st @ [Connected (inet_ntoa ip) (f (inet_ntoa ip)),
        Sent (f (inet_ntoa ip)) (packet_bytes p), Closed (f (inet_ntoa ip))]\<rparr>)) \<and>
    carries (=) MEMBER_LIST p es"
proof -
  obtain p where p: "roster_packet put_id_print MEMBER_LIST (stack_packet w) (roster st) = Inr p"
    "carries (=) MEMBER_LIST p es"
    using roster_packet_carries [OF printed_id.id_writer_axioms assms(1-3), of "stack_packet w"]
      assms(4) unfolding stack_ok_def by blast
  moreover have "length (payload p) = PAYLOAD_SIZE"
    using p(2) by (simp add: carries_def)
  ultimately show ?thesis
    using assms(5,7)
    by (intro exI [of _ p]) (simp add: send_member_list_def mutex_lock_def mutex_unlock_def logged_def
        lossless_connect [OF assms(6)] lossless_send [OF assms(6)])
qed

text \<open>The newcomer's entry as the others read it: the identifier up to its end, then what was in the packet.\<close>

definition same_entry :: "entry \<Rightarrow> entry \<Rightarrow> bool" where
  "same_entry e e' \<longleftrightarrow> cstr (fst e) = cstr (fst e') \<and> snd e = snd e' \<and> length (fst e) = 16"

lemma announced_newcomer:
  assumes "carries same_string ty p [me]"
  shows "announced (payload p) 0 [me] = [(drop 5 (payload p), snd me)]"
    "id_ok (drop 5 (payload p))" "same_entry (take 16 (drop 5 (payload p)), snd me) me"
  using assms by (auto simp: carries_def same_string_def id_ok_def same_entry_def PAYLOAD_SIZE_def)

lemma newcomer_added:
  assumes "roster_ok (own @ [me])" "same_entry (take 16 mid, snd me) me"
  shows "spec_add own (mid, snd me) = own @ [(take 16 mid, snd me)]"
    "\<forall>x \<in> set own. \<not> clash mid (snd me) x"
proof -
  show free: "\<forall>x \<in> set own. \<not> clash mid (snd me) x"
    using assms by (auto simp: roster_ok_def clash_def same_entry_def image_iff)
  then show "spec_add own (mid, snd me) = own @ [(take 16 mid, snd me)]"
    by (auto simp: spec_add_def)
qed

text \<open>The entry the others make of it.\<close>

definition newcomer :: "packet \<Rightarrow> entry \<Rightarrow> entry" where
  "newcomer p me = (take 16 (drop 5 (payload p)), snd me)"

lemma newcomer_simps:
  assumes "carries same_string ty p [me]"
  shows "same_entry (newcomer p me) me" "ids_end [newcomer p me]" "snd (newcomer p me) = snd me"
  using announced_newcomer [OF assms] by (simp_all add: newcomer_def ids_end_def id_ok_def)

text \<open>The one round of \<open>recv_sign_in\<close>: the answer, and the entry at the end of the list.\<close>

lemma newcomer_round:
  assumes "carries same_string SIGN_IN p [me]" "list_repr (roster st) own" "own \<noteq> []" "ids_end own"
    "length own \<le> 19" "roster_ok (own @ [me])" "\<not> locked st" "stack_ok w" "malloc_ok w" "lossless w f"
    "f (inet_ntoa (snd me)) = fd" "fd \<noteq> -1"
  shows "\<exists>q l. sign_in_loop w (payload p) 0 0 1 st = Some (Inr (st\<lparr>roster := l, locked := False,
      trace := trace st @ [Connected (inet_ntoa (snd me)) fd, Sent fd (packet_bytes q), Closed fd]\<rparr>)) \<and>
    carries (=) MEMBER_LIST q own \<and> list_repr l (own @ [newcomer p me])"
proof -
  let ?mid = "drop 5 (payload p)"
  obtain q where q: "send_member_list w (snd me) st = Some (Inr (st\<lparr>locked := False,
      trace := trace st @ [Connected (inet_ntoa (snd me)) fd, Sent fd (packet_bytes q), Closed fd]\<rparr>))"
      "carries (=) MEMBER_LIST q own"
    using send_member_list_lossless [of st own w f "snd me"] assms by auto
  note new = announced_newcomer [OF assms(1)]
  obtain r l where l: "List_new_member ?mid (snd me) (mallocs w (heap (roster st))) (roster st) = Some (Inr (r, l))"
      "list_repr l (own @ [newcomer p me])"
    using members.new_member_spec [OF assms(2,3) new(2) malloc_ok_fresh [OF assms(9,2)], of "snd me"]
      newcomer_added(1) [OF assms(6) new(3)] by (auto simp: newcomer_def)
  have "get_member (payload p) 0 = Inr (snd me, ?mid)"
    using get_member_holds [of same_string "payload p" 0 me "[]"] assms(1) by (simp add: carries_def)
  moreover obtain s where "print_str ?mid = Inr s"
    using id_ok_prints [OF new(2)] by blast
  ultimately show ?thesis
    using q l by (intro exI [of _ q] exI [of _ l])
      (simp add: new_member_task_def on_roster_def mutex_lock_def mutex_unlock_def)
qed

lemma recv_newcomer:
  assumes "carries same_string SIGN_IN p [me]" "list_repr (roster st) own" "own \<noteq> []" "ids_end own"
    "length own \<le> 19" "roster_ok (own @ [me])" "\<not> locked st" "stack_ok w" "malloc_ok w" "lossless w f"
    "f (inet_ntoa (snd me)) = fd" "fd \<noteq> -1"
  shows "\<exists>u q l. recv_sign_in w (payload p) st = Some (Inr (0, st\<lparr>roster := l, locked := False,
      trace := trace st @ sessions f u (tl own) @
        [Connected (inet_ntoa (snd me)) fd, Sent fd (packet_bytes q), Closed fd]\<rparr>)) \<and>
    carries same_string MEMBER_LIST u [me] \<and> carries (=) MEMBER_LIST q own \<and>
    list_repr l (own @ [newcomer p me])"
proof -
  obtain u where u: "send_update w (payload p) st =
      Some (Inr (st\<lparr>locked := False, trace := trace st @ sessions f u (tl own)\<rparr>))"
      "carries same_string MEMBER_LIST u [me]"
    using send_update_sends [OF assms(1) _ assms(2,3,7,8,10)] by auto
  let ?st1 = "st\<lparr>locked := False, trace := trace st @ sessions f u (tl own)\<rparr>"
  have "tl own = []" if "\<not> List_no_of_members (roster st) > 1"
    using that list_repr_count [OF assms(2)] by (cases own) auto
  then have "(if List_no_of_members (roster st) > 1 then send_update w (payload p) st else Some (Inr st)) =
      Some (Inr ?st1)"
    using u(1) assms(7) by (auto simp: sessions_def)
  moreover obtain q l where "sign_in_loop w (payload p) 0 0 1 ?st1 = Some (Inr (?st1\<lparr>roster := l, locked := False,
      trace := trace ?st1 @ [Connected (inet_ntoa (snd me)) fd, Sent fd (packet_bytes q), Closed fd]\<rparr>))"
      "carries (=) MEMBER_LIST q own" "list_repr l (own @ [newcomer p me])"
    using newcomer_round [OF assms(1), of ?st1 own w f fd] assms(2-12) by auto
  moreover have "load (payload p) 0 = Inr 1"
    using assms(1) by (auto simp: carries_def load_def PAYLOAD_SIZE_def)
  ultimately show ?thesis
    using u(2) by (intro exI [of _ u] exI [of _ q] exI [of _ l]) (simp add: recv_sign_in_def)
qed

section \<open>The newcomer and the others\<close>

lemma list_packet_dispatched:
  assumes "carries same ty p es" "length es \<le> 19" "list_repr (roster st) own" "own \<noteq> []" "ids_end own" "stack_ok w"
  shows "recv_from_client w wild fd ip (Some (packet_bytes p)) st = dispatch w wild p ip fd st"
  using recv_from_client_dispatches [OF assms(3-5) _ _ assms(6)] assms(1,2)
  by (simp add: carries_def PAYLOAD_SIZE_def)

lemma recv_answer:
  assumes "carries (=) MEMBER_LIST q own" "ids_end own" "length own \<le> 19"
    "list_repr (roster st) [me]" "ids_end [me]" "roster_ok (own @ [me])" "\<not> locked st" "stack_ok w" "malloc_ok w"
  shows "\<exists>l. recv_from_client w wild fd ip (Some (packet_bytes q)) st =
      Some (Inr (st\<lparr>roster := l, locked := False, sign := False, trace := trace st @ [Closed fd]\<rparr>)) \<and>
    list_repr l (me # own)"
proof -
  have q: "payload q \<noteq> []" "payload q ! 0 = of_nat (length own)" "holds (=) (payload q) 1 own" "ptyp q = MEMBER_LIST"
    using assms(1) by (auto simp: carries_def PAYLOAD_SIZE_def)
  have "\<forall>e \<in> set own. length (fst e) = 16"
    using assms(6) by (simp add: roster_ok_def)
  then obtain l where l: "recv_member_list w (payload q) st =
      Some (Inr (0, st\<lparr>roster := l, locked := False, sign := False\<rparr>))" "list_repr l (spec_add_all [me] own)"
    using recv_member_list_merges [OF q(3) assms(2) _ q(1,2) _ assms(4) _ assms(9,7)] assms(3) by auto
  have "roster_ok ([me] @ own)"
    using assms(6) by (auto simp: roster_ok_def)
  then have "list_repr l (me # own)"
    using l(2) spec_add_all_distinct by fastforce
  then show ?thesis
    using list_packet_dispatched [OF assms(1,3,4) _ assms(5,8)] l(1) q(4)
    by (auto simp: dispatch_def close_fd_def logged_def packet_types)
qed

lemma recv_update:
  assumes "carries same_string MEMBER_LIST u [me]" "list_repr (roster st) es" "es \<noteq> []" "ids_end es"
    "roster_ok (es @ [me])" "\<not> locked st" "length es = 1 \<or> \<not> sign st" "stack_ok w" "malloc_ok w"
  shows "\<exists>l me'. recv_from_client w wild fd ip (Some (packet_bytes u)) st =
      Some (Inr (st\<lparr>roster := l, locked := False, sign := False, trace := trace st @ [Closed fd]\<rparr>)) \<and>
    list_repr l (es @ [me']) \<and> same_entry me' me"
proof -
  have u: "payload u \<noteq> []" "payload u ! 0 = of_nat (length [me])" "holds same_string (payload u) 1 [me]"
      "ptyp u = MEMBER_LIST"
    using assms(1) by (auto simp: carries_def PAYLOAD_SIZE_def)
  note new = announced_newcomer [OF assms(1)]
  obtain l where l: "recv_member_list w (payload u) st =
      Some (Inr (0, st\<lparr>roster := l, locked := False, sign := False\<rparr>))"
      "list_repr l (spec_add_all es (announced (payload u) 0 [me]))"
    using recv_member_list_adds [OF u(3) _ u(1,2) _ assms(2,3,9,6,7)] new(1,2) by auto
  have "list_repr l (es @ [(take 16 (drop 5 (payload u)), snd me)])"
    using l(2) newcomer_added(1) [OF assms(5) new(3)] unfolding new(1) by (simp add: spec_add_all_def)
  then show ?thesis
    using list_packet_dispatched [OF assms(1) _ assms(2,3,4,8)] l(1) u(4) new(3)
    by (intro exI [of _ l] exI [of _ "(take 16 (drop 5 (payload u)), snd me)"])
      (simp add: dispatch_def close_fd_def logged_def packet_types)
qed

text \<open>
  C3: Joining a group.  A newcomer \<open>a\<close> who knows only itself signs in to a peer \<open>b\<close> whose group of at most 19 members
  has neither its name nor its address.  The peer then sends every other member of its list, in order,
  one and the same packet with the newcomer (skipping those it cannot reach), answers the newcomer with the whole
  list, and appends the newcomer to it.  When the newcomer reads the answer it knows exactly itself and the
  group; and every member \<open>c\<close> that gets the packet appends the newcomer to its own list.
  All three end with their mutex free.
\<close>

theorem group_join:
  assumes "list_repr (roster a) [me]" "ids_end [me]" "\<not> locked a" "stack_ok wa" "malloc_ok wa" "lossless wa fa"
    "fa ip \<noteq> -1"
    "list_repr (roster b) own" "own \<noteq> []" "ids_end own" "length own \<le> 19" "roster_ok (own @ [me])" "\<not> locked b"
    "stack_ok wb" "malloc_ok wb" "lossless wb fb" "fb (inet_ntoa (snd me)) \<noteq> -1"
    "list_repr (roster c) es" "es \<noteq> []" "ids_end es" "roster_ok (es @ [me])" "\<not> locked c"
    "length es = 1 \<or> \<not> sign c" "stack_ok wc" "malloc_ok wc"
  shows "\<exists>a' hello b' update answer a'' c' meb mec.
    send_sign_in wa ip a = Some (Inr a') \<and>
    trace a' = trace a @ [Connected ip (fa ip), Sent (fa ip) hello, Closed (fa ip)] \<and>
    recv_from_client wb wildb fdb peerb (Some hello) b = Some (Inr b') \<and>
    trace b' = trace b @ sessions fb update (tl own) @
      [Connected (inet_ntoa (snd me)) (fb (inet_ntoa (snd me))),
       Sent (fb (inet_ntoa (snd me))) answer, Closed (fb (inet_ntoa (snd me)))] \<and>
    list_repr (roster b') (own @ [meb]) \<and> same_entry meb me \<and> \<not> locked b' \<and>
    recv_from_client wa wilda fda peera (Some answer) a' = Some (Inr a'') \<and>
    list_repr (roster a'') (me # own) \<and> \<not> locked a'' \<and>
    recv_from_client wc wildc fdc peerc (Some (packet_bytes update)) c = Some (Inr c') \<and>
    list_repr (roster c') (es @ [mec]) \<and> same_entry mec me \<and> \<not> locked c'"
proof -
  obtain p where p: "send_sign_in wa ip a = Some (Inr (a\<lparr>locked := False, sign := True,
      trace := trace a @ [Connected ip (fa ip), Sent (fa ip) (packet_bytes p), Closed (fa ip)]\<rparr>))"
      "carries same_string SIGN_IN p [me]"
    using send_sign_in_sends [OF assms(1,2) _ assms(4,3,6,7)] by auto
  let ?a = "a\<lparr>locked := False, sign := True,
      trace := trace a @ [Connected ip (fa ip), Sent (fa ip) (packet_bytes p), Closed (fa ip)]\<rparr>"
  let ?meb = "newcomer p me"
  obtain u q l where b: "recv_sign_in wb (payload p) b = Some (Inr (0, b\<lparr>roster := l, locked := False,
      trace := trace b @ sessions fb u (tl own) @
        [Connected (inet_ntoa (snd me)) (fb (inet_ntoa (snd me))),
         Sent (fb (inet_ntoa (snd me))) (packet_bytes q), Closed (fb (inet_ntoa (snd me)))]\<rparr>))"
      "carries same_string MEMBER_LIST u [me]" "carries (=) MEMBER_LIST q own" "list_repr l (own @ [?meb])"
    using recv_newcomer [OF p(2) assms(8-16) refl assms(17)] by blast
  have "ptyp p = SIGN_IN"
    using p(2) by (simp add: carries_def)
  then have run: "recv_from_client wb wildb fdb peerb (Some (packet_bytes p)) b =
      bind_c (recv_sign_in wb (payload p) b) (\<lambda>(_, st). Some (Inr st))"
    using list_packet_dispatched [OF p(2) _ assms(8-10,14)] by (simp add: dispatch_def)
  obtain la where la: "recv_from_client wa wilda fda peera (Some (packet_bytes q)) ?a =
      Some (Inr (?a\<lparr>roster := la, locked := False, sign := False, trace := trace ?a @ [Closed fda]\<rparr>))"
      "list_repr la (me # own)"
    using recv_answer [where st = ?a and wild = wilda and fd = fda and ip = peera,
        OF b(3) assms(10,11) _ assms(2,12) _ assms(4,5)] assms(1) by auto
  obtain lc mec where lc: "recv_from_client wc wildc fdc peerc (Some (packet_bytes u)) c =
      Some (Inr (c\<lparr>roster := lc, locked := False, sign := False, trace := trace c @ [Closed fdc]\<rparr>))"
      "list_repr lc (es @ [mec])" "same_entry mec me"
    using recv_update [OF b(2) assms(18-25)] by blast
  show ?thesis
    by (rule exI [of _ ?a], rule exI [of _ "packet_bytes p"],
        rule exI [of _ "b\<lparr>roster := l, locked := False,
          trace := trace b @ sessions fb u (tl own) @
            [Connected (inet_ntoa (snd me)) (fb (inet_ntoa (snd me))),
             Sent (fb (inet_ntoa (snd me))) (packet_bytes q), Closed (fb (inet_ntoa (snd me)))]\<rparr>"],
        rule exI [of _ u], rule exI [of _ "packet_bytes q"],
        rule exI [of _ "?a\<lparr>roster := la, locked := False, sign := False, trace := trace ?a @ [Closed fda]\<rparr>"],
        rule exI [of _ "c\<lparr>roster := lc, locked := False, sign := False, trace := trace c @ [Closed fdc]\<rparr>"],
        rule exI [of _ ?meb], rule exI [of _ mec])
      (use p(1) run b la lc newcomer_simps(1) [OF p(2)] in simp)
qed

text \<open>Eve joins the group of Ann and Bob through a peer that then tells Bob, who knows Ann as well.\<close>

lemma calm_world_lossless: "lossless calm_world (\<lambda>_. 3)"
  by (simp add: lossless_def calm_world_def sizeof_packet_def PAYLOAD_SIZE_def)

lemma eve_is_new: "roster_ok ([(id_of ''ann'', 1), (id_of ''bob'', 2)] @ [(id_of ''eve'', 3)])"
  by (simp add: roster_ok_def)

lemma group_join_witness:
  "\<exists>a' hello b' answer a'' meb. send_sign_in calm_world [] peer_eve = Some (Inr a') \<and>
    recv_from_client calm_world None 5 3 (Some hello) peer_ann_bob = Some (Inr b') \<and>
    list_repr (roster b') [(id_of ''ann'', 1), (id_of ''bob'', 2), meb] \<and> same_entry meb (id_of ''eve'', 3) \<and>
    recv_from_client calm_world None 6 1 (Some answer) a' = Some (Inr a'') \<and>
    list_repr (roster a'') [(id_of ''eve'', 3), (id_of ''ann'', 1), (id_of ''bob'', 2)]"
  using group_join [of peer_eve "(id_of ''eve'', 3)" calm_world "\<lambda>_. 3" "[]" peer_ann_bob
      "[(id_of ''ann'', 1), (id_of ''bob'', 2)]" calm_world "\<lambda>_. 3" peer_ann_bob
      "[(id_of ''ann'', 1), (id_of ''bob'', 2)]" calm_world None 5 3 None 6 1,
      OF peer_reprs(2) _ _ calm_world_ok(1,2) calm_world_lossless _ peer_reprs(1) _ _ _ eve_is_new _
        calm_world_ok(1,2) calm_world_lossless _ peer_reprs(1) _ _ eve_is_new _ _ calm_world_ok(1,2)]
  by (simp add: ids_end_def peer_ann_bob_def peer_eve_def) blast

end
