(* ===== verification/Task_Steps.thy ===== *)
theory Task_Steps
  imports Task_Invariant Group_Join
begin

text \<open>
  Tasks that run at the same time.  A task is cut at every place where it does not hold the mutex of
  \<^verbatim>\<open>task.c\<close>: what it does under the mutex is one step, and so is each test of the shared
  counter or of the flag \<open>sign\<close> that it makes without the mutex.  What a task does on its own memory, or reads of the own entry, which nothing changes, goes with the step
  that follows.  Run alone, the steps of a task are the function of \<open>Tasks\<close>; any number of tasks may be
  interleaved.
\<close>

section \<open>The points of a task\<close>

text \<open>
  What a task has yet to do.  \<open>Warn\<close> is the warning about a false checksum, \<open>Choose\<close> the \<open>switch\<close> over the type;
  \<open>Sign_Round\<close> and \<open>Sign_Insert\<close> are the two halves of a round of \<open>recv_sign_in\<close>, with the index,
  the offset and the number of rounds that follow; \<open>Clear_Sign\<close> is \<open>sign = false\<close>, and \<open>Closing\<close> the \<open>close\<close> at the end.
\<close>

datatype point =
    Start job
  | Warn "u8 list option" packet u32 int
  | Choose "u8 list option" packet u32 int
  | Sign_Test "u8 list"
  | Sign_Update "u8 list" nat
  | Sign_Round "u8 list" nat nat nat
  | Sign_Insert "u8 list" nat nat nat u32 "u8 list"
  | List_Test "u8 list" int
  | List_Flag "u8 list" nat int
  | List_Update "u8 list" nat int
  | List_Insert "u8 list" nat int
  | Clear_Sign int
  | Closing int
  | Done

definition switch_typ :: "u8 list option \<Rightarrow> packet \<Rightarrow> u32 \<Rightarrow> int \<Rightarrow> chat_state \<Rightarrow> (point \<times> chat_state) result option" where
  "switch_typ wild pck peer_ip new_fd st =
     (if ptyp pck = SIGN_IN then Some (Inr (Sign_Test (payload pck), st))
      else if ptyp pck = SIGN_OUT then
        bind_c (recv_quit wild (payload pck) (ntohs (plength pck)) st) (\<lambda>(_, st). Some (Inr (Closing new_fd, st)))
      else if ptyp pck = MEMBER_LIST then Some (Inr (List_Test (payload pck) new_fd, st))
      else if ptyp pck = MESSAGE then
        bind_c (recv_msg (payload pck) peer_ip st) (\<lambda>(_, st). Some (Inr (Closing new_fd, st)))
      else if ptyp pck = ERROR_TYPE then
        bind_c (recv_error (payload pck) peer_ip st) (\<lambda>(_, st). Some (Inr (Closing new_fd, st)))
      else Some (Inr (Done, st)))"

fun task_step :: "world \<Rightarrow> point \<Rightarrow> chat_state \<Rightarrow> (point \<times> chat_state) result option" where
  "task_step w (Start (Incoming wild new_fd peer_ip received)) st =
     (case received of
        None \<Rightarrow> Some (Inr (Closing new_fd, st))
      | Some bytes \<Rightarrow>
          if bytes = [] then Some (Inr (Closing new_fd, st))
          else
            let pck = packet_at (bytes @ drop (length bytes) (packet_bytes (stack_packet w))) in
            bind_c (Some (crc_is_equal (payload pck) (ntohs (plength pck)) (ntohl (pcrc pck)))) (\<lambda>ok.
            Some (Inr (if ok then Choose wild pck peer_ip new_fd else Warn wild pck peer_ip new_fd, st))))"
| "task_step w (Start j) st = bind_c (run_job w j st) (\<lambda>st. Some (Inr (Done, st)))"
| "task_step w (Warn wild pck peer_ip new_fd) st =
     bind_c (warn_crc peer_ip st) (\<lambda>st. Some (Inr (Choose wild pck peer_ip new_fd, st)))"
| "task_step w (Choose wild pck peer_ip new_fd) st = switch_typ wild pck peer_ip new_fd st"
| "task_step w (Sign_Test pl) st =
     bind_c (Some (load pl 0)) (\<lambda>no_member.
     Some (Inr (if List_no_of_members (roster st) > 1 then Sign_Update pl (unat no_member)
                else Sign_Round pl 0 0 (unat no_member), st)))"
| "task_step w (Sign_Update pl n) st =
     bind_c (send_update w pl st) (\<lambda>st. Some (Inr (Sign_Round pl 0 0 n, st)))"
| "task_step w (Sign_Round pl i offset 0) st = Some (Inr (Done, st))"
| "task_step w (Sign_Round pl i offset (Suc n)) st =
     bind_c (Some (get_member pl offset)) (\<lambda>(ip, mid).
     bind_c (if i = 0
             then bind_c (Some (print_str mid)) (\<lambda>_. send_member_list w ip st)
             else Some (Inr st)) (\<lambda>st.
     Some (Inr (Sign_Insert pl i offset n ip mid, st))))"
| "task_step w (Sign_Insert pl i offset n ip mid) st =
     bind_c (mutex_lock st) (\<lambda>st.
     bind_c (new_member_task w mid ip st) (\<lambda>(r, st).
     bind_c (if r \<noteq> 0 then Some (print_str mid) else Some (Inr [])) (\<lambda>_.
     let st = mutex_unlock st in
     bind_c (Some (print_str mid)) (\<lambda>_.
     Some (Inr (Sign_Round pl (Suc i) (offset + SIZE_OF_MEMBER_IN_BYTES) n, st))))))"
| "task_step w (List_Test pl fd) st =
     bind_c (Some (load pl 0)) (\<lambda>no_member.
     Some (Inr (if List_no_of_members (roster st) > 1 then List_Flag pl (unat no_member) fd
                else List_Insert pl (unat no_member) fd, st)))"
| "task_step w (List_Flag pl n fd) st =
     Some (Inr (if sign st then List_Update pl n fd else List_Insert pl n fd, st))"
| "task_step w (List_Update pl n fd) st =
     bind_c (send_update w pl st) (\<lambda>st. Some (Inr (List_Insert pl n fd, st)))"
| "task_step w (List_Insert pl n fd) st =
     bind_c (mutex_lock st) (\<lambda>st.
     bind_c (member_list_loop w pl 0 n st) (\<lambda>st. Some (Inr (Clear_Sign fd, mutex_unlock st))))"
| "task_step w (Clear_Sign fd) st = Some (Inr (Closing fd, st\<lparr>sign := False\<rparr>))"
| "task_step w (Closing fd) st = bind_c (close_fd fd st) (\<lambda>st. Some (Inr (Done, st)))"
| "task_step w Done st = Some (Inr (Done, st))"

section \<open>A task alone\<close>

lemma mutex_lock_free: "mutex_lock st = Some (Inr st') \<longleftrightarrow> \<not> locked st \<and> st' = st\<lparr>locked := True\<rparr>"
  by (auto simp: mutex_lock_def)

text \<open>The rest of a task from a point on, in the words of \<open>Tasks\<close>.\<close>

definition insert_list :: "world \<Rightarrow> u8 list \<Rightarrow> nat \<Rightarrow> int \<Rightarrow> chat_state \<Rightarrow> chat_state result option" where
  "insert_list w pl n fd st =
     bind_c (task_step w (List_Insert pl n fd) st) (\<lambda>(_, st). close_fd fd (st\<lparr>sign := False\<rparr>))"

fun rest :: "world \<Rightarrow> point \<Rightarrow> chat_state \<Rightarrow> chat_state result option" where
  "rest w (Start j) st = run_job w j st"
| "rest w (Warn wild pck ip fd) st = bind_c (warn_crc ip st) (dispatch w wild pck ip fd)"
| "rest w (Choose wild pck ip fd) st = dispatch w wild pck ip fd st"
| "rest w (Sign_Test pl) st = bind_c (recv_sign_in w pl st) (\<lambda>(_, st). Some (Inr st))"
| "rest w (Sign_Update pl n) st = bind_c (send_update w pl st) (sign_in_loop w pl 0 0 n)"
| "rest w (Sign_Round pl i offset n) st = sign_in_loop w pl i offset n st"
| "rest w (Sign_Insert pl i offset n ip mid) st =
     bind_c (task_step w (Sign_Insert pl i offset n ip mid) st) (\<lambda>(_, st).
     sign_in_loop w pl (Suc i) (offset + SIZE_OF_MEMBER_IN_BYTES) n st)"
| "rest w (List_Test pl fd) st = bind_c (recv_member_list w pl st) (\<lambda>(_, st). close_fd fd st)"
| "rest w (List_Flag pl n fd) st =
     (if sign st then bind_c (send_update w pl st) (insert_list w pl n fd) else insert_list w pl n fd st)"
| "rest w (List_Update pl n fd) st = bind_c (send_update w pl st) (insert_list w pl n fd)"
| "rest w (List_Insert pl n fd) st = insert_list w pl n fd st"
| "rest w (Clear_Sign fd) st = close_fd fd (st\<lparr>sign := False\<rparr>)"
| "rest w (Closing fd) st = close_fd fd st"
| "rest w Done st = Some (Inr st)"


text \<open>How many steps a task can still make; a packet announces at most 255 members.\<close>

fun rank :: "point \<Rightarrow> nat" where
  "rank (Start j) = 520"
| "rank (Warn wild pck ip fd) = 516"
| "rank (Choose wild pck ip fd) = 515"
| "rank (Sign_Test pl) = 514"
| "rank (Sign_Update pl n) = 2 * n + 2"
| "rank (Sign_Round pl i offset n) = 2 * n + 1"
| "rank (Sign_Insert pl i offset n ip mid) = 2 * n + 2"
| "rank (List_Test pl fd) = 6"
| "rank (List_Flag pl n fd) = 5"
| "rank (List_Update pl n fd) = 4"
| "rank (List_Insert pl n fd) = 3"
| "rank (Clear_Sign fd) = 2"
| "rank (Closing fd) = 1"
| "rank Done = 0"

lemma unat_u8_double: "2 * unat (b :: u8) \<le> 510"
proof -
  have "unat b < 256"
    by (rule unat_u8_less)
  then show ?thesis
    by linarith
qed

lemma task_step_rank:
  assumes "task_step w c st = Some (Inr (c', st'))" "c \<noteq> Done"
  shows "rank c' < rank c"
proof -
  have "2 * unat b + 2 < 514" "2 * unat b < 513" for b :: u8
    using unat_u8_double [of b] by simp_all
  then show ?thesis
    using assms
    by (cases "(w, c, st)" rule: task_step.cases)
      (auto simp: switch_typ_def Let_def split: option.splits if_splits prod.splits)
qed

lemma bind_c_assoc: "bind_c (bind_c m f) g = bind_c m (\<lambda>x. bind_c (f x) g)"
  by (simp add: bind_c_def split: option.split sum.split)

lemma bind_c_if: "bind_c (if b then m else n) f = (if b then bind_c m f else bind_c n f)"
  by simp

lemma bind_c_return: "bind_c m (\<lambda>x. Some (Inr x)) = m"
  by (simp add: bind_c_def split: option.split sum.split)

lemma rest_if: "rest w (if b then c else d) st = (if b then rest w c st else rest w d st)"
  by simp

text \<open>Both sides of an equation between sequences as one flat sequence.\<close>

lemmas flatten = bind_c_assoc bind_c_if bind_c_return rest_if split_def Let_def fst_conv snd_conv

lemma rest_received:
  assumes "bytes \<noteq> []" "p = packet_at (bytes @ drop (length bytes) (packet_bytes (stack_packet w)))"
  shows "rest w (Start (Incoming wild fd ip (Some bytes))) st =
    bind_c (task_step w (Start (Incoming wild fd ip (Some bytes))) st) (\<lambda>(c', st'). rest w c' st')"
proof (cases "crc_is_equal (payload p) (ntohs (plength p)) (ntohl (pcrc p))")
  case (Inr ok)
  then show ?thesis
    using assms by (cases ok) (simp_all add: recv_from_client_def flatten)
qed (use assms in \<open>simp add: recv_from_client_def flatten\<close>)

lemma rest_start: "rest w (Start j) st = bind_c (task_step w (Start j) st) (\<lambda>(c', st'). rest w c' st')"
proof (cases j)
  case (Incoming wild fd ip received)
  show ?thesis
  proof (cases "received = None \<or> received = Some []")
    case True
    then show ?thesis
      using Incoming by (auto simp: recv_from_client_def)
  next
    case False
    then show ?thesis
      unfolding Incoming using rest_received [OF _ refl] by (cases received) auto
  qed
qed (simp_all add: flatten)

lemma rest_step:
  assumes "c \<noteq> Done"
  shows "rest w c st = bind_c (task_step w c st) (\<lambda>(c', st'). rest w c' st')"
proof (cases c)
  case (Start j)
  then show ?thesis
    using rest_start by blast
next
  case (Choose wild pck ip fd)
  then show ?thesis
    by (simp add: switch_typ_def dispatch_def flatten)
next
  case (Sign_Test pl)
  then show ?thesis
    by (simp add: recv_sign_in_def flatten cong: if_cong)
next
  case (Sign_Round pl i offset n)
  then show ?thesis
    by (cases n) (simp_all add: flatten cong: if_cong)
next
  case (List_Test pl fd)
  then show ?thesis
    by (cases "sign st") (simp_all add: recv_member_list_def insert_list_def [abs_def] flatten cong: if_cong)
qed (use assms in \<open>simp_all add: insert_list_def [abs_def] flatten cong: if_cong\<close>)


text \<open>All steps of a task, as long as there is fuel.\<close>

fun run_steps :: "nat \<Rightarrow> world \<Rightarrow> point \<Rightarrow> chat_state \<Rightarrow> chat_state result option" where
  "run_steps fuel w Done st = Some (Inr st)"
| "run_steps 0 w c st = None"
| "run_steps (Suc fuel) w c st = bind_c (task_step w c st) (\<lambda>(c', st'). run_steps fuel w c' st')"

lemma run_steps_rest: "rank c \<le> fuel \<Longrightarrow> run_steps fuel w c st = rest w c st"
proof (induction fuel arbitrary: c st)
  case 0
  then show ?case
    by (cases c) simp_all
next
  case (Suc fuel)
  show ?case
  proof (cases "c = Done")
    case False
    have "run_steps fuel w c' st' = rest w c' st'" if "task_step w c st = Some (Inr (c', st'))" for c' st'
      using Suc task_step_rank [OF that False] by simp
    then have "bind_c (task_step w c st) (\<lambda>(c', st'). run_steps fuel w c' st') =
        bind_c (task_step w c st) (\<lambda>(c', st'). rest w c' st')"
      by (cases rule: run_cases [of "task_step w c st"]) auto
    then show ?thesis
      using rest_step [OF False] False by (cases c) simp_all
  qed simp
qed

section \<open>Tasks together\<close>

text \<open>The shared state and the point at which each task is.\<close>

record crowd =
  chat :: chat_state
  points :: "nat \<Rightarrow> point"

definition crowd_step :: "(nat \<Rightarrow> world) \<Rightarrow> nat \<Rightarrow> crowd \<Rightarrow> crowd result option" where
  "crowd_step ws t s =
     bind_c (task_step (ws t) (points s t) (chat s)) (\<lambda>(c, st).
     Some (Inr (s\<lparr>chat := st, points := (points s)(t := c)\<rparr>)))"

text \<open>A run, with the task that makes each step.\<close>

inductive crowd_run :: "(nat \<Rightarrow> world) \<Rightarrow> nat list \<Rightarrow> crowd \<Rightarrow> crowd \<Rightarrow> bool" for ws where
  crowd_refl: "crowd_run ws [] s s"
| crowd_next: "crowd_run ws us s s' \<Longrightarrow> points s' t \<noteq> Done \<Longrightarrow> crowd_step ws t s' = Some (Inr s'') \<Longrightarrow>
    crowd_run ws (us @ [t]) s s''"

lemma crowd_stepE:
  assumes "crowd_step ws t s = Some (Inr s')"
  obtains c st where "task_step (ws t) (points s t) (chat s) = Some (Inr (c, st))"
    "s' = s\<lparr>chat := st, points := (points s)(t := c)\<rparr>"
  using assms by (auto simp: crowd_step_def)

text \<open>The descriptors a task has yet to close.\<close>

fun owed :: "world \<Rightarrow> point \<Rightarrow> int multiset" where
  "owed w (Start j) = serves w j"
| "owed w (Warn wild pck ip fd) = (if ends_exchange (ptyp pck) then {#fd#} else {#})"
| "owed w (Choose wild pck ip fd) = (if ends_exchange (ptyp pck) then {#fd#} else {#})"
| "owed w (List_Test pl fd) = {#fd#}"
| "owed w (List_Flag pl n fd) = {#fd#}"
| "owed w (List_Update pl n fd) = {#fd#}"
| "owed w (List_Insert pl n fd) = {#fd#}"
| "owed w (Clear_Sign fd) = {#fd#}"
| "owed w (Closing fd) = {#fd#}"
| "owed w c = {#}"

lemma keeps_switch:
  assumes "switch_typ wild pck ip fd st = Some (Inr (c', st'))"
  shows "keeps {#} st st' \<and> owed w c' = (if ends_exchange (ptyp pck) then {#fd#} else {#})"
  using assms keeps_recv_quit keeps_say_from
  by (auto simp: switch_typ_def ends_exchange_def packet_types recv_msg_def recv_error_def split: if_splits)

lemma keeps_start:
  assumes "malloc_sane w" "task_step w (Start j) st = Some (Inr (c', st'))"
  shows "\<exists>F. keeps F st st' \<and> serves w j = F + owed w c'"
proof (cases j)
  case (Incoming wild fd ip received)
  have "keeps {#} st st' \<and> serves w j = owed w c'"
    using assms(2) unfolding Incoming
    by (cases received) (auto simp: Let_def split: if_splits)
  then show ?thesis
    by (intro exI [of _ "{#}"]) simp
qed (use assms keeps_run_job [OF assms(1), of j] in \<open>auto intro!: exI [of _ "{#}"]\<close>)

lemma keeps_sign_round:
  assumes "task_step w (Sign_Round pl i offset n) st = Some (Inr (c', st'))"
  shows "keeps {#} st st' \<and> owed w c' = {#}"
  using assms keeps_send_member_list by (cases n) (auto split: if_splits)

lemma keeps_sign_insert:
  assumes "malloc_sane w" "task_step w (Sign_Insert pl i offset n ip mid) st = Some (Inr (c', st'))"
  shows "keeps {#} st st' \<and> owed w c' = {#}"
proof -
  obtain r st1 where "new_member_task w mid ip (st\<lparr>locked := True\<rparr>) = Some (Inr (r, st1))" "st' = mutex_unlock st1"
      "owed w c' = {#}"
    using assms(2) by (auto simp: Let_def mutex_lock_free)
  then show ?thesis
    using keeps_new_member [OF assms(1)] by fastforce
qed

lemma keeps_list_insert:
  assumes "malloc_sane w" "task_step w (List_Insert pl n fd) st = Some (Inr (c', st'))"
  shows "keeps {#} st st' \<and> owed w c' = {#fd#}"
proof -
  obtain st1 where "member_list_loop w pl 0 n (st\<lparr>locked := True\<rparr>) = Some (Inr st1)" "st' = mutex_unlock st1"
      "owed w c' = {#fd#}"
    using assms(2) by (auto simp: mutex_lock_free)
  then show ?thesis
    using keeps_member_list_loop [OF assms(1)] by fastforce
qed

lemma keeps_between:
  assumes "malloc_sane w" "task_step w c st = Some (Inr (c', st'))" "\<nexists>j. c = Start j" "\<nexists>fd. c = Closing fd"
  shows "keeps {#} st st' \<and> owed w c = owed w c'"
proof (cases c)
  case (Choose wild pck ip fd)
  then show ?thesis
    using keeps_switch assms(2) by simp
next
  case (Sign_Round pl i offset n)
  then show ?thesis
    using keeps_sign_round assms(2) by simp
next
  case (Sign_Insert pl i offset n ip mid)
  then show ?thesis
    using keeps_sign_insert [OF assms(1)] assms(2) by simp
next
  case (List_Insert pl n fd)
  then show ?thesis
    using keeps_list_insert [OF assms(1)] assms(2) by simp
qed (use assms keeps_warn_crc keeps_send_update in \<open>auto split: if_splits\<close>)

lemma keeps_step:
  assumes "malloc_sane w" "task_step w c st = Some (Inr (c', st'))"
  shows "\<exists>F. keeps F st st' \<and> owed w c = F + owed w c'"
proof -
  consider j where "c = Start j" | fd where "c = Closing fd" | "\<nexists>j. c = Start j" "\<nexists>fd. c = Closing fd"
    by blast
  then show ?thesis
  proof cases
    case 1
    then show ?thesis
      using keeps_start [OF assms(1)] assms(2) by simp
  next
    case (2 fd)
    then show ?thesis
      using assms(2) keeps_close [of st st fd st'] by (intro exI [of _ "{#fd#}"]) auto
  next
    case 3
    then show ?thesis
      using keeps_between [OF assms] by (intro exI [of _ "{#}"]) simp
  qed
qed

section \<open>Runs of one task\<close>

lemma crowd_run_trans:
  "crowd_run ws vs s' s'' \<Longrightarrow> crowd_run ws us s s' \<Longrightarrow> crowd_run ws (us @ vs) s s''"
  by (induction rule: crowd_run.induct) (auto intro: crowd_run.crowd_next simp flip: append_assoc)

abbreviation at_point :: "crowd \<Rightarrow> nat \<Rightarrow> chat_state \<Rightarrow> point \<Rightarrow> crowd" where
  "at_point s t st c \<equiv> s\<lparr>chat := st, points := (points s)(t := c)\<rparr>"

lemma one_step:
  assumes "task_step (ws t) (points s t) (chat s) = Some (Inr (c, st))" "points s t \<noteq> Done"
  shows "crowd_run ws [t] s (at_point s t st c)"
  using crowd_run.crowd_next [OF crowd_refl [of ws s] assms(2)] assms(1) by (simp add: crowd_step_def)

text \<open>A task that nobody disturbs goes on to its end.\<close>

lemma rest_run:
  assumes "rest (ws t) (points s t) (chat s) = Some (Inr st')"
  shows "\<exists>us. crowd_run ws us s (at_point s t st' Done)"
  using assms
proof (induction "rank (points s t)" arbitrary: s rule: less_induct)
  case less
  show ?case
  proof (cases "points s t = Done")
    case True
    then have "at_point s t st' Done = s"
      using less.prems by (simp add: fun_upd_idem)
    then show ?thesis
      using crowd_refl [of ws s] by auto
  next
    case False
    then obtain c st where step: "task_step (ws t) (points s t) (chat s) = Some (Inr (c, st))"
        and more: "rest (ws t) c st = Some (Inr st')"
      using less.prems rest_step [OF False, of "ws t" "chat s"]
      by (cases "task_step (ws t) (points s t) (chat s)" rule: run_cases) auto
    let ?s = "at_point s t st c"
    obtain us where "crowd_run ws us ?s (at_point ?s t st' Done)"
      using less.hyps [of ?s] task_step_rank [OF step False] more by auto
    then show ?thesis
      using crowd_run_trans [OF _ one_step [of ws t s, OF step False]] by auto
  qed
qed

section \<open>The properties\<close>

lemma sum_move:
  fixes g :: "nat \<Rightarrow> point \<Rightarrow> 'a::comm_monoid_add"
  assumes "finite T" "t \<in> T"
  shows "(\<Sum>u\<in>T. g u ((f(t := c)) u)) = g t c + (\<Sum>u\<in>T - {t}. g u (f u))"
  using assms by (subst sum.remove [of T t]) (auto intro!: arg_cong2 [where f = "(+)"] sum.cong)

text \<open>What one task has made of its own bound does not depend on the steps of the others.\<close>

lemma crowd_run_rank:
  "crowd_run ws us s s' \<Longrightarrow> count_list us t + rank (points s' t) \<le> rank (points s t)"
proof (induction rule: crowd_run.induct)
  case (crowd_next us s s' u s'')
  then obtain c st where "task_step (ws u) (points s' u) (chat s') = Some (Inr (c, st))"
      "s'' = s'\<lparr>chat := st, points := (points s')(u := c)\<rparr>"
    by (auto elim: crowd_stepE)
  then show ?case
    using crowd_next.IH task_step_rank [OF _ crowd_next.hyps(2)] by fastforce
qed simp

lemma crowd_run_keeps:
  assumes "crowd_run ws us s s'" "finite T" "\<forall>t \<in> T. malloc_sane (ws t)" "\<forall>t. t \<notin> T \<longrightarrow> points s t = Done"
  shows "(\<forall>t. t \<notin> T \<longrightarrow> points s' t = Done) \<and>
    (\<exists>F. keeps F (chat s) (chat s') \<and>
      (\<Sum>t\<in>T. owed (ws t) (points s t)) = F + (\<Sum>t\<in>T. owed (ws t) (points s' t)))"
  using assms
proof (induction rule: crowd_run.induct)
  case (crowd_refl s)
  then show ?case
    by (auto intro!: exI [of _ "{#}"])
next
  case (crowd_next us s s' t s'')
  then obtain F where IH: "\<forall>t. t \<notin> T \<longrightarrow> points s' t = Done" "keeps F (chat s) (chat s')"
      "(\<Sum>t\<in>T. owed (ws t) (points s t)) = F + (\<Sum>t\<in>T. owed (ws t) (points s' t))"
    by blast
  have t: "t \<in> T"
    using IH(1) crowd_next.hyps(2) by blast
  obtain c st where step: "task_step (ws t) (points s' t) (chat s') = Some (Inr (c, st))"
      "s'' = s'\<lparr>chat := st, points := (points s')(t := c)\<rparr>"
    using crowd_next.hyps(3) by (rule crowd_stepE)
  obtain G where G: "keeps G (chat s') st" "owed (ws t) (points s' t) = G + owed (ws t) c"
    using keeps_step [OF _ step(1)] crowd_next.prems(2) t by blast
  note moved = sum_move [OF crowd_next.prems(1) t, of "\<lambda>u. owed (ws u)" "points s'"]
  have "(\<Sum>u\<in>T. owed (ws u) (points s' u)) = G + (\<Sum>u\<in>T. owed (ws u) (points s'' u))"
    using moved [of c] moved [of "points s' t"] G(2) by (simp add: step(2) ac_simps)
  then show ?case
    using IH G(1) keeps_trans [of F "chat s" "chat s'" G st] t by (auto simp: step(2) ac_simps)
qed

text \<open>
  Run alone, the steps of a task are what the functions of \<^verbatim>\<open>task.c\<close> compute on every input, faults and
  endless waits included, after at most 520 steps.
\<close>

theorem steps_make_task: "run_steps 520 w (Start j) st = run_job w j st"
  using run_steps_rest [of "Start j" 520] by simp

text \<open>
  C4: Any number of tasks of the user and of the network run at the same time, each in an environment of its own, and
  are interleaved in any way wherever they do not hold the mutex.  At every moment at which none has
  faulted the member list is a well-formed chain that starts with the own entry, with the right counter and
  without duplicates; no task has made more than 520 steps, however many the others have made (a task may also wait
  for ever, for the mutex or for the network); and when all are done, the descriptors closed are those
  they opened and those of the connections served, except that the one of a sign-in or of an unknown packet is
  never closed.
\<close>

theorem interleaved_tasks_keep_peer:
  assumes "crowd_run ws us s s'" "finite T" "\<forall>t \<in> T. malloc_sane (ws t)"
    "points s = (\<lambda>t. if t \<in> T then Start (js t) else Done)"
    "list_repr (roster (chat s)) (me # es)" "roster_ok (me # es)"
  shows "(\<exists>es'. list_repr (roster (chat s')) (me # es') \<and> roster_ok (me # es') \<and>
      List_no_of_members (roster (chat s')) = int (length (me # es'))) \<and>
    (\<forall>t. count_list us t \<le> 520) \<and>
    ((\<forall>t. points s' t = Done) \<longrightarrow>
      (\<exists>new. trace (chat s') = trace (chat s) @ new \<and>
        closed new = opened new + (\<Sum>t\<in>T. serves (ws t) (js t))))"
proof -
  have start: "(\<Sum>t\<in>T. owed (ws t) (points s t)) = (\<Sum>t\<in>T. serves (ws t) (js t))"
    using assms(2) by (simp add: assms(4))
  have bound: "count_list us t \<le> 520" for t
    using crowd_run_rank [OF assms(1), of t] by (simp add: assms(4) split: if_splits)
  obtain F where F: "keeps F (chat s) (chat s')"
      "(\<Sum>t\<in>T. serves (ws t) (js t)) = F + (\<Sum>t\<in>T. owed (ws t) (points s' t))"
    using crowd_run_keeps [OF assms(1-3)] unfolding start by (force simp: assms(4))
  have "peer_ok me (chat s')"
    using F(1) assms(5,6) unfolding keeps_def peer_ok_def by blast
  then obtain es' where "list_repr (roster (chat s')) (me # es')" "roster_ok (me # es')"
    unfolding peer_ok_def by blast
  moreover have "F = (\<Sum>t\<in>T. serves (ws t) (js t))" if "\<forall>t. points s' t = Done"
    using F(2) that by simp
  ultimately show ?thesis
    using F(1) bound list_repr_count [of "roster (chat s')" "me # es'"] unfolding keeps_def by auto
qed

text \<open>
  Eve's task for a message runs between the two steps of a task for a connection on which nothing
  can be read.
\<close>

lemma interleaved_tasks_keep_peer_witness:
  "\<exists>us s. crowd_run (\<lambda>_. calm_world) us \<lparr>chat = peer_eve, points = (\<lambda>t. if t \<in> {0, 1} then Start
      (if t = 0 then Incoming None 4 1 (Some (packet_bytes hello)) else Incoming None 5 1 None) else Done)\<rparr> s \<and>
    points s = (\<lambda>_. Done) \<and> count_list us 0 \<le> 520 \<and> (\<exists>es'. list_repr (roster (chat s)) ((id_of ''eve'', 3) # es')) \<and>
    closed (trace (chat s)) = opened (trace (chat s)) + {#4, 5#}"
proof -
  let ?j = "\<lambda>t::nat. if t = 0 then Incoming None 4 1 (Some (packet_bytes hello)) else Incoming None 5 1 None"
  let ?s0 = "\<lparr>chat = peer_eve, points = (\<lambda>t. if t \<in> {0, 1} then Start (?j t) else Done)\<rparr>"
  let ?ws = "\<lambda>_. calm_world"
  obtain st where st: "run_job calm_world (Incoming None 4 1 (Some (packet_bytes hello))) peer_eve = Some (Inr st)"
    using hello_served by blast
  let ?s1 = "at_point ?s0 1 peer_eve (Closing 5)"
  let ?s2 = "at_point ?s1 0 st Done"
  let ?s3 = "at_point ?s2 1 (logged (Closed 5) st) Done"
  have first: "crowd_run ?ws [1] ?s0 ?s1"
    using one_step [of ?ws 1 ?s0] by simp
  obtain vs where second: "crowd_run ?ws vs ?s1 ?s2"
    using rest_run [of ?ws 0 ?s1 st] st by auto
  have "crowd_run ?ws [1] ?s2 ?s3"
    using one_step [of ?ws 1 ?s2] by (simp add: close_fd_def)
  note all_run = crowd_run_trans [OF this crowd_run_trans [OF second first]]
  obtain us s where run: "crowd_run ?ws us ?s0 s" and ended: "points s = (\<lambda>_. Done)"
    by (rule that, rule all_run) (simp add: fun_eq_iff)
  have silent: "serves calm_world (Incoming None 5 1 None) = {#5#}" "trace peer_eve = []"
    by (simp_all add: peer_eve_def)
  have "(\<Sum>t\<in>{0::nat, 1}. serves calm_world (?j t)) = {#4, 5#}"
    using eve_ok(3) silent(1) by (simp del: serves.simps)
  then have "(\<exists>es'. list_repr (roster (chat s)) ((id_of ''eve'', 3) # es'))" "count_list us 0 \<le> 520"
      "closed (trace (chat s)) = opened (trace (chat s)) + {#4, 5#}"
    using interleaved_tasks_keep_peer [OF run, of "{0, 1}" ?j "(id_of ''eve'', 3)" "[]"] eve_ok(1,2) peer_reprs(2)
      ended silent(2) by (auto simp del: serves.simps)
  then show ?thesis
    using run ended by blast
qed

end
