(* ===== verification/Task_Mutex.thy ===== *)
theory Task_Mutex
  imports Task_Steps
begin

text \<open>
  The mutex of \<^verbatim>\<open>task.c\<close> when tasks run at the same time.  Every task that takes it gives it back, on each of its
  early returns too, with one exception: a sign-out of somebody who is not in the list.
\<close>

section \<open>What leaves the mutex alone\<close>

lemma on_roster_locked: "on_roster f st = Some (Inr (r, st')) \<Longrightarrow> locked st' = locked st"
  by (auto simp: on_roster_def)

lemma new_member_locked: "new_member_task w mid ip st = Some (Inr (r, st')) \<Longrightarrow> locked st' = locked st"
  unfolding new_member_task_def by (rule on_roster_locked)

lemma warn_crc_locked: "warn_crc ip st = Some (Inr st') \<Longrightarrow> locked st' = locked st"
  by (auto simp: warn_crc_def dest: on_roster_locked)

section \<open>What takes it and gives it back\<close>

definition borrows :: "chat_state \<Rightarrow> chat_state \<Rightarrow> bool" where
  "borrows st st' \<longleftrightarrow> \<not> locked st \<and> \<not> locked st'"

lemma borrows_broadcast: "broadcast w packet st = Some (Inr st') \<Longrightarrow> borrows st st'"
  by (auto simp: broadcast_def borrows_def mutex_lock_free Let_def split: if_splits option.splits)

lemma borrows_send_update: "send_update w pl st = Some (Inr st') \<Longrightarrow> borrows st st'"
  by (auto simp: send_update_def Let_def intro: borrows_broadcast)

lemma borrows_send_quit: "send_quit w st = Some (Inr st') \<Longrightarrow> borrows st st'"
  by (auto simp: send_quit_def Let_def split: if_splits option.splits intro: borrows_broadcast)

lemma borrows_send_sign_in: "send_sign_in w ip st = Some (Inr st') \<Longrightarrow> borrows st st'"
  by (auto simp: send_sign_in_def borrows_def mutex_lock_free split: prod.splits if_splits)

lemma borrows_send_member_list: "send_member_list w ip st = Some (Inr st') \<Longrightarrow> borrows st st'"
  by (auto simp: send_member_list_def borrows_def mutex_lock_free split: prod.splits if_splits)

lemma borrows_send_msg: "send_msg w buffer st = Some (Inr st') \<Longrightarrow> borrows st st'"
  by (erule send_msg_runs) (auto simp: borrows_def)

lemma borrows_say_from: "say_from msg ip st = Some (Inr (r, st')) \<Longrightarrow> borrows st st'"
  by (auto simp: say_from_def borrows_def mutex_lock_free Let_def)

lemma member_list_loop_locked:
  "member_list_loop w pl offset n st = Some (Inr st') \<Longrightarrow> locked st' = locked st"
proof (induction n arbitrary: offset st)
  case (Suc n)
  then show ?case
    using new_member_locked by (fastforce dest: new_member_locked)
qed simp

text \<open>\<open>recv_quit\<close> keeps it when \<open>List_delete_member\<close> has found nobody.\<close>

lemma recv_quit_keeps:
  assumes "recv_quit wild id_f n st = Some (Inr (r, st'))"
  shows "\<not> locked st" "locked st' \<Longrightarrow> \<exists>mid r'. List_delete_member mid (roster st) = Some (Inr (r', roster st')) \<and> r' \<noteq> 0"
proof -
  obtain dst mid name where "wild = Some dst" "strncpy_bytes dst id_f (unat n) = Inr mid" "print_str mid = Inr name"
    using assms by (auto simp: recv_quit_def split: option.splits)
  moreover from this obtain r' l where "List_delete_member mid (roster st) = Some (Inr (r', l))" "\<not> locked st"
    using assms by (auto simp: recv_quit_def mutex_lock_free on_roster_def logged_def Let_def)
  ultimately show "\<not> locked st" "locked st' \<Longrightarrow> \<exists>mid r'. List_delete_member mid (roster st) = Some (Inr (r', roster st')) \<and> r' \<noteq> 0"
    using assms
    by (auto simp: recv_quit_def mutex_lock_free on_roster_def logged_def Let_def intro!: exI [of _ mid] split: if_splits)
qed

section \<open>Who needs the mutex\<close>

text \<open>The packet a job has received, if any.\<close>

fun packet_of :: "world \<Rightarrow> job \<Rightarrow> packet option" where
  "packet_of w (Incoming wild fd ip (Some bytes)) =
     (if bytes = [] then None else Some (packet_at (bytes @ drop (length bytes) (packet_bytes (stack_packet w)))))"
| "packet_of w j = None"

text \<open>Every packet of a known type does, except a sign-in that announces no member.\<close>

definition works_on_list :: "packet \<Rightarrow> bool" where
  "works_on_list p \<longleftrightarrow> ends_exchange (ptyp p) \<or> ptyp p = SIGN_IN \<and> load (payload p) 0 \<noteq> Inr 0"

fun needs_mutex :: "world \<Rightarrow> point \<Rightarrow> bool" where
  "needs_mutex w (Start (Incoming wild fd ip received)) \<longleftrightarrow>
     (case packet_of w (Incoming wild fd ip received) of None \<Rightarrow> False | Some p \<Rightarrow> works_on_list p)"
| "needs_mutex w (Start j) \<longleftrightarrow> True"
| "needs_mutex w (Warn wild p ip fd) \<longleftrightarrow> works_on_list p"
| "needs_mutex w (Choose wild p ip fd) \<longleftrightarrow> works_on_list p"
| "needs_mutex w (Sign_Test pl) \<longleftrightarrow> load pl 0 \<noteq> Inr 0"
| "needs_mutex w (Sign_Round pl i offset n) \<longleftrightarrow> n \<noteq> 0"
| "needs_mutex w (Clear_Sign fd) \<longleftrightarrow> False"
| "needs_mutex w (Closing fd) \<longleftrightarrow> False"
| "needs_mutex w Done \<longleftrightarrow> False"
| "needs_mutex w c \<longleftrightarrow> True"

section \<open>One step\<close>

lemma choose_mutex:
  assumes "task_step w (Choose wild p ip fd) st = Some (Inr (c', st'))"
  shows "locked st \<Longrightarrow> locked st' \<and> (works_on_list p \<longrightarrow> needs_mutex w c')"
    "\<not> locked st \<Longrightarrow> locked st' \<Longrightarrow> ptyp p = SIGN_OUT \<and>
      (\<exists>mid r. List_delete_member mid (roster st) = Some (Inr (r, roster st')) \<and> r \<noteq> 0)"
  using assms
  by (auto simp: switch_typ_def works_on_list_def ends_exchange_def packet_types recv_msg_def recv_error_def
      borrows_def split: if_splits dest: recv_quit_keeps borrows_say_from)

lemma job_mutex:
  assumes "task_step w (Start j) st = Some (Inr (c', st'))"
  shows "locked st' = locked st" "locked st \<Longrightarrow> needs_mutex w (Start j) \<Longrightarrow> needs_mutex w c'"
proof -
  have "locked st' = locked st \<and> (locked st \<longrightarrow> needs_mutex w (Start j) \<longrightarrow> needs_mutex w c')"
  proof (cases j)
    case (Incoming wild fd ip received)
    then show ?thesis
      using assms by (cases received) (auto simp: Let_def split: if_splits)
  qed (use assms borrows_send_sign_in borrows_send_quit borrows_send_msg in \<open>auto simp: borrows_def\<close>)
  then show "locked st' = locked st" "locked st \<Longrightarrow> needs_mutex w (Start j) \<Longrightarrow> needs_mutex w c'"
    by blast+
qed

lemma sign_round_mutex:
  assumes "task_step w (Sign_Round pl i offset n) st = Some (Inr (c', st'))"
  shows "locked st' = locked st" "n \<noteq> 0 \<Longrightarrow> needs_mutex w c'"
  using assms borrows_send_member_list
  by (cases n; auto simp: borrows_def split: if_splits)+

text \<open>Once the mutex is lost, a task that needs it still needs it after every step it can make.\<close>

lemma locked_step:
  assumes "task_step w c st = Some (Inr (c', st'))" "locked st"
  shows "locked st' \<and> (needs_mutex w c \<longrightarrow> needs_mutex w c')"
proof (cases c)
  case (Start j)
  then show ?thesis
    using assms job_mutex by blast
next
  case (Choose wild p ip fd)
  then show ?thesis
    using assms choose_mutex(1) by simp
next
  case (Sign_Round pl i offset n)
  note step = assms(1) [unfolded Sign_Round]
  show ?thesis
    using sign_round_mutex [OF step] assms(2) by (simp add: Sign_Round)
next
  case (Sign_Insert pl i offset n ip mid)
  then show ?thesis
    using assms by (simp add: mutex_lock_def)
next
  case (List_Insert pl n fd)
  then show ?thesis
    using assms by (simp add: mutex_lock_def)
next
  case (Sign_Test pl)
  then show ?thesis
    using assms by (cases "load pl 0") (auto simp: unat_eq_0 split: if_splits)
qed (use assms warn_crc_locked borrows_send_update in \<open>auto simp: borrows_def close_fd_def split: if_splits\<close>)

text \<open>Only a sign-out of somebody unknown loses it.\<close>

definition loses_mutex :: "point \<Rightarrow> chat_state \<Rightarrow> chat_state \<Rightarrow> bool" where
  "loses_mutex c st st' \<longleftrightarrow> (\<exists>wild p ip fd mid r. c = Choose wild p ip fd \<and> ptyp p = SIGN_OUT \<and>
     List_delete_member mid (roster st) = Some (Inr (r, roster st')) \<and> r \<noteq> 0)"

lemma free_step:
  assumes "task_step w c st = Some (Inr (c', st'))" "\<not> locked st" "locked st'"
  shows "loses_mutex c st st'"
proof (cases c)
  case (Start j)
  then show ?thesis
    using assms job_mutex(1) by blast
next
  case (Choose wild p ip fd)
  then show ?thesis
    using assms choose_mutex(2) by (simp add: loses_mutex_def)
next
  case (Sign_Round pl i offset n)
  note step = assms(1) [unfolded Sign_Round]
  show ?thesis
    using sign_round_mutex(1) [OF step] assms(2,3) by simp
next
  case (Sign_Insert pl i offset n ip mid)
  then show ?thesis
    using assms by (auto simp: Let_def)
next
  case (List_Insert pl n fd)
  then show ?thesis
    using assms by auto
qed (use assms warn_crc_locked borrows_send_update in \<open>auto simp: borrows_def close_fd_def split: if_splits\<close>)

section \<open>Runs\<close>

lemma crowd_locked:
  "crowd_run ws us s s' \<Longrightarrow> locked (chat s) \<Longrightarrow>
   locked (chat s') \<and> (\<forall>t. needs_mutex (ws t) (points s t) \<longrightarrow> needs_mutex (ws t) (points s' t))"
proof (induction rule: crowd_run.induct)
  case (crowd_next us s s' u s'')
  then obtain c st where "task_step (ws u) (points s' u) (chat s') = Some (Inr (c, st))"
      "s'' = s'\<lparr>chat := st, points := (points s')(u := c)\<rparr>"
    by (auto elim: crowd_stepE)
  then show ?case
    using crowd_next.IH crowd_next.prems locked_step by fastforce
qed simp

lemma crowd_loses:
  assumes "crowd_run ws us s s'" "\<not> locked (chat s)" "locked (chat s')"
  shows "\<exists>xs t ys s1 s2. us = xs @ t # ys \<and> crowd_run ws xs s s1 \<and> \<not> locked (chat s1) \<and>
    crowd_step ws t s1 = Some (Inr s2) \<and> loses_mutex (points s1 t) (chat s1) (chat s2) \<and> crowd_run ws ys s2 s'"
  using assms
proof (induction rule: crowd_run.induct)
  case (crowd_next us s s' u s'')
  show ?case
  proof (cases "locked (chat s')")
    case True
    then obtain xs t ys s1 s2 where "us = xs @ t # ys" "crowd_run ws xs s s1" "\<not> locked (chat s1)"
        "crowd_step ws t s1 = Some (Inr s2)" "loses_mutex (points s1 t) (chat s1) (chat s2)" "crowd_run ws ys s2 s'"
      using crowd_next.IH crowd_next.prems(1) by blast
    moreover from this(6) have "crowd_run ws (ys @ [u]) s2 s''"
      using crowd_next.hyps(2,3) by (rule crowd_run.crowd_next)
    ultimately show ?thesis
      by (intro exI [of _ xs] exI [of _ t] exI [of _ "ys @ [u]"] exI [of _ s1] exI [of _ s2]) simp
  next
    case False
    obtain c st where "task_step (ws u) (points s' u) (chat s') = Some (Inr (c, st))"
        "s'' = s'\<lparr>chat := st, points := (points s')(u := c)\<rparr>"
      using crowd_next.hyps(3) by (rule crowd_stepE)
    then have "loses_mutex (points s' u) (chat s') (chat s'')"
      using free_step [OF _ False] crowd_next.prems(2) by simp
    then show ?thesis
      using crowd_next.hyps False crowd_refl by (intro exI [of _ us] exI [of _ u] exI [of _ "[]"]) blast
  qed
qed simp

section \<open>The property\<close>

text \<open>
  C5: Tasks run at the same time, interleaved in any way, and the mutex is free at first.  If it is ever locked while
  no task is inside a section, then one of the steps was a sign-out, and \<open>List_delete_member\<close> found
  nobody in it.  From then on the mutex is never given back, whatever tasks go on or start: a task that has yet
  to work on the list under the mutex (all that the user starts, and all packets of a known type, a sign-in with
  at least one member included) never ends.
\<close>

theorem mutex_lost_by_quit:
  assumes "crowd_run ws us s s'" "\<not> locked (chat s)" "locked (chat s')"
  shows "(\<exists>xs t ys s1 s2 wild p ip fd mid r. us = xs @ t # ys \<and> crowd_run ws xs s s1 \<and> \<not> locked (chat s1) \<and>
      points s1 t = Choose wild p ip fd \<and> ptyp p = SIGN_OUT \<and>
      List_delete_member mid (roster (chat s1)) = Some (Inr (r, roster (chat s2))) \<and> r \<noteq> 0 \<and>
      crowd_step ws t s1 = Some (Inr s2) \<and> crowd_run ws ys s2 s') \<and>
    (\<forall>vs s'' t. crowd_run ws vs s' s'' \<longrightarrow> locked (chat s'') \<and>
      (needs_mutex (ws t) (points s' t) \<longrightarrow> points s'' t \<noteq> Done))"
proof (intro conjI allI impI)
  show "\<exists>xs t ys s1 s2 wild p ip fd mid r. us = xs @ t # ys \<and> crowd_run ws xs s s1 \<and> \<not> locked (chat s1) \<and>
      points s1 t = Choose wild p ip fd \<and> ptyp p = SIGN_OUT \<and>
      List_delete_member mid (roster (chat s1)) = Some (Inr (r, roster (chat s2))) \<and> r \<noteq> 0 \<and>
      crowd_step ws t s1 = Some (Inr s2) \<and> crowd_run ws ys s2 s'"
    using crowd_loses [OF assms] unfolding loses_mutex_def by blast
  fix vs s'' t
  assume run: "crowd_run ws vs s' s''"
  show "locked (chat s'')"
    using crowd_locked [OF run assms(3)] by blast
  assume "needs_mutex (ws t) (points s' t)"
  then have "needs_mutex (ws t) (points s'' t)"
    using crowd_locked [OF run assms(3)] by blast
  then show "points s'' t \<noteq> Done"
    by auto
qed

text \<open>Bob, whom Eve does not know, signs out; after that Eve can no longer write to anybody.\<close>

definition stranger_quits :: packet where
  "stranger_quits = \<lparr>version = 1, ptyp = SIGN_OUT, plength = htons 4, pcrc = 0,
     payload = id_of ''bob'' @ replicate 384 0\<rparr>"

definition farewell :: job where
  "farewell = Incoming (Some (replicate 16 0)) 4 1 (Some (packet_bytes stranger_quits))"

lemma farewell_locks: "\<exists>st. run_job calm_world farewell peer_eve = Some (Inr st) \<and> locked st"
proof -
  have id: "id_of ''bob'' = bytes_of ''bob'' @ 0 # replicate 12 0"
    by (simp add: id_of_def bytes_of_def eval_nat_numeral)
  have "cstr (payload stranger_quits) = bytes_of ''bob''"
    using cstr_string [of "bytes_of ''bob''" "replicate 12 0 @ replicate 384 0"]
    by (simp add: stranger_quits_def id bytes_of_def)
  then have "strncpy_bytes (replicate 16 0) (payload stranger_quits) (unat (ntohs (plength stranger_quits))) =
      Inr (id_of ''bob'')"
    by (simp add: strncpy_bytes_def stranger_quits_def ntohs_htons id) (simp add: bytes_of_def eval_nat_numeral)
  moreover obtain l where "List_delete_member (id_of ''bob'') (roster peer_eve) = Some (Inr (-1, l))"
    using List_delete_member_cases [OF peer_reprs(2), of "id_of ''bob''"] by (simp add: spec_known_def)
  moreover have "\<not> locked peer_eve"
    by (simp add: peer_eve_def)
  ultimately have "recv_quit (Some (replicate 16 0)) (payload stranger_quits) (ntohs (plength stranger_quits)) peer_eve =
      Some (Inr (-1, (logged (Said (0x40 # bytes_of ''bob'' @ bytes_of '': quit'' @ [0x0A])) peer_eve)
        \<lparr>locked := True, roster := l\<rparr>))"
    by (simp add: recv_quit_def print_str_def mutex_lock_def on_roster_def logged_def)
  then have "\<exists>st. dispatch calm_world (Some (replicate 16 0)) stranger_quits 1 4 peer_eve = Some (Inr st) \<and> locked st"
    by (auto simp: dispatch_def packet_types close_fd_def stranger_quits_def)
  moreover have "recv_from_client calm_world (Some (replicate 16 0)) 4 1 (Some (packet_bytes stranger_quits)) peer_eve =
      dispatch calm_world (Some (replicate 16 0)) stranger_quits 1 4 peer_eve"
    by (rule recv_from_client_dispatches [OF peer_reprs(2) _ peer_eve_ids _ _ calm_world_ok(1)])
      (simp_all add: stranger_quits_def PAYLOAD_SIZE_def ntohs_htons)
  ultimately show ?thesis
    by (auto simp: farewell_def)
qed

lemma mutex_lost_by_quit_witness:
  "\<exists>us s. crowd_run (\<lambda>_. calm_world) us
      \<lparr>chat = peer_eve, points = (\<lambda>_. Done)(0 := Start farewell, 1 := Start (Message (bytes_of ''@ann hi'')))\<rparr> s \<and>
    points s 0 = Done \<and> locked (chat s) \<and>
    (\<nexists>vs s'. crowd_run (\<lambda>_. calm_world) vs s s' \<and> points s' 1 = Done)"
proof -
  let ?s0 = "\<lparr>chat = peer_eve, points = (\<lambda>_. Done)(0 := Start farewell, 1 := Start (Message (bytes_of ''@ann hi'')))\<rparr>"
  obtain st where st: "run_job calm_world farewell peer_eve = Some (Inr st)" "locked st"
    using farewell_locks by blast
  let ?s1 = "at_point ?s0 0 st Done"
  obtain us where run: "crowd_run (\<lambda>_. calm_world) us ?s0 ?s1"
    using rest_run [of "\<lambda>_. calm_world" 0 ?s0 st] st(1) by auto
  have "needs_mutex calm_world (points ?s1 1)" "\<not> locked (chat ?s0)" "locked (chat ?s1)"
    using st(2) by (simp_all add: peer_eve_def)
  then have "\<nexists>vs s'. crowd_run (\<lambda>_. calm_world) vs ?s1 s' \<and> points s' 1 = Done"
    using mutex_lost_by_quit [OF run] by blast
  then show ?thesis
    using run st(2) by (intro exI [of _ us] exI [of _ ?s1]) simp
qed

end
