(* ===== verification/Sign_In_Race.thy ===== *)
theory Sign_In_Race
  imports Task_Steps
begin

text \<open>
  Newcomers sign in to one peer at the same time.  \<open>recv_sign_in\<close> asks without the mutex how many members there are
  (\<^verbatim>\<open>task.c\<close>, line 484), and the answer may be out of date when it is used.
\<close>

section \<open>Before the first round\<close>



section \<open>The newcomers\<close>







section \<open>One step of a newcomer's task\<close>




section \<open>All newcomers together\<close>

















section \<open>The property\<close>








end
