(* ===== verification/Roster_Race.thy ===== *)
theory Roster_Race
  imports Task_Invariant
begin

text \<open>
  The member list under concurrent tasks.  A search walks the list cell by cell, and other threads run
  in between; insertions and deletions are made under the mutex of \<^verbatim>\<open>task.c\<close>.  Most searches of the
  program take the mutex as well, but the one that warns of a false checksum
  (\<^verbatim>\<open>task.c\<close>, line 683) does not.
\<close>

section \<open>A search in steps\<close>

text \<open>\<open>List_search_member_ip\<close>: before the test of a cell, before \<open>search = *p\<close>, and done.\<close>

datatype walk =
    At nat
  | Copy nat
  | Result member

fun walk_step :: "u32 \<Rightarrow> member_heap \<Rightarrow> walk \<Rightarrow> walk result" where
  "walk_step ip h (At p) =
     (if p = 0 then Inr (Result member_zero)
      else case h p of
        None \<Rightarrow> Inl Use_After_Free
      | Some m \<Rightarrow> Inr (if m_ip m = ip then Copy p else At (m_next m)))"
| "walk_step ip h (Copy p) =
     (case h p of None \<Rightarrow> Inl Use_After_Free | Some m \<Rightarrow> Inr (Result m))"
| "walk_step ip h (Result m) = Inr (Result m)"

definition start_search :: "list_state \<Rightarrow> walk \<times> list_state" where
  "start_search l =
     (if list_ptr l = 0 then (Result member_zero, l\<lparr>errno := EADDRNOTAVAIL\<rparr>)
      else (At (list_ptr l), l))"

section \<open>The threads\<close>

datatype roster_op =
    Search u32
  | Search_Unlocked u32
  | New_Member "u8 list" u32
  | Delete_Member "u8 list"

text \<open>\<open>Kept\<close> is a thread that has returned and left the mutex locked.\<close>

datatype rpc =
    Ready roster_op
  | Entered roster_op
  | Walking bool u32 walk
  | Leaving
  | Kept
  | Finished

record race_state =
  shared :: list_state
  lock_owner :: "nat option"
  rpcs :: "nat \<Rightarrow> rpc"

definition move :: "nat \<Rightarrow> rpc \<Rightarrow> race_state \<Rightarrow> race_state" where
  "move t c s = s\<lparr>rpcs := (rpcs s)(t := c)\<rparr>"

fun takes_mutex :: "roster_op \<Rightarrow> bool" where
  "takes_mutex (Search_Unlocked ip) \<longleftrightarrow> False"
| "takes_mutex op \<longleftrightarrow> True"

text \<open>
  An operation under the mutex is that of \<open>recv_msg\<close> (the search), of \<open>recv_sign_in\<close> (the insertion) or of \<open>recv_quit\<close>
  (the deletion); \<open>recv_quit\<close> returns without unlocking when \<open>List_delete_member\<close> has found nobody.
\<close>

inductive race_step :: "nat \<Rightarrow> race_state \<Rightarrow> race_state result \<Rightarrow> bool" for t s where
  acquire: "rpcs s t = Ready op \<Longrightarrow> takes_mutex op \<Longrightarrow> lock_owner s = None \<Longrightarrow>
    race_step t s (Inr (move t (Entered op) (s\<lparr>lock_owner := Some t\<rparr>)))"
| search_unlocked: "rpcs s t = Ready (Search_Unlocked ip) \<Longrightarrow> start_search (shared s) = (w, l) \<Longrightarrow>
    race_step t s (Inr (move t (Walking False ip w) (s\<lparr>shared := l\<rparr>)))"
| search: "rpcs s t = Entered (Search ip) \<Longrightarrow> start_search (shared s) = (w, l) \<Longrightarrow>
    race_step t s (Inr (move t (Walking True ip w) (s\<lparr>shared := l\<rparr>)))"
| new_member: "rpcs s t = Entered (New_Member mid ip) \<Longrightarrow> p = 0 \<or> list_fresh (shared s) p \<Longrightarrow>
    List_new_member mid ip p (shared s) = Some (Inr (r, l)) \<Longrightarrow>
    race_step t s (Inr (move t Leaving (s\<lparr>shared := l\<rparr>)))"
| new_member_fault: "rpcs s t = Entered (New_Member mid ip) \<Longrightarrow> p = 0 \<or> list_fresh (shared s) p \<Longrightarrow>
    List_new_member mid ip p (shared s) = Some (Inl e) \<Longrightarrow> race_step t s (Inl e)"
| delete_member: "rpcs s t = Entered (Delete_Member mid) \<Longrightarrow>
    List_delete_member mid (shared s) = Some (Inr (r, l)) \<Longrightarrow> r = 0 \<Longrightarrow>
    race_step t s (Inr (move t Leaving (s\<lparr>shared := l\<rparr>)))"
| delete_nobody: "rpcs s t = Entered (Delete_Member mid) \<Longrightarrow>
    List_delete_member mid (shared s) = Some (Inr (r, l)) \<Longrightarrow> r \<noteq> 0 \<Longrightarrow>
    race_step t s (Inr (move t Kept (s\<lparr>shared := l\<rparr>)))"
| delete_member_fault: "rpcs s t = Entered (Delete_Member mid) \<Longrightarrow>
    List_delete_member mid (shared s) = Some (Inl e) \<Longrightarrow> race_step t s (Inl e)"
| walk: "rpcs s t = Walking b ip w \<Longrightarrow> \<forall>m. w \<noteq> Result m \<Longrightarrow> walk_step ip (heap (shared s)) w = Inr w' \<Longrightarrow>
    race_step t s (Inr (move t (Walking b ip w') s))"
| walk_fault: "rpcs s t = Walking b ip w \<Longrightarrow> walk_step ip (heap (shared s)) w = Inl e \<Longrightarrow>
    race_step t s (Inl e)"
| walked: "rpcs s t = Walking b ip (Result m) \<Longrightarrow>
    race_step t s (Inr (move t (if b then Leaving else Finished) s))"
| leave: "rpcs s t = Leaving \<Longrightarrow> race_step t s (Inr (move t Finished (s\<lparr>lock_owner := None\<rparr>)))"

inductive race_run :: "race_state \<Rightarrow> race_state \<Rightarrow> bool" where
  race_refl: "race_run s s"
| race_next: "race_run s s' \<Longrightarrow> race_step t s' (Inr s'') \<Longrightarrow> race_run s s''"

inductive_cases race_stepE: "race_step t s (Inr s')"
inductive_simps race_fault: "race_step t s (Inl e)"

lemma move_simps [simp]:
  "rpcs (move t c s) = (rpcs s)(t := c)" "shared (move t c s) = shared s" "lock_owner (move t c s) = lock_owner s"
  by (simp_all add: move_def)

lemma race_run_trans: "race_run s' s'' \<Longrightarrow> race_run s s' \<Longrightarrow> race_run s s''"
  by (induction rule: race_run.induct) (auto intro: race_next)

section \<open>Under the mutex\<close>






















section \<open>Without the mutex\<close>

lemma walk_to_last:
  assumes "path (heap (shared s)) p (xs @ [z])" "\<forall>x \<in> set xs. snd (entry_at (heap (shared s)) x) \<noteq> ip"
    "rpcs s t = Walking b ip (At p)"
  shows "race_run s (move t (Walking b ip (At z)) s)"
  using assms
proof (induction xs arbitrary: p s)
  case Nil
  then have "p = z"
    by (auto split: option.splits)
  then have "move t (Walking b ip (At z)) s = s"
    using Nil.prems(3) by (simp add: move_def fun_upd_idem)
  then show ?case
    by (simp add: race_refl)
next
  case (Cons x xs)
  obtain m where m: "heap (shared s) x = Some m" "path (heap (shared s)) (m_next m) (xs @ [z])" "p = x" "x \<noteq> 0"
    using Cons.prems(1) unfolding append_Cons by (rule path_Cons_E)
  let ?s = "move t (Walking b ip (At (m_next m))) s"
  have "walk_step ip (heap (shared s)) (At p) = Inr (At (m_next m))"
    using m Cons.prems(2) by (auto simp: entry_at_def)
  then have first: "race_run s ?s"
    using Cons.prems(3) race_next [OF race_refl race_step.walk] by auto
  have "race_run ?s (move t (Walking b ip (At z)) ?s)"
    using Cons.IH [of ?s "m_next m"] m(2) Cons.prems(2) by simp
  then have "race_run s (move t (Walking b ip (At z)) ?s)"
    using race_run_trans first by blast
  then show ?case
    by (simp add: move_def)
qed

lemma delete_last_frees:
  assumes "represents l (xs @ [z]) es" "roster_ok es" "xs \<noteq> []"
  shows "\<exists>l'. List_delete_member (fst (last es)) l = Some (Inr (0, l')) \<and> heap l' z = None"
proof -
  let ?as = "xs @ [z]" and ?mid = "fst (last es)"
  let ?P = "\<lambda>e. cstr (fst e) = cstr ?mid"
  have l: "path (heap l) (list_ptr l) ?as" "es = map (entry_at (heap l)) ?as" "\<forall>e \<in> set es. length (fst e) = 16"
    using assms(1) by (simp_all add: represents_def)
  have last: "last es = entry_at (heap l) z"
    unfolding l(2) by simp
  have mid: "length ?mid = 16"
    using l(2,3) last by simp
  have test: "strncmp_eq 16 (m_id m) ?mid = Inr (?P (entry_at (heap l) a))"
    if "a \<in> set ?as" "heap l a = Some m" for a m
  proof -
    have "length (m_id m) = 16"
      using that l(2,3) by (auto simp: entry_at_def)
    then show ?thesis
      using mid that(2) by (simp add: strncmp_eq_cstr entry_at_def)
  qed
  have ptr: "list_ptr l \<noteq> 0"
    using l(1) assms(3) by (cases xs) auto
  let ?run = "prev_loop (\<lambda>n. strncmp_eq 16 (m_id n) ?mid) (heap l) (list_ptr l)"
  have z: "?P (entry_at (heap l) z)" "z \<in> set (drop 1 ?as)"
    using last assms(3) by (cases xs; simp)+
  from prev_loop_path [OF l(1), of "\<lambda>n. strncmp_eq 16 (m_id n) ?mid" ?P, OF _ test]
  consider (none) "\<forall>x \<in> set (drop 1 ?as). \<not> ?P (entry_at (heap l) x)"
    | (some) ys a d zs where "?as = ys @ a # d # zs" "?run = Some (Inr (a, d))" "?P (entry_at (heap l) d)"
    by blast
  then obtain ys a d zs where found: "?as = ys @ a # d # zs" "?P (entry_at (heap l) d)" "?run = Some (Inr (a, d))"
    using z by cases blast+
  have inj: "inj_on (\<lambda>x. cstr (fst (entry_at (heap l) x))) (set ?as)"
    using assms(2) unfolding l(2) by (auto simp: roster_ok_def distinct_map comp_def)
  have "d \<in> set ?as"
    by (simp only: found(1)) simp
  moreover have "z \<in> set ?as"
    by simp
  ultimately have "d = z"
    using inj_onD [OF inj, of d z] found(2) unfolding last by blast
  moreover obtain m n where "heap l a = Some m" "heap l d = Some n" "d \<noteq> 0"
    using path_nonnull [OF l(1), of a] path_nonnull [OF l(1), of d] found(1) by auto
  ultimately show ?thesis
    using found(3) ptr by (simp add: List_delete_member_def)
qed

text \<open>
  C9: A search that does not take the mutex can use a member that another thread has just freed, although
  that thread holds the mutex: in every list with two members or more, and whatever address
  is searched for that is not in it.
\<close>

theorem unlocked_search_faults:
  assumes "list_repr (shared s) es" "roster_ok es" "2 \<le> length es" "ip \<notin> snd ` set es" "lock_owner s = None"
    "rpcs s t = Ready (Search_Unlocked ip)" "rpcs s u = Ready (Delete_Member (fst (last es)))"
  shows "\<exists>s'. race_run s s' \<and> race_step t s' (Inl Use_After_Free)"
proof -
  obtain as where as: "represents (shared s) as es"
    using assms(1) by (auto simp: list_repr_def)
  then have "length as = length es"
    by (simp add: represents_def)
  then obtain xs z where "as = xs @ [z]"
    using assms(3) by (cases as rule: rev_cases) auto
  with \<open>length as = length es\<close> have xs: "as = xs @ [z]" "xs \<noteq> []"
    using assms(3) by auto
  have l: "path (heap (shared s)) (list_ptr (shared s)) (xs @ [z])" "es = map (entry_at (heap (shared s))) (xs @ [z])"
    using as xs(1) by (simp_all add: represents_def)
  have ptr: "list_ptr (shared s) \<noteq> 0"
    using l(1) xs(2) by (cases xs) auto
  obtain l' where del: "List_delete_member (fst (last es)) (shared s) = Some (Inr (0, l'))" "heap l' z = None"
    using delete_last_frees [of "shared s" xs z es] as xs assms(2) by auto
  have "t \<noteq> u"
    using assms(6,7) by auto
  let ?s1 = "move t (Walking False ip (At (list_ptr (shared s)))) s"
  let ?s2 = "move t (Walking False ip (At z)) ?s1"
  let ?s3 = "move u (Entered (Delete_Member (fst (last es)))) (?s2\<lparr>lock_owner := Some u\<rparr>)"
  let ?s4 = "move u Leaving (?s3\<lparr>shared := l'\<rparr>)"
  have s1: "race_step t s (Inr ?s1)"
    using race_step.search_unlocked [of s t ip "At (list_ptr (shared s))" "shared s"] assms(6) ptr
    by (simp add: start_search_def)
  have s2: "race_run ?s1 ?s2"
    using walk_to_last [of ?s1 "list_ptr (shared s)" xs z ip t False] l assms(4) by auto
  have s3: "race_step u ?s2 (Inr ?s3)"
    using race_step.acquire [of ?s2 u "Delete_Member (fst (last es))"] assms(5,7) \<open>t \<noteq> u\<close> by simp
  have s4: "race_step u ?s3 (Inr ?s4)"
    using race_step.delete_member [of ?s3 u "fst (last es)" 0 l'] del(1) by simp
  have "race_run s ?s4"
    using race_run_trans [OF race_next [OF race_next [OF s2 s3] s4] race_next [OF race_refl s1]] .
  moreover have "z \<noteq> 0"
    using path_nonnull [OF l(1), of z] by simp
  then have "race_step t ?s4 (Inl Use_After_Free)"
    using race_step.walk_fault [of ?s4 t False ip "At z"] del(2) \<open>t \<noteq> u\<close> by simp
  ultimately show ?thesis
    by blast
qed

text \<open>Two threads on the list of Ann and Bob.\<close>

definition two_threads :: "roster_op \<Rightarrow> race_state" where
  "two_threads op = \<lparr>shared = two_members, lock_owner = None,
     rpcs = (\<lambda>_. Finished)(0 := Ready op, 1 := Ready (Delete_Member (id_of ''bob'')))\<rparr>"

lemma two_threads_ok: "roster_ok [(id_of ''ann'', 1), (id_of ''bob'', 2)]"
  by (simp add: roster_ok_def)





lemma unlocked_search_faults_witness:
  "\<exists>s. race_run (two_threads (Search_Unlocked 7)) s \<and> race_step 0 s (Inl Use_After_Free)"
  using unlocked_search_faults [of "two_threads (Search_Unlocked 7)" "[(id_of ''ann'', 1), (id_of ''bob'', 2)]" 7 0 1]
    two_members_repr two_threads_ok by (simp add: two_threads_def)

end
