(* ===== verification/Thread_Pool.thy ===== *)
theory Thread_Pool
  imports Prelude
begin

text \<open>
  \<^verbatim>\<open>Chat/src/thpool.c\<close> and \<^verbatim>\<open>thpool.h\<close>, the operations as one thread runs them: the pool's block of
  memory, the queue of tasks as a chain of heap cells, and what the calls of the thread library
  return.  The interleaving of the threads is in \<open>Pool_Machine\<close>, which uses the same
  functions on the queue.
\<close>

section \<open>State\<close>

definition NUM_THREADS :: nat where "NUM_THREADS = 3"

text \<open>A function is known by its address, an argument by the address of its block.\<close>

record task_t =
  routine_for_task :: nat
  arg :: nat
  next_task :: nat

type_synonym task_heap = "nat \<Rightarrow> task_t option"

text \<open>
  \<open>threads\<close> is \<open>NULL\<close> (\<open>None\<close>) or an array of which some entries have been written.  A mutex or a
  condition variable may be used once it has been initialised.
\<close>

record threadpool =
  mutex_ready :: bool
  threads :: "(nat \<Rightarrow> nat option) option"
  cond_ready :: bool
  pcounter :: int
  tasks :: nat

record pool_mem =
  pools :: "nat \<Rightarrow> threadpool option"
  cells :: task_heap
  perrno :: int

text \<open>What the calls return: \<open>malloc\<close> of the pool and of the array, the results of the thread
  library, and the thread a successful \<open>pthread_create\<close> stores.\<close>

record pool_calls =
  pool_malloc :: nat
  threads_malloc :: nat
  cond_init :: int
  mutex_init :: int
  mutex_lock_r :: int
  mutex_unlock_r :: int
  mutex_destroy :: int
  thread_create :: "nat \<Rightarrow> int \<times> nat"
  thread_cancel :: "nat \<Rightarrow> int"
  thread_join :: "nat \<Rightarrow> int"

section \<open>The queue\<close>

text \<open>\<open>for (p = pool->tasks; p->next != NULL; p = p->next)\<close>\<close>

partial_function (option) append_loop :: "task_heap \<Rightarrow> nat \<Rightarrow> nat result option" where
  "append_loop h p =
     (case h p of
        None \<Rightarrow> Some (Inl Use_After_Free)
      | Some c \<Rightarrow> if next_task c \<noteq> 0 then append_loop h (next_task c) else Some (Inr p))"

text \<open>The cells and \<open>pool->tasks\<close> after a task has been put at the end.\<close>

definition append_task :: "task_heap \<Rightarrow> nat \<Rightarrow> nat \<Rightarrow> (task_heap \<times> nat) result option" where
  "append_task h head new =
     (if head = 0 then Some (Inr (h, new))
      else
        bind_c (append_loop h head) (\<lambda>p.
        case h p of
          None \<Rightarrow> Some (Inl Use_After_Free)
        | Some c \<Rightarrow> Some (Inr (h(p \<mapsto> c\<lparr>next_task := new\<rparr>), head))))"

text \<open>\<open>first = pool->tasks; job = *first; pool->tasks = pool->tasks->next;\<close>\<close>

definition take_first :: "task_heap \<Rightarrow> nat \<Rightarrow> (nat \<times> task_t \<times> nat) result" where
  "take_first h head =
     (if head = 0 then Inl Null_Dereference
      else case h head of
        None \<Rightarrow> Inl Use_After_Free
      | Some job \<Rightarrow> Inr (head, job, next_task job))"

section \<open>Operations\<close>

definition with_pool :: "nat \<Rightarrow> pool_mem \<Rightarrow> (threadpool \<Rightarrow> 'a result) \<Rightarrow> 'a result" where
  "with_pool pool m f =
     (if pool = 0 then Inl Null_Dereference
      else case pools m pool of None \<Rightarrow> Inl Use_After_Free | Some p \<Rightarrow> f p)"

definition Thpool_add_task ::
  "pool_calls \<Rightarrow> nat \<Rightarrow> task_t \<Rightarrow> nat \<Rightarrow> pool_mem \<Rightarrow> (int \<times> pool_mem) result option" where
  "Thpool_add_task lib pool job malloc m =
     (if pool = 0 then Some (Inr (EADDRNOTAVAIL, m\<lparr>perrno := EADDRNOTAVAIL\<rparr>))
      else if malloc = 0 then Some (Inl Null_Dereference)
      else
        let m = m\<lparr>cells := (cells m)(malloc \<mapsto> job\<lparr>next_task := 0\<rparr>)\<rparr> in
        bind_c (Some (with_pool pool m (\<lambda>p. if mutex_ready p \<and> cond_ready p then Inr p else Inl Uninitialised_Read))) (\<lambda>p.
        bind_c (append_task (cells m) (tasks p) malloc) (\<lambda>(h, head).
        Some (Inr (0, m\<lparr>cells := h, pools := (pools m)(pool \<mapsto> p\<lparr>tasks := head, pcounter := pcounter p + 1\<rparr>),
          perrno := mutex_unlock_r lib\<rparr>)))))"

definition Thpool_free :: "pool_calls \<Rightarrow> nat \<Rightarrow> pool_mem \<Rightarrow> (int \<times> pool_mem) result" where
  "Thpool_free lib pool m =
     (if pool = 0 then Inr (EADDRNOTAVAIL, m\<lparr>perrno := EADDRNOTAVAIL\<rparr>)
      else with_pool pool m (\<lambda>p.
        bind_r
          (case threads p of
             None \<Rightarrow> Inr m
           | Some _ \<Rightarrow>
               if mutex_ready p \<and> cond_ready p then Inr (m\<lparr>perrno := mutex_destroy lib\<rparr>)
               else Inl Uninitialised_Read) (\<lambda>m.
        Inr (0, m\<lparr>pools := (pools m)(pool := None)\<rparr>))))"

text \<open>The loops over \<open>pool->threads\<close>, \<open>n\<close> rounds left: a call on every thread, with \<open>errno\<close> set to
  its result.\<close>

fun thread_loop ::
  "(nat \<Rightarrow> int) \<Rightarrow> (nat \<Rightarrow> nat option) \<Rightarrow> nat \<Rightarrow> nat \<Rightarrow> int \<Rightarrow> int result" where
  "thread_loop call arr i 0 e = Inr e"
| "thread_loop call arr i (Suc n) e =
     (case arr i of
        None \<Rightarrow> Inl Uninitialised_Read
      | Some t \<Rightarrow> thread_loop call arr (Suc i) n (call t))"

definition Thpool_destroy :: "pool_calls \<Rightarrow> nat \<Rightarrow> pool_mem \<Rightarrow> (int \<times> pool_mem) result" where
  "Thpool_destroy lib pool m =
     (if pool = 0 then Inr (EADDRNOTAVAIL, m\<lparr>perrno := EADDRNOTAVAIL\<rparr>)
      else with_pool pool m (\<lambda>p.
        if \<not> mutex_ready p then Inl Uninitialised_Read
        else
          let m = m\<lparr>perrno := mutex_lock_r lib\<rparr> in
          if perrno m \<noteq> 0 then Inr (perrno m, m)
          else
            let m = m\<lparr>perrno := mutex_unlock_r lib\<rparr> in
            if perrno m \<noteq> 0 then Inr (perrno m, m)
            else case threads p of
              None \<Rightarrow> Inl Null_Dereference
            | Some arr \<Rightarrow>
                bind_r (thread_loop (thread_cancel lib) arr 0 NUM_THREADS (perrno m)) (\<lambda>e.
                bind_r (thread_loop (thread_join lib) arr 0 NUM_THREADS e) (\<lambda>e.
                let m = m\<lparr>perrno := e\<rparr> in
                bind_r (if perrno m = 0 then Thpool_free lib pool m else Inr (0, m)) (\<lambda>(_, m).
                Inr (perrno m, m))))))"

text \<open>\<open>for (i = 0; i < NUM_THREADS; i++) pthread_create(...)\<close>: the pool, or \<open>NULL\<close> after the
  first thread that cannot be created.\<close>

fun create_loop ::
  "pool_calls \<Rightarrow> nat \<Rightarrow> nat \<Rightarrow> nat \<Rightarrow> (nat \<Rightarrow> nat option) \<Rightarrow> pool_mem \<Rightarrow> (nat \<times> pool_mem) result" where
  "create_loop lib pool i 0 arr m = Inr (pool, m)"
| "create_loop lib pool i (Suc n) arr m =
     (case thread_create lib i of (r, t) \<Rightarrow>
        if r \<noteq> 0 then bind_r (Thpool_destroy lib pool m) (\<lambda>(_, m). Inr (0, m))
        else with_pool pool m (\<lambda>p.
          let arr = arr(i \<mapsto> t) in
          create_loop lib pool (Suc i) n arr
            (m\<lparr>pools := (pools m)(pool \<mapsto> p\<lparr>threads := Some arr\<rparr>)\<rparr>)))"

text \<open>The block \<open>malloc\<close> returns has unknown contents; every field is written before it is read,
  except the two objects of the thread library when their initialisation fails.\<close>

definition Thpool_create :: "pool_calls \<Rightarrow> pool_mem \<Rightarrow> (nat \<times> pool_mem) result" where
  "Thpool_create lib m =
     (let pool = pool_malloc lib in
      if pool = 0 then Inr (0, m\<lparr>perrno := EADDRNOTAVAIL\<rparr>)
      else
        let err = (\<lambda>m. bind_r (Thpool_free lib pool m) (\<lambda>(_, m). Inr (0, m)));
            p = \<lparr>mutex_ready = False, threads = None, cond_ready = False, pcounter = 0, tasks = 0\<rparr> in
        if threads_malloc lib = 0
        then err (m\<lparr>pools := (pools m)(pool \<mapsto> p), perrno := EADDRNOTAVAIL\<rparr>)
        else
          let p = p\<lparr>threads := Some Map.empty, cond_ready := cond_init lib = 0\<rparr>;
              m = m\<lparr>perrno := cond_init lib\<rparr>;
              p = p\<lparr>mutex_ready := mutex_init lib = 0\<rparr>;
              m = m\<lparr>pools := (pools m)(pool \<mapsto> p), perrno := mutex_init lib\<rparr> in
          if perrno m \<noteq> 0 then err m
          else create_loop lib pool 0 NUM_THREADS Map.empty m)"

section \<open>Creation\<close>

lemma append_loop_cell [simp]:
  "h p = Some c \<Longrightarrow>
   append_loop h p = (if next_task c \<noteq> 0 then append_loop h (next_task c) else Some (Inr p))"
  by (subst append_loop.simps) simp

lemma upt_3: "[0..<3] = [0, 1, 2 :: nat]"
  by (simp add: eval_nat_numeral)

lemma all_less_3: "(\<forall>i < (3 :: nat). P i) \<longleftrightarrow> P 0 \<and> P 1 \<and> P 2"
  by (auto simp: eval_nat_numeral less_Suc_eq)

lemma with_pool_there [simp]: "pool \<noteq> 0 \<Longrightarrow> pools m pool = Some p \<Longrightarrow> with_pool pool m f = f p"
  by (simp add: with_pool_def)

lemma with_pool_gone [simp]: "pool \<noteq> 0 \<Longrightarrow> pools m pool = None \<Longrightarrow> with_pool pool m f = Inl Use_After_Free"
  by (simp add: with_pool_def)

lemma thread_loop_all:
  "(\<forall>j < n. arr (i + j) \<noteq> None) \<Longrightarrow>
   thread_loop call arr i n e = Inr (if n = 0 then e else call (the (arr (i + n - 1))))"
proof (induction n arbitrary: i e)
  case (Suc n)
  obtain t where "arr i = Some t"
    using Suc.prems by force
  moreover have "\<forall>j < n. arr (Suc i + j) \<noteq> None"
    using Suc.prems by (metis Suc_less_eq add_Suc_shift)
  ultimately show ?case
    using Suc.IH [of "Suc i" "call t"] by (cases n) simp_all
qed simp

lemma thread_loop_missing:
  "j < n \<Longrightarrow> arr (i + j) = None \<Longrightarrow> thread_loop call arr i n e = Inl Uninitialised_Read"
proof (induction n arbitrary: i j e)
  case (Suc n)
  then show ?case
    using Suc.IH [of "j - 1" "Suc i"] by (cases j) (auto split: option.split)
qed simp


lemma Thpool_destroy_unstored:
  assumes "mutex_lock_r lib = 0" "mutex_unlock_r lib = 0" "pool \<noteq> 0" "pools m pool = Some p"
    "threads p = Some arr" "mutex_ready p" "arr i = None" "i < NUM_THREADS"
  shows "Thpool_destroy lib pool m = Inl Uninitialised_Read"
  using assms thread_loop_missing [of i NUM_THREADS arr 0] by (simp add: Thpool_destroy_def)

text \<open>The array once the threads from \<open>i\<close> on have been created.\<close>

definition filled :: "pool_calls \<Rightarrow> nat \<Rightarrow> nat \<Rightarrow> (nat \<Rightarrow> nat option) \<Rightarrow> nat \<Rightarrow> nat option" where
  "filled lib i n arr j = (if i \<le> j \<and> j < i + n then Some (snd (thread_create lib j)) else arr j)"

lemma filled_step: "filled lib (Suc i) n (arr(i \<mapsto> snd (thread_create lib i))) = filled lib i (Suc n) arr"
  by (auto simp: filled_def fun_eq_iff)

text \<open>A pool whose threads all run, with the results of \<open>pthread_create\<close> stored.\<close>

definition new_pool :: "pool_calls \<Rightarrow> bool \<Rightarrow> threadpool" where
  "new_pool lib cond =
     \<lparr>mutex_ready = True, threads = Some (filled lib 0 NUM_THREADS Map.empty), cond_ready = cond,
      pcounter = 0, tasks = 0\<rparr>"

lemma create_loop_outcome:
  assumes "mutex_lock_r lib = 0" "mutex_unlock_r lib = 0" "pool \<noteq> 0" "i + n = NUM_THREADS"
    "pools m pool = Some p" "mutex_ready p" "threads p = Some arr" "\<forall>j \<ge> i. arr j = None"
  shows "create_loop lib pool i n arr m =
    (if \<forall>j < NUM_THREADS. i \<le> j \<longrightarrow> fst (thread_create lib j) = 0
     then Inr (pool, m\<lparr>pools := (pools m)(pool \<mapsto> p\<lparr>threads := Some (filled lib i n arr)\<rparr>)\<rparr>)
     else Inl Uninitialised_Read)"
  using assms(4-8)
proof (induction n arbitrary: i arr m p)
  case 0
  then have "filled lib i 0 arr = arr" "p\<lparr>threads := Some arr\<rparr> = p"
    "(pools m)(pool \<mapsto> p) = pools m"
    by (auto simp: filled_def fun_eq_iff)
  then show ?case
    using 0 by (simp only: create_loop.simps) simp
next
  case (Suc n)
  obtain r t where rt: "thread_create lib i = (r, t)"
    by (cases "thread_create lib i")
  have range: "(\<forall>j < NUM_THREADS. i \<le> j \<longrightarrow> fst (thread_create lib j) = 0) \<longleftrightarrow>
      r = 0 \<and> (\<forall>j < NUM_THREADS. Suc i \<le> j \<longrightarrow> fst (thread_create lib j) = 0)"
  proof -
    have "i < NUM_THREADS"
      using Suc.prems(1) by simp
    then show ?thesis
      using rt by (auto simp: Suc_le_eq le_less)
  qed
  show ?case
  proof (cases "r = 0")
    case True
    let ?m = "m\<lparr>pools := (pools m)(pool \<mapsto> p\<lparr>threads := Some (arr(i \<mapsto> t))\<rparr>)\<rparr>"
    have "create_loop lib pool i (Suc n) arr m = create_loop lib pool (Suc i) n (arr(i \<mapsto> t)) ?m"
      using True rt Suc.prems assms(3) by (simp add: Let_def)
    also have "\<dots> = (if \<forall>j < NUM_THREADS. Suc i \<le> j \<longrightarrow> fst (thread_create lib j) = 0
        then Inr (pool, ?m\<lparr>pools := (pools ?m)(pool \<mapsto>
          p\<lparr>threads := Some (arr(i \<mapsto> t)), threads := Some (filled lib (Suc i) n (arr(i \<mapsto> t)))\<rparr>)\<rparr>)
        else Inl Uninitialised_Read)"
      by (rule Suc.IH) (use Suc.prems in \<open>simp_all add: fun_eq_iff\<close>)
    finally show ?thesis
      using True rt range filled_step [of lib i n arr] by (simp only: snd_conv) (simp add: fun_upd_def cong: if_cong)
  next
    case False
    then show ?thesis
      using rt Suc.prems range Thpool_destroy_unstored [OF assms(1,2,3) Suc.prems(2,4,3), of i] by simp
  qed
qed

text \<open>
  C28: \<open>Thpool_create\<close> returns \<open>NULL\<close> with no pool left behind when memory is missing, and an empty
  pool with its three threads when every call succeeds.  Its other error paths do not
  hold: a failed \<open>pthread_cond_init\<close> is forgotten when the mutex can be initialised, a failed
  \<open>pthread_mutex_init\<close> leads to the destruction of the uninitialised mutex, and when the \<open>i\<close>-th thread
  cannot be created \<open>Thpool_destroy\<close> cancels threads that were never stored.
\<close>

theorem Thpool_create_outcomes:
  assumes "mutex_lock_r lib = 0" "mutex_unlock_r lib = 0"
  shows "Thpool_create lib m =
    (let pool = pool_malloc lib in
     if pool = 0 then Inr (0, m\<lparr>perrno := EADDRNOTAVAIL\<rparr>)
     else if threads_malloc lib = 0 then Inr (0, m\<lparr>pools := (pools m)(pool := None), perrno := EADDRNOTAVAIL\<rparr>)
     else if mutex_init lib \<noteq> 0 then Inl Uninitialised_Read
     else if \<forall>i < NUM_THREADS. fst (thread_create lib i) = 0
     then Inr (pool, m\<lparr>pools := (pools m)(pool \<mapsto> new_pool lib (cond_init lib = 0)), perrno := 0\<rparr>)
     else Inl Uninitialised_Read)"
  using create_loop_outcome [OF assms, of "pool_malloc lib" 0 NUM_THREADS]
  by (auto simp add: Thpool_create_def Thpool_free_def Let_def new_pool_def)

text \<open>Calls that all succeed.\<close>

definition calls_ok :: pool_calls where
  "calls_ok = \<lparr>pool_malloc = 0x1000, threads_malloc = 0x2000, cond_init = 0, mutex_init = 0, mutex_lock_r = 0,
    mutex_unlock_r = 0, mutex_destroy = 0, thread_create = (\<lambda>i. (0, 100 + i)), thread_cancel = (\<lambda>t. 0),
    thread_join = (\<lambda>t. 0)\<rparr>"

definition no_pools :: pool_mem where
  "no_pools = \<lparr>pools = Map.empty, cells = Map.empty, perrno = 0\<rparr>"

lemma Thpool_create_outcomes_witness:
  "Thpool_create calls_ok no_pools =
     Inr (0x1000, no_pools\<lparr>pools := [0x1000 \<mapsto> new_pool calls_ok True]\<rparr>) \<and>
   Thpool_create (calls_ok\<lparr>thread_create := (\<lambda>i. (if i = 2 then 11 else 0, 100 + i))\<rparr>) no_pools =
     Inl Uninitialised_Read"
  using Thpool_create_outcomes [of calls_ok no_pools]
    Thpool_create_outcomes [of "calls_ok\<lparr>thread_create := (\<lambda>i. (if i = 2 then 11 else 0, 100 + i))\<rparr>" no_pools]
  by (auto simp: calls_ok_def no_pools_def NUM_THREADS_def all_less_3)

section \<open>A pool that works\<close>

text \<open>Every call succeeds.\<close>

definition calls_fine :: "pool_calls \<Rightarrow> bool" where
  "calls_fine lib \<longleftrightarrow> pool_malloc lib \<noteq> 0 \<and> threads_malloc lib \<noteq> 0 \<and> cond_init lib = 0 \<and> mutex_init lib = 0 \<and>
     mutex_lock_r lib = 0 \<and> mutex_unlock_r lib = 0 \<and> (\<forall>i. fst (thread_create lib i) = 0) \<and>
     (\<forall>t. thread_cancel lib t = 0) \<and> (\<forall>t. thread_join lib t = 0)"

lemma calls_ok_fine: "calls_fine calls_ok" "calls_fine (calls_ok\<lparr>pool_malloc := 0x3000\<rparr>)"
  by (simp_all add: calls_fine_def calls_ok_def)

lemma Thpool_create_fine:
  assumes "calls_fine lib"
  shows "Thpool_create lib m = Inr (pool_malloc lib,
    m\<lparr>pools := (pools m)(pool_malloc lib \<mapsto> new_pool lib True), perrno := 0\<rparr>)"
  using assms create_loop_outcome [of lib "pool_malloc lib" 0 NUM_THREADS]
  by (auto simp add: calls_fine_def Thpool_create_def Let_def new_pool_def)

text \<open>\<open>Thpool_destroy\<close> of a pool whose threads were all stored frees it.\<close>

lemma Thpool_destroy_frees:
  assumes "calls_fine lib" "pool \<noteq> 0" "pools m pool = Some p" "mutex_ready p" "cond_ready p" "threads p = Some arr"
    "\<forall>i < NUM_THREADS. arr i \<noteq> None"
  shows "\<exists>e. Thpool_destroy lib pool m = Inr (e, m\<lparr>pools := (pools m)(pool := None), perrno := e\<rparr>)"
proof -
  have "thread_loop call arr 0 NUM_THREADS e = Inr (call (the (arr (NUM_THREADS - 1))))" for call e
    using thread_loop_all [of NUM_THREADS arr 0] assms(7) by (simp add: NUM_THREADS_def)
  then show ?thesis
    using assms by (simp add: Thpool_destroy_def Thpool_free_def calls_fine_def Let_def)
qed

end
