(* ===== verification/Pool_Machine.thy ===== *)
theory Pool_Machine
  imports Thread_Pool
begin

text \<open>
  The threads of one pool of \<^verbatim>\<open>thpool.c\<close>, interleaved.  A thread is a number: the workers are
  those below \<open>NUM_THREADS\<close>, \<open>MAIN\<close> is the thread that calls \<open>Thpool_destroy\<close>, and every
  larger number may call \<open>Thpool_add_task\<close>.  Each has a program counter, the mutex has an owner, a worker
  that waits on the condition variable is one whose counter is \<open>W_Wait\<close>.  A step is what a thread does
  between two points at which another may run; a fault of the step is \<open>Inl\<close>.  The pool is one
  \<open>Thpool_create\<close> returned with all its objects initialised, and \<open>main\<close> destroys a pool once no
  thread adds tasks to it any more.
\<close>

section \<open>State\<close>

definition MAIN :: nat where "MAIN = NUM_THREADS"

datatype pc =
    Idle
  | Add_Lock nat | Add_Append nat | Add_Signal | Add_Unlock
  | Destroy_Lock | Destroy_Unlock | Cancel nat | Join nat | Free_Pool | Destroyed
  | W_Lock | W_Test | W_Wait | W_Woken | W_Take
  | W_Unlock nat task_t | W_Run nat task_t | W_Free nat
  | W_Cleanup_Lock | W_Cleanup | W_Exit

type_synonym job = "nat \<times> nat"

definition job_of :: "task_t \<Rightarrow> job" where
  "job_of c = (routine_for_task c, arg c)"

text \<open>
  The heap cells of the tasks, the argument blocks, \<open>pool->tasks\<close> and \<open>pool->counter\<close>, the owner of the
  mutex, whether the pool has been freed, the cancelled threads, the program counters, and the
  history: the jobs put into the queue, taken from it, and run to their end.
\<close>

record machine =
  tcells :: task_heap
  args :: "nat set"
  head :: nat
  queued :: int
  owner :: "nat option"
  freed :: bool
  cancels :: "nat set"
  pcs :: "nat \<Rightarrow> pc"
  added :: "job list"
  taken :: "job list"
  finished :: "job list"

definition machine_start :: machine where
  "machine_start =
     \<lparr>tcells = Map.empty, args = {}, head = 0, queued = 0, owner = None, freed = False, cancels = {},
      pcs = (\<lambda>t. if t < NUM_THREADS then W_Lock else Idle), added = [], taken = [], finished = []\<rparr>"

definition goto :: "nat \<Rightarrow> pc \<Rightarrow> machine \<Rightarrow> machine" where
  "goto t c s = s\<lparr>pcs := (pcs s)(t := c)\<rparr>"

text \<open>\<open>free(first->arg); free(first);\<close>\<close>

definition free_task :: "nat \<Rightarrow> machine \<Rightarrow> machine result" where
  "free_task first s =
     (case tcells s first of
        None \<Rightarrow> Inl Use_After_Free
      | Some c \<Rightarrow>
          if arg c \<noteq> 0 \<and> arg c \<notin> args s then Inl Use_After_Free
          else Inr (s\<lparr>args := args s - {arg c}, tcells := (tcells s)(first := None)\<rparr>))"

text \<open>Where a thread uses the pool itself.\<close>

fun uses_pool :: "pc \<Rightarrow> bool" where
  "uses_pool (W_Run first job) \<longleftrightarrow> False"
| "uses_pool (W_Free first) \<longleftrightarrow> False"
| "uses_pool Idle \<longleftrightarrow> False"
| "uses_pool Destroyed \<longleftrightarrow> False"
| "uses_pool W_Exit \<longleftrightarrow> False"
| "uses_pool c \<longleftrightarrow> True"

section \<open>Thpool\_add\_task\<close>

text \<open>\<open>call\<close> is the allocation of the task by a caller that passes a fresh argument block or \<open>NULL\<close>.  The
  result of \<open>malloc\<close> is not tested, so when there is no memory the caller writes through the null pointer
  (\<open>call_no_memory\<close>), before it takes the mutex.  The signal wakes one waiting worker if there is one.\<close>

inductive client_step :: "nat \<Rightarrow> machine \<Rightarrow> machine result \<Rightarrow> bool" for t s where
  call: "pcs s t = Idle \<Longrightarrow> pcs s MAIN = Idle \<Longrightarrow> new \<noteq> 0 \<Longrightarrow> tcells s new = None \<Longrightarrow>
    a = 0 \<or> a \<notin> args s \<Longrightarrow>
    client_step t s (Inr (goto t (Add_Lock new)
      (s\<lparr>tcells := (tcells s)(new \<mapsto> \<lparr>routine_for_task = r, arg = a, next_task = 0\<rparr>),
         args := args s \<union> ({a} - {0})\<rparr>)))"
| call_no_memory: "pcs s t = Idle \<Longrightarrow> pcs s MAIN = Idle \<Longrightarrow> client_step t s (Inl Null_Dereference)"
| add_lock: "pcs s t = Add_Lock new \<Longrightarrow> owner s = None \<Longrightarrow>
    client_step t s (Inr (goto t (Add_Append new) (s\<lparr>owner := Some t\<rparr>)))"
| append: "pcs s t = Add_Append new \<Longrightarrow> append_task (tcells s) (head s) new = Some (Inr (h, p)) \<Longrightarrow>
    h new = Some c \<Longrightarrow>
    client_step t s (Inr (goto t Add_Signal
      (s\<lparr>tcells := h, head := p, queued := queued s + 1, added := added s @ [job_of c]\<rparr>)))"
| append_fault: "pcs s t = Add_Append new \<Longrightarrow> append_task (tcells s) (head s) new = Some (Inl e) \<Longrightarrow>
    client_step t s (Inl e)"
| signal: "pcs s t = Add_Signal \<Longrightarrow> w < NUM_THREADS \<Longrightarrow> pcs s w = W_Wait \<Longrightarrow>
    client_step t s (Inr (goto t Add_Unlock (goto w W_Woken s)))"
| signal_nobody: "pcs s t = Add_Signal \<Longrightarrow> (\<forall>w < NUM_THREADS. pcs s w \<noteq> W_Wait) \<Longrightarrow>
    client_step t s (Inr (goto t Add_Unlock s))"
| add_unlock: "pcs s t = Add_Unlock \<Longrightarrow> client_step t s (Inr (goto t Idle (s\<lparr>owner := None\<rparr>)))"
| client_stale: "freed s \<Longrightarrow> uses_pool (pcs s t) \<Longrightarrow> client_step t s (Inl Use_After_Free)"

section \<open>Thpool\_routine\<close>

text \<open>
  \<open>pthread_cond_wait\<close> releases the mutex, and takes it again before it returns.  A worker that has been
  cancelled ends in it: with the mutex taken it runs \<open>cleanup_handler\<close>, which releases the
  mutex.  The routine of a task may also be such a place, or may not; it returns or ends there.
\<close>

inductive worker_step :: "nat \<Rightarrow> machine \<Rightarrow> machine result \<Rightarrow> bool" for t s where
  w_lock: "pcs s t = W_Lock \<Longrightarrow> owner s = None \<Longrightarrow>
    worker_step t s (Inr (goto t W_Test (s\<lparr>owner := Some t\<rparr>)))"
| w_test: "pcs s t = W_Test \<Longrightarrow> queued s \<noteq> 0 \<Longrightarrow> worker_step t s (Inr (goto t W_Take s))"
| w_wait: "pcs s t = W_Test \<Longrightarrow> queued s = 0 \<Longrightarrow> t \<notin> cancels s \<Longrightarrow>
    worker_step t s (Inr (goto t W_Wait (s\<lparr>owner := None\<rparr>)))"
| w_wait_cancelled: "pcs s t = W_Test \<Longrightarrow> queued s = 0 \<Longrightarrow> t \<in> cancels s \<Longrightarrow>
    worker_step t s (Inr (goto t W_Cleanup s))"
| w_woken: "pcs s t = W_Woken \<Longrightarrow> owner s = None \<Longrightarrow>
    worker_step t s (Inr (goto t W_Test (s\<lparr>owner := Some t\<rparr>)))"
| wait_cancelled: "pcs s t = W_Wait \<Longrightarrow> t \<in> cancels s \<Longrightarrow>
    worker_step t s (Inr (goto t W_Cleanup_Lock s))"
| cleanup_lock: "pcs s t = W_Cleanup_Lock \<Longrightarrow> owner s = None \<Longrightarrow>
    worker_step t s (Inr (goto t W_Cleanup (s\<lparr>owner := Some t\<rparr>)))"
| cleanup_handler: "pcs s t = W_Cleanup \<Longrightarrow>
    worker_step t s (Inr (goto t W_Exit (s\<lparr>owner := None\<rparr>)))"
| take_task: "pcs s t = W_Take \<Longrightarrow> take_first (tcells s) (head s) = Inr (first, job, p) \<Longrightarrow>
    worker_step t s (Inr (goto t (W_Unlock first job)
      (s\<lparr>head := p, queued := queued s - 1, taken := taken s @ [job_of job]\<rparr>)))"
| take_fault: "pcs s t = W_Take \<Longrightarrow> take_first (tcells s) (head s) = Inl e \<Longrightarrow> worker_step t s (Inl e)"
| w_unlock: "pcs s t = W_Unlock first job \<Longrightarrow>
    worker_step t s (Inr (goto t (W_Run first job) (s\<lparr>owner := None\<rparr>)))"
| run_task: "pcs s t = W_Run first job \<Longrightarrow>
    worker_step t s (Inr (goto t (W_Free first) (s\<lparr>finished := finished s @ [job_of job]\<rparr>)))"
| run_cancelled: "pcs s t = W_Run first job \<Longrightarrow> t \<in> cancels s \<Longrightarrow>
    worker_step t s (Inr (goto t W_Exit s))"
| free_first: "pcs s t = W_Free first \<Longrightarrow> free_task first s = Inr s' \<Longrightarrow>
    worker_step t s (Inr (goto t W_Lock s'))"
| free_fault: "pcs s t = W_Free first \<Longrightarrow> free_task first s = Inl e \<Longrightarrow> worker_step t s (Inl e)"
| worker_stale: "freed s \<Longrightarrow> uses_pool (pcs s t) \<Longrightarrow> worker_step t s (Inl Use_After_Free)"

text \<open>A wait may also return with no signal.\<close>

inductive spurious_step :: "nat \<Rightarrow> machine \<Rightarrow> machine result \<Rightarrow> bool" for t s where
  spurious: "pcs s t = W_Wait \<Longrightarrow> spurious_step t s (Inr (goto t W_Woken s))"

section \<open>Thpool\_destroy\<close>

inductive main_step :: "machine \<Rightarrow> machine result \<Rightarrow> bool" for s where
  destroy: "pcs s MAIN = Idle \<Longrightarrow> (\<forall>t > MAIN. pcs s t = Idle) \<Longrightarrow>
    main_step s (Inr (goto MAIN Destroy_Lock s))"
| destroy_lock: "pcs s MAIN = Destroy_Lock \<Longrightarrow> owner s = None \<Longrightarrow>
    main_step s (Inr (goto MAIN Destroy_Unlock (s\<lparr>owner := Some MAIN\<rparr>)))"
| destroy_unlock: "pcs s MAIN = Destroy_Unlock \<Longrightarrow>
    main_step s (Inr (goto MAIN (Cancel 0) (s\<lparr>owner := None\<rparr>)))"
| cancel: "pcs s MAIN = Cancel i \<Longrightarrow>
    main_step s (Inr (goto MAIN (if Suc i < NUM_THREADS then Cancel (Suc i) else Join 0)
      (s\<lparr>cancels := insert i (cancels s)\<rparr>)))"
| join: "pcs s MAIN = Join i \<Longrightarrow> pcs s i = W_Exit \<Longrightarrow>
    main_step s (Inr (goto MAIN (if Suc i < NUM_THREADS then Join (Suc i) else Free_Pool) s))"
| free_pool: "pcs s MAIN = Free_Pool \<Longrightarrow>
    main_step s (Inr (goto MAIN Destroyed (s\<lparr>freed := True\<rparr>)))"

definition pool_step :: "machine \<Rightarrow> machine result \<Rightarrow> bool" where
  "pool_step s r \<longleftrightarrow> (\<exists>t > MAIN. client_step t s r) \<or>
     (\<exists>t < NUM_THREADS. worker_step t s r \<or> spurious_step t s r) \<or> main_step s r"

inductive pool_reachable :: "machine \<Rightarrow> bool" where
  start: "pool_reachable machine_start"
| step: "pool_reachable s \<Longrightarrow> pool_step s (Inr s') \<Longrightarrow> pool_reachable s'"

section \<open>Rules\<close>

lemma goto_simps [simp]:
  "pcs (goto t c s) = (pcs s)(t := c)" "tcells (goto t c s) = tcells s" "args (goto t c s) = args s"
  "head (goto t c s) = head s" "queued (goto t c s) = queued s" "owner (goto t c s) = owner s"
  "freed (goto t c s) = freed s" "cancels (goto t c s) = cancels s" "added (goto t c s) = added s"
  "taken (goto t c s) = taken s" "finished (goto t c s) = finished s"
  by (simp_all add: goto_def)

lemma free_task_Inr:
  "free_task first s = Inr s' \<Longrightarrow> \<exists>c. tcells s first = Some c \<and>
    s' = s\<lparr>args := args s - {arg c}, tcells := (tcells s)(first := None)\<rparr>"
  by (auto simp: free_task_def split: option.splits if_splits)

lemma take_first_Inr [simp]:
  "take_first h p = Inr (first, job, q) \<longleftrightarrow> p \<noteq> 0 \<and> h p = Some job \<and> first = p \<and> q = next_task job"
  by (auto simp: take_first_def split: option.split)

inductive_cases client_stepE: "client_step t s (Inr s')"
inductive_cases worker_stepE: "worker_step t s (Inr s')"
inductive_cases spurious_stepE: "spurious_step t s (Inr s')"
inductive_cases main_stepE: "main_step s (Inr s')"
inductive_simps client_fault: "client_step t s (Inl e)"
inductive_simps worker_fault: "worker_step t s (Inl e)"
inductive_simps spurious_fault: "spurious_step t s (Inl e)"
inductive_simps main_fault: "main_step s (Inl e)"

lemma pool_stepE:
  assumes "pool_step s (Inr s')"
  obtains t where "MAIN < t" "client_step t s (Inr s')" | t where "t < NUM_THREADS" "worker_step t s (Inr s')"
  | t where "t < NUM_THREADS" "spurious_step t s (Inr s')" | "main_step s (Inr s')"
  using assms by (auto simp: pool_step_def)

section \<open>The mutex\<close>

fun holds_lock :: "pc \<Rightarrow> bool" where
  "holds_lock (Add_Append new) \<longleftrightarrow> True"
| "holds_lock Add_Signal \<longleftrightarrow> True"
| "holds_lock Add_Unlock \<longleftrightarrow> True"
| "holds_lock Destroy_Unlock \<longleftrightarrow> True"
| "holds_lock W_Test \<longleftrightarrow> True"
| "holds_lock W_Take \<longleftrightarrow> True"
| "holds_lock (W_Unlock first job) \<longleftrightarrow> True"
| "holds_lock W_Cleanup \<longleftrightarrow> True"
| "holds_lock c \<longleftrightarrow> False"

definition lock_inv :: "nat option \<Rightarrow> (nat \<Rightarrow> pc) \<Rightarrow> bool" where
  "lock_inv own f \<longleftrightarrow> (\<forall>t. holds_lock (f t) \<longleftrightarrow> own = Some t)"

lemma lock_inv_goto:
  "lock_inv (owner s) f \<Longrightarrow> holds_lock (f t) = holds_lock c \<Longrightarrow> lock_inv (owner s) (f(t := c))"
  by (auto simp: lock_inv_def)

lemma lock_inv_acquire: "lock_inv None f \<Longrightarrow> holds_lock c \<Longrightarrow> lock_inv (Some t) (f(t := c))"
  by (auto simp: lock_inv_def)

lemma lock_inv_release: "lock_inv own f \<Longrightarrow> holds_lock (f t) \<Longrightarrow> \<not> holds_lock c \<Longrightarrow> lock_inv None (f(t := c))"
  by (auto simp: lock_inv_def)

lemmas lock_inv_intros = lock_inv_goto lock_inv_acquire lock_inv_release

lemma lock_inv_step: "pool_step s (Inr s') \<Longrightarrow> lock_inv (owner s) (pcs s) \<Longrightarrow> lock_inv (owner s') (pcs s')"
  by (elim pool_stepE client_stepE worker_stepE spurious_stepE main_stepE)
    (auto dest!: free_task_Inr intro!: lock_inv_intros)

section \<open>Who does what, and when\<close>

fun worker_pc :: "pc \<Rightarrow> bool" where
  "worker_pc W_Lock \<longleftrightarrow> True"
| "worker_pc W_Test \<longleftrightarrow> True"
| "worker_pc W_Wait \<longleftrightarrow> True"
| "worker_pc W_Woken \<longleftrightarrow> True"
| "worker_pc W_Take \<longleftrightarrow> True"
| "worker_pc (W_Unlock first job) \<longleftrightarrow> True"
| "worker_pc (W_Run first job) \<longleftrightarrow> True"
| "worker_pc (W_Free first) \<longleftrightarrow> True"
| "worker_pc W_Cleanup_Lock \<longleftrightarrow> True"
| "worker_pc W_Cleanup \<longleftrightarrow> True"
| "worker_pc W_Exit \<longleftrightarrow> True"
| "worker_pc c \<longleftrightarrow> False"

fun main_pc :: "pc \<Rightarrow> bool" where
  "main_pc Idle \<longleftrightarrow> True"
| "main_pc Destroy_Lock \<longleftrightarrow> True"
| "main_pc Destroy_Unlock \<longleftrightarrow> True"
| "main_pc (Cancel i) \<longleftrightarrow> i < NUM_THREADS"
| "main_pc (Join i) \<longleftrightarrow> i < NUM_THREADS"
| "main_pc Free_Pool \<longleftrightarrow> True"
| "main_pc Destroyed \<longleftrightarrow> True"
| "main_pc c \<longleftrightarrow> False"

fun client_pc :: "pc \<Rightarrow> bool" where
  "client_pc Idle \<longleftrightarrow> True"
| "client_pc (Add_Lock new) \<longleftrightarrow> True"
| "client_pc (Add_Append new) \<longleftrightarrow> True"
| "client_pc Add_Signal \<longleftrightarrow> True"
| "client_pc Add_Unlock \<longleftrightarrow> True"
| "client_pc c \<longleftrightarrow> False"

definition kind_inv :: "(nat \<Rightarrow> pc) \<Rightarrow> bool" where
  "kind_inv f \<longleftrightarrow> (\<forall>t < NUM_THREADS. worker_pc (f t)) \<and> main_pc (f MAIN) \<and> (\<forall>t > MAIN. client_pc (f t))"

lemma kind_inv_worker: "kind_inv f \<Longrightarrow> t < NUM_THREADS \<Longrightarrow> worker_pc c \<Longrightarrow> kind_inv (f(t := c))"
  by (simp add: kind_inv_def MAIN_def)

lemma kind_inv_client: "kind_inv f \<Longrightarrow> MAIN < t \<Longrightarrow> client_pc c \<Longrightarrow> kind_inv (f(t := c))"
  by (simp add: kind_inv_def MAIN_def)

lemma kind_inv_main: "kind_inv f \<Longrightarrow> main_pc c \<Longrightarrow> kind_inv (f(MAIN := c))"
  by (simp add: kind_inv_def MAIN_def)

lemmas kind_inv_intros = kind_inv_worker kind_inv_client kind_inv_main

lemma kind_inv_step: "pool_step s (Inr s') \<Longrightarrow> kind_inv (pcs s) \<Longrightarrow> kind_inv (pcs s')"
  by (elim pool_stepE client_stepE worker_stepE spurious_stepE main_stepE)
    (auto dest!: free_task_Inr simp: kind_inv_intros NUM_THREADS_def)

section \<open>The phases of the destruction\<close>

fun cancelled_at :: "pc \<Rightarrow> nat set" where
  "cancelled_at (Cancel i) = {..<i}"
| "cancelled_at (Join i) = {..<NUM_THREADS}"
| "cancelled_at Free_Pool = {..<NUM_THREADS}"
| "cancelled_at Destroyed = {..<NUM_THREADS}"
| "cancelled_at c = {}"

fun joined_at :: "pc \<Rightarrow> nat set" where
  "joined_at (Join i) = {..<i}"
| "joined_at Free_Pool = {..<NUM_THREADS}"
| "joined_at Destroyed = {..<NUM_THREADS}"
| "joined_at c = {}"

definition ending :: "pc \<Rightarrow> bool" where
  "ending c \<longleftrightarrow> c \<in> {W_Cleanup_Lock, W_Cleanup, W_Exit}"

definition phase_inv :: "(nat \<Rightarrow> pc) \<Rightarrow> bool \<Rightarrow> nat set \<Rightarrow> bool" where
  "phase_inv f fr can \<longleftrightarrow> (f MAIN \<noteq> Idle \<longrightarrow> (\<forall>t > MAIN. f t = Idle)) \<and> joined_at (f MAIN) \<subseteq> f -` {W_Exit} \<and>
     (fr \<longleftrightarrow> f MAIN = Destroyed) \<and> can = cancelled_at (f MAIN) \<and> (\<forall>t. ending (f t) \<longrightarrow> t \<in> can)"

lemma phase_inv_upd:
  assumes "phase_inv f fr can" "t \<noteq> MAIN" "f MAIN \<noteq> Idle \<Longrightarrow> MAIN < t \<Longrightarrow> c = Idle" "f t \<noteq> W_Exit"
    "ending c \<Longrightarrow> t \<in> can"
  shows "phase_inv (f(t := c)) fr can"
proof -
  have "phase_inv f fr can = ((f MAIN \<noteq> Idle \<longrightarrow> (\<forall>t > MAIN. f t = Idle)) \<and>
      joined_at (f MAIN) \<subseteq> f -` {W_Exit} \<and> (fr \<longleftrightarrow> f MAIN = Destroyed) \<and>
      can = cancelled_at (f MAIN) \<and> (\<forall>t. ending (f t) \<longrightarrow> t \<in> can))"
    unfolding phase_inv_def by (rule refl)
  note old = assms(1) [unfolded this]
  have m: "(f(t := c)) MAIN = f MAIN"
    using assms(2) by simp
  have e: "ending ((f(t := c)) u) \<Longrightarrow> u \<in> can" for u
    using old assms(5) by (cases "u = t") auto
  have j: "joined_at (f MAIN) \<subseteq> (f(t := c)) -` {W_Exit}"
    using old assms(4) by (auto simp only: subset_iff vimage_def mem_Collect_eq fun_upd_apply split: if_splits)
  have i: "f MAIN \<noteq> Idle \<Longrightarrow> MAIN < u \<Longrightarrow> (f(t := c)) u = Idle" for u
    using old assms(3) by (cases "u = t") auto
  show ?thesis
    using e j i old unfolding phase_inv_def m by blast
qed

lemma phase_inv_worker:
  "phase_inv f fr can \<Longrightarrow> t < NUM_THREADS \<Longrightarrow> f t \<noteq> W_Exit \<Longrightarrow> ending c \<longrightarrow> t \<in> can \<Longrightarrow>
   phase_inv (f(t := c)) fr can"
  by (rule phase_inv_upd) (simp_all add: MAIN_def)

lemma phase_inv_idle: "phase_inv f fr can \<Longrightarrow> f t = c \<Longrightarrow> c \<noteq> Idle \<Longrightarrow> MAIN < t \<Longrightarrow> f MAIN = Idle"
  unfolding phase_inv_def by blast

lemma phase_inv_client:
  "phase_inv f fr can \<Longrightarrow> MAIN < t \<Longrightarrow> f t \<noteq> Idle \<or> f MAIN = Idle \<Longrightarrow> f t \<noteq> W_Exit \<Longrightarrow> \<not> ending c \<Longrightarrow>
   phase_inv (f(t := c)) fr can"
  by (rule phase_inv_upd) (use phase_inv_idle in auto)

lemma phase_inv_ending: "phase_inv f fr can \<Longrightarrow> f t = c \<Longrightarrow> ending c \<Longrightarrow> t \<in> can"
  unfolding phase_inv_def by blast

lemma ending_simps [simp]:
  "ending W_Cleanup_Lock" "ending W_Cleanup" "ending W_Exit" "\<not> ending Idle" "\<not> ending W_Test"
  "\<not> ending W_Wait" "\<not> ending W_Woken" "\<not> ending W_Lock" "\<not> ending W_Take" "\<not> ending (W_Unlock f j)"
  "\<not> ending (W_Run f j)" "\<not> ending (W_Free f)" "\<not> ending (Add_Lock n)" "\<not> ending (Add_Append n)"
  "\<not> ending Add_Signal" "\<not> ending Add_Unlock" "\<not> ending Destroy_Lock" "\<not> ending Destroy_Unlock"
  "\<not> ending (Cancel i)" "\<not> ending (Join i)" "\<not> ending Free_Pool" "\<not> ending Destroyed"
  by (simp_all add: ending_def)

lemma worker_not_client: "MAIN < t \<Longrightarrow> w < NUM_THREADS \<Longrightarrow> t \<noteq> w"
  by (auto simp: MAIN_def)

lemma phase_client_step:
  assumes "client_step t s (Inr s')" "MAIN < t" "phase_inv (pcs s) fr can"
  shows "phase_inv (pcs s') fr can"
  using assms(1)
proof cases
  case (signal w)
  then have "phase_inv ((pcs s)(w := W_Woken)) fr can"
    using assms(3) by (simp add: phase_inv_worker)
  then show ?thesis
    using signal worker_not_client [OF assms(2) signal(3)] assms(2)
    by (simp add: phase_inv_client)
qed (use assms(2,3) in \<open>simp_all add: phase_inv_client\<close>)

lemma phase_worker_step:
  assumes "worker_step t s (Inr s')" "t < NUM_THREADS" "phase_inv (pcs s) fr (cancels s)"
  shows "phase_inv (pcs s') fr (cancels s')"
  using assms phase_inv_ending [OF assms(3), of t]
  by (elim worker_stepE) (auto dest!: free_task_Inr intro!: phase_inv_worker)


lemma phase_main_upd:
  assumes "phase_inv f fr can" "\<not> ending c" "c \<noteq> Idle" "\<forall>t > MAIN. f t = Idle"
    "joined_at c \<subseteq> f -` {W_Exit}" "MAIN \<notin> joined_at c" "fr' \<longleftrightarrow> c = Destroyed" "can' = cancelled_at c" "can \<subseteq> can'"
  shows "phase_inv (f(MAIN := c)) fr' can'"
proof -
  have e: "ending ((f(MAIN := c)) u) \<Longrightarrow> u \<in> can'" for u
    using assms(2,9) phase_inv_ending [OF assms(1), of u] by (cases "u = MAIN") auto
  have j: "joined_at c \<subseteq> (f(MAIN := c)) -` {W_Exit}"
    using assms(5,6) by auto
  have i: "MAIN < u \<Longrightarrow> (f(MAIN := c)) u = Idle" for u
    using assms(4) by auto
  have m: "(f(MAIN := c)) MAIN = c"
    by simp
  show ?thesis
    using e j i assms(7,8) unfolding phase_inv_def m by blast
qed

lemma phase_main_step:
  assumes "main_step s (Inr s')" "phase_inv (pcs s) (freed s) (cancels s)" "kind_inv (pcs s)"
  shows "phase_inv (pcs s') (freed s') (cancels s')"
proof -
  have main: "main_pc (pcs s MAIN)" "pcs s MAIN \<noteq> Idle \<Longrightarrow> \<forall>t > MAIN. pcs s t = Idle"
    "cancels s = cancelled_at (pcs s MAIN)" "joined_at (pcs s MAIN) \<subseteq> pcs s -` {W_Exit}"
    "freed s \<longleftrightarrow> pcs s MAIN = Destroyed"
    using assms(2,3) unfolding phase_inv_def kind_inv_def by blast+
  note upd = phase_main_upd [OF assms(2)]
  have out: "i \<le> NUM_THREADS \<Longrightarrow> MAIN \<notin> {..<i}" for i
    by (simp add: MAIN_def)
  from assms(1) show ?thesis
  proof cases
    case (cancel i)
    then have i: "i < NUM_THREADS" "cancels s = {..<i}" "\<forall>t > MAIN. pcs s t = Idle" "\<not> freed s"
      using main by simp_all
    then have "\<not> Suc i < NUM_THREADS \<Longrightarrow> insert i {..<i} = {..<NUM_THREADS}"
      by auto
    then have "phase_inv ((pcs s)(MAIN := if Suc i < NUM_THREADS then Cancel (Suc i) else Join 0)) (freed s)
        (insert i (cancels s))"
      by (intro upd) (use i in \<open>auto simp: lessThan_Suc\<close>)
    then show ?thesis
      using cancel by simp
  next
    case (join i)
    then have i: "i < NUM_THREADS" "cancels s = {..<NUM_THREADS}" "\<forall>t > MAIN. pcs s t = Idle" "\<not> freed s"
      "{..<Suc i} \<subseteq> pcs s -` {W_Exit}"
      using main by (simp_all add: lessThan_Suc)
    then have "\<not> Suc i < NUM_THREADS \<Longrightarrow> {..<NUM_THREADS} \<subseteq> pcs s -` {W_Exit}"
      by (elim order_trans [rotated]) auto
    then have "phase_inv ((pcs s)(MAIN := if Suc i < NUM_THREADS then Join (Suc i) else Free_Pool)) (freed s)
        (cancels s)"
      by (intro upd) (use i out [of "Suc i"] out [of NUM_THREADS] in \<open>simp_all add: Suc_le_eq\<close>)
    then show ?thesis
      using join by simp
  next
    case free_pool
    have "phase_inv ((pcs s)(MAIN := Destroyed)) True (cancels s)"
      by (rule upd) (use free_pool main out [of NUM_THREADS] in simp_all)
    then show ?thesis
      using free_pool by simp
  qed (use main in \<open>simp_all add: upd\<close>)
qed

lemma phase_inv_step:
  assumes "pool_step s (Inr s')" "phase_inv (pcs s) (freed s) (cancels s)" "kind_inv (pcs s)"
  shows "phase_inv (pcs s') (freed s') (cancels s')"
  using assms(1)
proof (cases rule: pool_stepE)
  case (1 t)
  moreover from 1(2) have "freed s' = freed s" "cancels s' = cancels s"
    by (auto elim: client_stepE)
  ultimately show ?thesis
    using phase_client_step assms(2) by simp
next
  case (2 t)
  moreover from 2(2) have "freed s' = freed s"
    by (auto elim!: worker_stepE dest!: free_task_Inr)
  ultimately show ?thesis
    using phase_worker_step assms(2) by simp
next
  case (3 t)
  then show ?thesis
    using assms(2) by (auto elim!: spurious_stepE simp: phase_inv_worker)
qed (use phase_main_step assms in blast)

end
