(* ===== verification/Pool_Queue.thy ===== *)
theory Pool_Queue
  imports Pool_Machine Linked_Chain
begin

text \<open>
  The memory of a running pool: the queue is a chain of cells whose jobs are those added and not yet
  taken, every cell a thread still needs is allocated and its own, and so is every argument block.
\<close>

abbreviation chain :: "task_heap \<Rightarrow> nat \<Rightarrow> nat list \<Rightarrow> bool" where
  "chain \<equiv> linked next_task"

lemma append_loop_chain: "chain h p as \<Longrightarrow> as \<noteq> [] \<Longrightarrow> append_loop h p = Some (Inr (last as))"
proof (induction as arbitrary: p)
  case (Cons a as)
  then obtain c where "h a = Some c" "chain h (next_task c) as" "p = a"
    by (auto split: option.splits)
  then show ?case
    using Cons.IH [of "next_task c"] by (cases as) auto
qed simp

text \<open>Putting a task at the end: the chain grows by it, and no other cell's job changes.\<close>

lemma append_task_chain:
  assumes "chain h p as" "h new = Some d" "next_task d = 0" "new \<noteq> 0" "new \<notin> set as"
  obtains h' where "append_task h p new = Some (Inr (h', if p = 0 then new else p))"
    "chain h' (if p = 0 then new else p) (as @ [new])" "\<forall>n. map_option job_of (h' n) = map_option job_of (h n)"
    "\<forall>n. n \<notin> set as \<longrightarrow> h' n = h n"
proof (cases "p = 0")
  case True
  then show ?thesis
    using that [of h] assms by (simp add: append_task_def)
next
  case False
  then have ne: "as \<noteq> []"
    using assms(1) by auto
  then obtain c where c: "h (last as) = Some c"
    using linked_nonnull [OF assms(1), of "last as"] by auto
  let ?h = "h(last as \<mapsto> c\<lparr>next_task := new\<rparr>)"
  have "append_task h p new = Some (Inr (?h, p))"
    using False c append_loop_chain [OF assms(1) ne] by (simp add: append_task_def)
  moreover have "chain ?h p (as @ [new])"
    by (rule linked_append [OF assms(1) ne assms(2,3,4,5) c]) simp
  moreover have "map_option job_of (?h n) = map_option job_of (h n)" for n
    using c by (simp add: job_of_def)
  ultimately show ?thesis
    using that [of ?h] False ne by auto
qed

text \<open>The cells a thread still needs.\<close>

fun held :: "pc \<Rightarrow> nat set" where
  "held (Add_Lock new) = {new}"
| "held (Add_Append new) = {new}"
| "held (W_Unlock first job) = {first}"
| "held (W_Run first job) = {first}"
| "held (W_Free first) = {first}"
| "held c = {}"

definition jobs_at :: "task_heap \<Rightarrow> nat list \<Rightarrow> job list" where
  "jobs_at h as = map (\<lambda>n. job_of (the (h n))) as"

definition cells_inv :: "task_heap \<Rightarrow> (nat \<Rightarrow> pc) \<Rightarrow> bool" where
  "cells_inv h f \<longleftrightarrow> (\<forall>t. \<forall>n \<in> held (f t). n \<noteq> 0 \<and> h n \<noteq> None) \<and>
     (\<forall>t u. t \<noteq> u \<longrightarrow> held (f t) \<inter> held (f u) = {}) \<and>
     (\<forall>t n. f t \<in> {Add_Lock n, Add_Append n} \<longrightarrow> next_task (the (h n)) = 0)"

definition arg_at :: "task_heap \<Rightarrow> nat \<Rightarrow> nat" where
  "arg_at h n = (case h n of None \<Rightarrow> 0 | Some c \<Rightarrow> arg c)"

definition args_inv :: "(nat \<Rightarrow> nat) \<Rightarrow> nat set \<Rightarrow> bool" where
  "args_inv g as \<longleftrightarrow> (\<forall>n. g n \<noteq> 0 \<longrightarrow> g n \<in> as \<and> (\<forall>m. g m = g n \<longrightarrow> m = n))"

definition queue_inv :: "machine \<Rightarrow> nat list \<Rightarrow> bool" where
  "queue_inv s as \<longleftrightarrow> chain (tcells s) (head s) as \<and> queued s = int (length as) \<and>
     added s = taken s @ jobs_at (tcells s) as \<and> (\<forall>t. held (pcs s t) \<inter> set as = {}) \<and>
     cells_inv (tcells s) (pcs s) \<and> args_inv (arg_at (tcells s)) (args s)"

section \<open>Cells\<close>

lemma cells_inv_held: "cells_inv h f \<Longrightarrow> f t = c \<Longrightarrow> n \<in> held c \<Longrightarrow> n \<noteq> 0 \<and> h n \<noteq> None"
  unfolding cells_inv_def by blast

lemma cells_inv_disjoint: "cells_inv h f \<Longrightarrow> f t = c \<Longrightarrow> n \<in> held c \<Longrightarrow> u \<noteq> t \<Longrightarrow> n \<notin> held (f u)"
  unfolding cells_inv_def by blast

lemma cells_inv_unlinked:
  "cells_inv h f \<Longrightarrow> f t = c \<Longrightarrow> c = Add_Lock n \<or> c = Add_Append n \<Longrightarrow> next_task (the (h n)) = 0"
  unfolding cells_inv_def by blast

lemma cells_invI:
  assumes "\<And>t n. n \<in> held (f t) \<Longrightarrow> n \<noteq> 0 \<and> h n \<noteq> None"
    "\<And>t u n. t \<noteq> u \<Longrightarrow> n \<in> held (f t) \<Longrightarrow> n \<notin> held (f u)"
    "\<And>t n. f t = Add_Lock n \<or> f t = Add_Append n \<Longrightarrow> next_task (the (h n)) = 0"
  shows "cells_inv h f"
  using assms unfolding cells_inv_def by blast

text \<open>Any step changes one program counter, and cells no other thread needs.\<close>

lemma cells_inv_upd:
  assumes "cells_inv h f" "\<And>n. n \<in> held c \<Longrightarrow> n \<noteq> 0 \<and> h' n \<noteq> None"
    "\<And>n u. n \<in> held c \<Longrightarrow> u \<noteq> t \<Longrightarrow> n \<notin> held (f u)"
    "\<And>n. c = Add_Lock n \<or> c = Add_Append n \<Longrightarrow> next_task (the (h' n)) = 0"
    "\<And>n u. u \<noteq> t \<Longrightarrow> n \<in> held (f u) \<Longrightarrow> h' n = h n"
  shows "cells_inv h' (f(t := c))"
proof (rule cells_invI)
  fix u n
  assume "n \<in> held ((f(t := c)) u)"
  then show "n \<noteq> 0 \<and> h' n \<noteq> None"
    using assms(2,5) cells_inv_held [OF assms(1), of u] by (cases "u = t") auto
next
  fix u v n
  assume "u \<noteq> v" "n \<in> held ((f(t := c)) u)"
  then show "n \<notin> held ((f(t := c)) v)"
    using assms(3) cells_inv_disjoint [OF assms(1), of u _ n v]
    by (cases "u = t"; cases "v = t") auto
next
  fix u n
  assume "(f(t := c)) u = Add_Lock n \<or> (f(t := c)) u = Add_Append n"
  then show "next_task (the (h' n)) = 0"
    using assms(4,5) cells_inv_unlinked [OF assms(1), of u _ n] by (cases "u = t") auto
qed

lemma cells_inv_goto:
  assumes "cells_inv h f" "held c \<subseteq> held (f t)" "\<And>n. c = Add_Lock n \<Longrightarrow> f t = Add_Lock n"
    "\<And>n. c = Add_Append n \<Longrightarrow> f t = Add_Lock n"
  shows "cells_inv h (f(t := c))"
  by (rule cells_inv_upd [OF assms(1)])
    (use assms cells_inv_held [OF assms(1)] cells_inv_disjoint [OF assms(1)] cells_inv_unlinked [OF assms(1)] in blast)+

section \<open>Argument blocks\<close>

lemma arg_at_upd [simp]:
  "arg_at (h(n \<mapsto> c)) = (arg_at h)(n := arg c)" "arg_at (h(n := None)) = (arg_at h)(n := 0)"
  by (auto simp: arg_at_def fun_eq_iff)

lemma arg_at_cong: "(\<And>n. map_option job_of (h' n) = map_option job_of (h n)) \<Longrightarrow> arg_at h' = arg_at h"
proof (rule ext)
  fix n
  assume "\<And>n. map_option job_of (h' n) = map_option job_of (h n)"
  then have "map_option job_of (h' n) = map_option job_of (h n)"
    by blast
  then show "arg_at h' n = arg_at h n"
    by (cases "h n"; cases "h' n") (simp_all add: arg_at_def job_of_def)
qed

lemma args_inv_new:
  assumes "args_inv g as" "a = 0 \<or> a \<notin> as"
  shows "args_inv (g(new := a)) (as \<union> ({a} - {0}))"
proof -
  have "g m = a \<Longrightarrow> a = 0" for m
    using assms unfolding args_inv_def by metis
  then show ?thesis
    using assms(1) unfolding args_inv_def by (auto split: if_splits) (metis)+
qed

lemma args_inv_free:
  assumes "args_inv g as"
  shows "args_inv (g(n := 0)) (as - {g n})"
  using assms unfolding args_inv_def by (simp; metis)

section \<open>Every step keeps the queue\<close>

definition queue_ok :: "machine \<Rightarrow> bool" where
  "queue_ok s \<longleftrightarrow> (\<exists>as. queue_inv s as)"

lemma queue_invI:
  "chain (tcells s) (head s) as \<Longrightarrow> queued s = int (length as) \<Longrightarrow> added s = taken s @ jobs_at (tcells s) as \<Longrightarrow>
   (\<And>t. held (pcs s t) \<inter> set as = {}) \<Longrightarrow> cells_inv (tcells s) (pcs s) \<Longrightarrow>
   args_inv (arg_at (tcells s)) (args s) \<Longrightarrow> queue_inv s as"
  by (simp add: queue_inv_def)

lemma queue_inv_dest:
  assumes "queue_inv s as"
  shows "chain (tcells s) (head s) as" "queued s = int (length as)" "added s = taken s @ jobs_at (tcells s) as"
    "held (pcs s t) \<inter> set as = {}" "cells_inv (tcells s) (pcs s)" "args_inv (arg_at (tcells s)) (args s)"
  using assms by (simp_all add: queue_inv_def)

lemma jobs_at_upd_other [simp]: "n \<notin> set as \<Longrightarrow> jobs_at (h(n := v)) as = jobs_at h as"
  by (auto simp: jobs_at_def)

lemma jobs_at_cong:
  assumes "\<forall>n. map_option job_of (h' n) = map_option job_of (h n)" "\<And>n. n \<in> set as \<Longrightarrow> h n \<noteq> None"
  shows "jobs_at h' as = jobs_at h as"
proof -
  have "job_of (the (h' n)) = job_of (the (h n))" if "n \<in> set as" for n
    using spec [OF assms(1), of n] assms(2) [OF that] by (cases "h n"; cases "h' n") auto
  then show ?thesis
    by (simp add: jobs_at_def)
qed

text \<open>A step that only moves a thread on, and may drop a cell it held.\<close>

lemma queue_inv_move:
  assumes "queue_inv s as" "held c \<subseteq> held (pcs s t)" "\<And>n. c = Add_Lock n \<Longrightarrow> pcs s t = Add_Lock n"
    "\<And>n. c = Add_Append n \<Longrightarrow> pcs s t = Add_Lock n" "pcs s' = (pcs s)(t := c)" "tcells s' = tcells s" "args s' = args s"
    "head s' = head s" "queued s' = queued s" "added s' = added s" "taken s' = taken s"
  shows "queue_inv s' as"
proof (rule queue_invI)
  show "held (pcs s' u) \<inter> set as = {}" for u
    using queue_inv_dest(4) [OF assms(1), of u] assms(2,5) by (cases "u = t") auto
  show "cells_inv (tcells s') (pcs s')"
    unfolding assms(5,6) by (rule cells_inv_goto [OF queue_inv_dest(5) [OF assms(1)]]) (use assms in blast)+
qed (use queue_inv_dest [OF assms(1)] assms in simp_all)

lemma queue_inv_call:
  assumes "queue_inv s as" "new \<noteq> 0" "tcells s new = None" "arg c = 0 \<or> arg c \<notin> args s" "next_task c = 0"
  shows "queue_inv (goto t (Add_Lock new) (s\<lparr>tcells := (tcells s)(new \<mapsto> c), args := args s \<union> ({arg c} - {0})\<rparr>)) as"
proof -
  note inv = queue_inv_dest [OF assms(1)]
  have fresh: "new \<notin> set as" "\<And>u. new \<notin> held (pcs s u)"
    using linked_nonnull [OF inv(1)] cells_inv_held [OF inv(5)] assms(3) by blast+
  let ?s = "goto t (Add_Lock new) (s\<lparr>tcells := (tcells s)(new \<mapsto> c), args := args s \<union> ({arg c} - {0})\<rparr>)"
  show ?thesis
  proof (rule queue_invI)
    show "held (pcs ?s u) \<inter> set as = {}" for u
      using inv(4) [of u] fresh(1) by simp
    have "cells_inv ((tcells s)(new \<mapsto> c)) ((pcs s)(t := Add_Lock new))"
      by (rule cells_inv_upd [OF inv(5)]) (use fresh(2) assms(2,5) in \<open>auto split: if_splits\<close>)
    then show "cells_inv (tcells ?s) (pcs ?s)"
      by simp
    show "args_inv (arg_at (tcells ?s)) (args ?s)"
      using args_inv_new [OF inv(6) assms(4)] by simp
  qed (use inv fresh in simp_all)
qed

lemma queue_inv_append:
  assumes "queue_inv s as" "pcs s t = Add_Append new" "tcells s new = Some c"
  obtains h p where "append_task (tcells s) (head s) new = Some (Inr (h, p))" "h new = Some c"
    "queue_inv (goto t Add_Signal
      (s\<lparr>tcells := h, head := p, queued := queued s + 1, added := added s @ [job_of c]\<rparr>)) (as @ [new])"
proof -
  note inv = queue_inv_dest [OF assms(1)]
  have new: "new \<noteq> 0" "next_task c = 0" "new \<notin> set as"
    using cells_inv_held [OF inv(5) assms(2)] cells_inv_unlinked [OF inv(5) assms(2), of new] inv(4) [of t] assms
    by auto
  obtain h where h: "append_task (tcells s) (head s) new = Some (Inr (h, if head s = 0 then new else head s))"
    "chain h (if head s = 0 then new else head s) (as @ [new])"
    "\<forall>n. map_option job_of (h n) = map_option job_of (tcells s n)" "\<forall>n. n \<notin> set as \<longrightarrow> h n = tcells s n"
    by (rule append_task_chain [OF inv(1) assms(3) new(2,1,3)])
  let ?s = "goto t Add_Signal (s\<lparr>tcells := h, head := if head s = 0 then new else head s, queued := queued s + 1,
    added := added s @ [job_of c]\<rparr>)"
  have new_h: "h new = Some c"
    using h(4) new(3) assms(3) by simp
  have "queue_inv ?s (as @ [new])"
  proof (rule queue_invI)
    show "held (pcs ?s u) \<inter> set (as @ [new]) = {}" for u
      using inv(4) [of u] cells_inv_disjoint [OF inv(5) assms(2), of new u] by auto
    have "cells_inv h ((pcs s)(t := Add_Signal))"
      by (rule cells_inv_upd [OF inv(5)]) (use h(4) inv(4) in auto)
    then show "cells_inv (tcells ?s) (pcs ?s)"
      by simp
    have "jobs_at h as = jobs_at (tcells s) as"
      by (rule jobs_at_cong [OF h(3)]) (use linked_nonnull [OF inv(1)] in blast)
    then show "added ?s = taken ?s @ jobs_at (tcells ?s) (as @ [new])"
      using inv(3) new_h by (simp add: jobs_at_def)
    show "args_inv (arg_at (tcells ?s)) (args ?s)"
      using inv(6) arg_at_cong [of h "tcells s"] h(3) by simp
  qed (use inv h(2) in simp_all)
  then show ?thesis
    using that h(1) new_h by blast
qed

lemma queue_inv_take:
  assumes "queue_inv s as" "queued s \<noteq> 0"
  obtains job bs where "take_first (tcells s) (head s) = Inr (head s, job, next_task job)" "as = head s # bs"
    "queue_inv (goto t (W_Unlock (head s) job)
      (s\<lparr>head := next_task job, queued := queued s - 1, taken := taken s @ [job_of job]\<rparr>)) bs"
proof -
  note inv = queue_inv_dest [OF assms(1)]
  have "head s \<noteq> 0"
    using inv(1,2) assms(2) by (cases "head s = 0") simp_all
  then obtain job bs where job: "as = head s # bs" "tcells s (head s) = Some job" "chain (tcells s) (next_task job) bs"
    by (rule linked_start [OF inv(1)])
  let ?s = "goto t (W_Unlock (head s) job)
    (s\<lparr>head := next_task job, queued := queued s - 1, taken := taken s @ [job_of job]\<rparr>)"
  have distinct: "distinct (head s # bs)"
    using linked_distinct [OF inv(1)] job(1) by simp
  have "queue_inv ?s bs"
  proof (rule queue_invI)
    show "held (pcs ?s u) \<inter> set bs = {}" for u
      using inv(4) [of u] job(1) distinct by auto
    have "cells_inv (tcells s) ((pcs s)(t := W_Unlock (head s) job))"
      by (rule cells_inv_upd [OF inv(5)]) (use inv(4) job \<open>head s \<noteq> 0\<close> in \<open>auto split: if_splits\<close>)
    then show "cells_inv (tcells ?s) (pcs ?s)"
      by simp
    show "added ?s = taken ?s @ jobs_at (tcells ?s) bs"
      using inv(3) job(1,2) by (simp add: jobs_at_def)
  qed (use inv job in simp_all)
  then show ?thesis
    using that job \<open>head s \<noteq> 0\<close> by simp
qed

lemma queue_inv_free:
  assumes "queue_inv s as" "pcs s t = W_Free first"
  obtains s' where "free_task first s = Inr s'" "queue_inv (goto t W_Lock s') as"
proof -
  note inv = queue_inv_dest [OF assms(1)]
  obtain c where c: "tcells s first = Some c"
    using cells_inv_held [OF inv(5) assms(2)] by auto
  have "arg c = 0 \<or> arg c \<in> args s"
    using inv(6) c by (cases "arg c = 0") (auto simp: args_inv_def arg_at_def dest: spec [of _ first])
  then have free: "free_task first s = Inr (s\<lparr>args := args s - {arg c}, tcells := (tcells s)(first := None)\<rparr>)"
    using c by (auto simp: free_task_def)
  let ?s = "goto t W_Lock (s\<lparr>args := args s - {arg c}, tcells := (tcells s)(first := None)\<rparr>)"
  have out: "first \<notin> set as"
    using inv(4) [of t] assms(2) by simp
  have "queue_inv ?s as"
  proof (rule queue_invI)
    show "held (pcs ?s u) \<inter> set as = {}" for u
      using inv(4) [of u] by simp
    have "cells_inv ((tcells s)(first := None)) ((pcs s)(t := W_Lock))"
      by (rule cells_inv_upd [OF inv(5)]) (use cells_inv_disjoint [OF inv(5) assms(2)] in auto)
    then show "cells_inv (tcells ?s) (pcs ?s)"
      by simp
    show "args_inv (arg_at (tcells ?s)) (args ?s)"
      using args_inv_free [OF inv(6), of first] c by (simp add: arg_at_def)
  qed (use inv out in simp_all)
  then show ?thesis
    using that free by blast
qed

lemma queue_ok_goto:
  assumes "queue_ok s" "pcs s' = pcs s" "tcells s' = tcells s" "args s' = args s"
    "head s' = head s" "queued s' = queued s" "added s' = added s" "taken s' = taken s" "held c \<subseteq> held (pcs s t)"
    "\<forall>n. c = Add_Lock n \<longrightarrow> pcs s t = Add_Lock n" "\<forall>n. c = Add_Append n \<longrightarrow> pcs s t = Add_Lock n"
  shows "queue_ok (goto t c s')"
proof -
  obtain as where as: "queue_inv s as"
    using assms(1) by (auto simp: queue_ok_def)
  have "queue_inv (goto t c s') as"
    by (rule queue_inv_move [OF as, of c t]) (use assms in simp_all)
  then show ?thesis
    by (auto simp: queue_ok_def)
qed

lemma queue_client_step:
  assumes "client_step t s (Inr s')" "queue_ok s"
  shows "queue_ok s'"
  using assms(1)
proof cases
  case (call new a r)
  obtain as where "queue_inv s as"
    using assms(2) by (auto simp: queue_ok_def)
  from queue_inv_call [OF this call(4,5), of "\<lparr>routine_for_task = r, arg = a, next_task = 0\<rparr>" t]
  show ?thesis
    using call by (auto simp: queue_ok_def)
next
  case (append new h p c)
  obtain as where as: "queue_inv s as"
    using assms(2) by (auto simp: queue_ok_def)
  obtain d where d: "tcells s new = Some d"
    using cells_inv_held [OF queue_inv_dest(5) [OF as] append(2)] by auto
  from queue_inv_append [OF as append(2) d] show ?thesis
    using append by (auto simp: queue_ok_def)
next
  case (signal w)
  then have "queue_ok (goto w W_Woken s)"
    by (intro queue_ok_goto [OF assms(2)]) simp_all
  then show ?thesis
    unfolding signal(1) [simplified] by (rule queue_ok_goto) simp_all
qed (hypsubst?, simp?, rule queue_ok_goto [OF assms(2)]; simp)+

lemma queue_worker_step:
  assumes "worker_step t s (Inr s')" "queue_ok s" "pcs s t = W_Take \<Longrightarrow> queued s \<noteq> 0"
  shows "queue_ok s'"
  using assms(1)
proof cases
  case (take_task first job p)
  obtain as where "queue_inv s as"
    using assms(2) by (auto simp: queue_ok_def)
  from queue_inv_take [OF this assms(3) [OF take_task(2)], of t] show ?thesis
    using take_task by (auto simp: queue_ok_def)
next
  case (free_first first s'')
  obtain as where "queue_inv s as"
    using assms(2) by (auto simp: queue_ok_def)
  from queue_inv_free [OF this free_first(2)] show ?thesis
    using free_first by (auto simp: queue_ok_def)
qed (simp, rule queue_ok_goto [OF assms(2)]; simp)+

section \<open>Adding a task, by one thread\<close>

lemma add_task_appends:
  assumes "pool \<noteq> 0" "pools m pool = Some p" "mutex_ready p" "cond_ready p"
    "chain (cells m) (tasks p) as" "pcounter p = int (length as)" "new \<noteq> 0" "cells m new = None"
  obtains m' p' where "Thpool_add_task lib pool job new m = Some (Inr (0, m'))" "pools m' pool = Some p'"
    "mutex_ready p'" "cond_ready p'" "chain (cells m') (tasks p') (as @ [new])"
    "pcounter p' = int (length (as @ [new]))"
    "jobs_at (cells m') (as @ [new]) = jobs_at (cells m) as @ [job_of job]"
    "\<forall>n. n \<noteq> new \<longrightarrow> cells m n = None \<longrightarrow> cells m' n = None"
proof -
  let ?h = "(cells m)(new \<mapsto> job\<lparr>next_task := 0\<rparr>)"
  have out: "new \<notin> set as"
    using linked_nonnull [OF assms(5)] assms(8) by blast
  obtain h where h: "append_task ?h (tasks p) new = Some (Inr (h, if tasks p = 0 then new else tasks p))"
    "chain h (if tasks p = 0 then new else tasks p) (as @ [new])" "\<forall>n. map_option job_of (h n) = map_option job_of (?h n)"
    "\<forall>n. n \<notin> set as \<longrightarrow> h n = ?h n"
    by (rule append_task_chain [of ?h "tasks p" as new "job\<lparr>next_task := 0\<rparr>"]) (use assms out in simp_all)
  have "jobs_at h as = jobs_at ?h as"
    by (rule jobs_at_cong [OF h(3)]) (use linked_nonnull [OF assms(5)] out in auto)
  moreover have "h new = Some (job\<lparr>next_task := 0\<rparr>)"
    using h(4) out by simp
  ultimately have "jobs_at h (as @ [new]) = jobs_at (cells m) as @ [job_of job]"
    using out by (simp add: jobs_at_def job_of_def)
  note jobs = this
  have others: "h n = None" if "n \<noteq> new" "cells m n = None" for n
  proof -
    have "n \<notin> set as"
      using linked_nonnull [OF assms(5)] that(2) by blast
    then show ?thesis
      using h(4) that by simp
  qed
  let ?head = "if tasks p = 0 then new else tasks p"
  let ?p = "p\<lparr>tasks := ?head, pcounter := pcounter p + 1\<rparr>"
  let ?m = "m\<lparr>cells := h, pools := (pools m)(pool \<mapsto> ?p), perrno := mutex_unlock_r lib\<rparr>"
  have run: "Thpool_add_task lib pool job new m = Some (Inr (0, ?m))"
    using assms(1-4,7) h(1) by (simp add: Thpool_add_task_def Let_def)
  show ?thesis
    by (rule that [OF run, of ?p]) (use assms h(2) jobs others in simp_all)
qed

text \<open>
  C12: \<open>Thpool_add_task\<close> puts the task behind those already queued, without changing them, and returns 0; a
  null pool is refused with \<open>EADDRNOTAVAIL\<close>; but when \<open>malloc\<close> fails the null pointer is written
  through.
\<close>

theorem Thpool_add_task_outcomes:
  assumes "pool \<noteq> 0" "pools m pool = Some p" "mutex_ready p" "cond_ready p"
    "chain (cells m) (tasks p) as" "pcounter p = int (length as)" "new \<noteq> 0" "cells m new = None"
  shows "(\<exists>m' p'. Thpool_add_task lib pool job new m = Some (Inr (0, m')) \<and> pools m' pool = Some p' \<and>
      chain (cells m') (tasks p') (as @ [new]) \<and> pcounter p' = int (length (as @ [new])) \<and>
      jobs_at (cells m') (as @ [new]) = jobs_at (cells m) as @ [job_of job]) \<and>
    Thpool_add_task lib 0 job new m = Some (Inr (EADDRNOTAVAIL, m\<lparr>perrno := EADDRNOTAVAIL\<rparr>)) \<and>
    Thpool_add_task lib pool job 0 m = Some (Inl Null_Dereference)"
proof -
  have "\<exists>m' p'. Thpool_add_task lib pool job new m = Some (Inr (0, m')) \<and> pools m' pool = Some p' \<and>
      chain (cells m') (tasks p') (as @ [new]) \<and> pcounter p' = int (length (as @ [new])) \<and>
      jobs_at (cells m') (as @ [new]) = jobs_at (cells m) as @ [job_of job]"
    by (rule add_task_appends [OF assms, of lib job]) blast
  then show ?thesis
    using assms(1) by (simp add: Thpool_add_task_def)
qed

lemma Thpool_add_task_outcomes_witness:
  "\<exists>m'. Thpool_add_task calls_ok 0x1000 \<lparr>routine_for_task = 7, arg = 0x50, next_task = 3\<rparr> 0x10
     (no_pools\<lparr>pools := [0x1000 \<mapsto> new_pool calls_ok True]\<rparr>) = Some (Inr (0, m'))"
  using Thpool_add_task_outcomes [of "0x1000" "no_pools\<lparr>pools := [0x1000 \<mapsto> new_pool calls_ok True]\<rparr>"
      "new_pool calls_ok True" "[]" "0x10" calls_ok "\<lparr>routine_for_task = 7, arg = 0x50, next_task = 3\<rparr>"]
  by (auto simp: no_pools_def new_pool_def)

end
