(* ===== verification/Pool_Invariant.thy ===== *)
theory Pool_Invariant
  imports Pool_Queue
begin

text \<open>
  What holds in every state the threads of a pool can reach, whatever their interleaving: who
  holds the mutex, what the queue contains, that no wake-up is lost, and that no thread runs
  into a fault but the caller for whose task there is no memory.
\<close>

section \<open>Taking and waking\<close>

definition take_inv :: "(nat \<Rightarrow> pc) \<Rightarrow> int \<Rightarrow> bool" where
  "take_inv f n \<longleftrightarrow> (\<forall>t. f t = W_Take \<longrightarrow> n \<noteq> 0)"

text \<open>While no worker is cancelled, a queued task has a worker that does not wait, or a
  signal is still to come.\<close>

definition wake_inv :: "(nat \<Rightarrow> pc) \<Rightarrow> int \<Rightarrow> nat set \<Rightarrow> bool" where
  "wake_inv f n can \<longleftrightarrow> can = {} \<longrightarrow> n \<noteq> 0 \<longrightarrow> (\<exists>t > MAIN. f t = Add_Signal) \<or> (\<exists>t < NUM_THREADS. f t \<noteq> W_Wait)"

lemma take_inv_goto: "take_inv f n \<Longrightarrow> c = W_Take \<longrightarrow> n \<noteq> 0 \<Longrightarrow> take_inv (f(t := c)) n"
  by (auto simp: take_inv_def)

text \<open>Only the owner of the mutex changes the counter, and no other thread is about to take.\<close>

lemma take_inv_owner:
  assumes "lock_inv own f" "holds_lock (f t)" "c \<noteq> W_Take"
  shows "take_inv (f(t := c)) n"
proof -
  have "u = t" if "f u = W_Take" for u
  proof -
    have "own = Some t" "own = Some u"
      using assms(1,2) that by (metis holds_lock.simps(6) lock_inv_def)+
    then show ?thesis
      by simp
  qed
  then show ?thesis
    using assms(3) by (auto simp: take_inv_def)
qed

lemma take_inv_step:
  assumes "pool_step s (Inr s')" "lock_inv (owner s) (pcs s)" "take_inv (pcs s) (queued s)"
  shows "take_inv (pcs s') (queued s')"
  using assms(1)
  by (elim pool_stepE client_stepE worker_stepE spurious_stepE main_stepE)
    (auto dest!: free_task_Inr simp: take_inv_goto assms(3) take_inv_owner [OF assms(2)])

lemma wake_inv_worker: "t < NUM_THREADS \<Longrightarrow> c \<noteq> W_Wait \<Longrightarrow> wake_inv (f(t := c)) n can"
  unfolding wake_inv_def by (metis fun_upd_same)

lemma wake_inv_signalling: "MAIN < t \<Longrightarrow> wake_inv (f(t := Add_Signal)) n can"
  unfolding wake_inv_def by (metis fun_upd_same)

lemma wake_inv_none: "\<forall>w < NUM_THREADS. f w \<noteq> W_Wait \<Longrightarrow> wake_inv f n can"
  unfolding wake_inv_def NUM_THREADS_def by (metis zero_less_numeral)

lemma wake_inv_other:
  assumes "wake_inv f n can" "\<not> t < NUM_THREADS" "f t \<noteq> Add_Signal"
  shows "wake_inv (f(t := c)) n can"
  using assms unfolding wake_inv_def by (metis fun_upd_other)

lemma wake_inv_step:
  assumes "pool_step s (Inr s')" "kind_inv (pcs s)" "wake_inv (pcs s) (queued s) (cancels s)"
  shows "wake_inv (pcs s') (queued s') (cancels s')"
  using assms(1)
proof (cases rule: pool_stepE)
  case (1 t)
  have client: "\<not> t < NUM_THREADS"
    using 1(1) by (simp add: MAIN_def)
  from 1(2) show ?thesis
  proof cases
    case (append new h p c)
    then show ?thesis
      by (simp add: wake_inv_signalling 1(1))
  next
    case (signal w)
    then have "(pcs s)(w := W_Woken, t := Add_Unlock) = (pcs s)(t := Add_Unlock, w := W_Woken)"
      using client by (intro fun_upd_twist) auto
    then show ?thesis
      using signal by (simp add: wake_inv_worker)
  next
    case signal_nobody
    then show ?thesis
      by (simp add: wake_inv_none)
  qed (use assms(3) client in \<open>simp_all add: wake_inv_other\<close>)
next
  case (2 t)
  from 2(2) show ?thesis
  proof cases
    case w_wait
    then show ?thesis
      by (simp add: wake_inv_def)
  next
    case (free_first first s'')
    then show ?thesis
      using 2(1) by (auto dest!: free_task_Inr simp: wake_inv_worker)
  qed (use 2(1) in \<open>simp_all add: wake_inv_worker\<close>)
next
  case (3 t)
  then show ?thesis
    by (auto elim!: spurious_stepE simp: wake_inv_worker)
next
  case 4
  have main: "\<not> MAIN < NUM_THREADS"
    by (simp add: MAIN_def)
  from 4 show ?thesis
  proof cases
    case (cancel i)
    then show ?thesis
      by (simp add: wake_inv_def)
  qed (use assms(3) main in \<open>simp_all add: wake_inv_other\<close>)
qed

section \<open>All invariants together\<close>

definition pool_inv :: "machine \<Rightarrow> bool" where
  "pool_inv s \<longleftrightarrow> lock_inv (owner s) (pcs s) \<and> kind_inv (pcs s) \<and> phase_inv (pcs s) (freed s) (cancels s) \<and>
     queue_ok s \<and> take_inv (pcs s) (queued s) \<and> wake_inv (pcs s) (queued s) (cancels s)"

lemma queue_ok_step:
  assumes "pool_step s (Inr s')" "queue_ok s" "take_inv (pcs s) (queued s)"
  shows "queue_ok s'"
  using assms(1)
proof (cases rule: pool_stepE)
  case (2 t)
  then show ?thesis
    using queue_worker_step assms by (auto simp: take_inv_def)
next
  case (3 t)
  then show ?thesis
    by (auto elim!: spurious_stepE intro!: queue_ok_goto [OF assms(2)])
next
  case 4
  then show ?thesis
    by (cases; hypsubst) (rule queue_ok_goto [OF assms(2)]; simp)+
qed (use queue_client_step assms(2) in blast)

lemma pool_inv_step: "pool_step s (Inr s') \<Longrightarrow> pool_inv s \<Longrightarrow> pool_inv s'"
  using lock_inv_step kind_inv_step phase_inv_step queue_ok_step take_inv_step wake_inv_step
  unfolding pool_inv_def by blast

lemma pool_inv_start: "pool_inv machine_start"
proof -
  have "queue_inv machine_start []"
    by (auto simp: queue_inv_def machine_start_def jobs_at_def cells_inv_def args_inv_def arg_at_def)
  then show ?thesis
    by (auto simp: pool_inv_def queue_ok_def machine_start_def lock_inv_def kind_inv_def phase_inv_def take_inv_def
        wake_inv_def MAIN_def)
qed

lemma pool_reachable_inv: "pool_reachable s \<Longrightarrow> pool_inv s"
  by (induction rule: pool_reachable.induct) (use pool_inv_start pool_inv_step in auto)

section \<open>No faults\<close>

lemma append_returns:
  assumes "pool_inv s" "pcs s t = Add_Append new"
  obtains h p c where "append_task (tcells s) (head s) new = Some (Inr (h, p))" "h new = Some c"
proof -
  obtain as where as: "queue_inv s as"
    using assms(1) by (auto simp: pool_inv_def queue_ok_def)
  obtain d where d: "tcells s new = Some d"
    using cells_inv_held [OF queue_inv_dest(5) [OF as] assms(2)] by auto
  from queue_inv_append [OF as assms(2) d] show ?thesis
    using that by blast
qed

lemma take_returns:
  assumes "pool_inv s" "pcs s t = W_Take"
  obtains job where "take_first (tcells s) (head s) = Inr (head s, job, next_task job)"
proof -
  obtain as where as: "queue_inv s as"
    using assms(1) by (auto simp: pool_inv_def queue_ok_def)
  have "queued s \<noteq> 0"
    using assms by (auto simp: pool_inv_def take_inv_def)
  from queue_inv_take [OF as this] show ?thesis
    using that by blast
qed

lemma free_returns:
  assumes "pool_inv s" "pcs s t = W_Free first"
  obtains s' where "free_task first s = Inr s'"
proof -
  obtain as where as: "queue_inv s as"
    using assms(1) by (auto simp: pool_inv_def queue_ok_def)
  from queue_inv_free [OF as assms(2)] show ?thesis
    using that by blast
qed

text \<open>After the pool has been freed nobody uses it.\<close>

lemma freed_unused:
  assumes "pool_inv s" "freed s" "t \<noteq> MAIN"
  shows "\<not> uses_pool (pcs s t)"
proof -
  have phase: "phase_inv (pcs s) (freed s) (cancels s)"
    using assms(1) by (simp add: pool_inv_def)
  then have "pcs s MAIN = Destroyed"
    using assms(2) by (simp add: phase_inv_def)
  then have "MAIN < t \<Longrightarrow> pcs s t = Idle" "t < NUM_THREADS \<Longrightarrow> pcs s t = W_Exit"
    using phase by (auto simp: phase_inv_def)
  then show ?thesis
    using assms(3) by (cases "MAIN < t") (auto simp: MAIN_def)
qed

text \<open>A caller of \<open>Thpool_add_task\<close> faults exactly when \<open>malloc\<close> fails, a worker and \<open>Thpool_destroy\<close> never.\<close>

definition out_of_memory :: "nat \<Rightarrow> machine \<Rightarrow> c_fault \<Rightarrow> bool" where
  "out_of_memory t s e \<longleftrightarrow> e = Null_Dereference \<and> pcs s t = Idle \<and> pcs s MAIN = Idle"

lemma client_fault_only:
  assumes "pool_inv s" "MAIN < t"
  shows "client_step t s (Inl e) \<longleftrightarrow> out_of_memory t s e"
proof
  assume "client_step t s (Inl e)"
  then show "out_of_memory t s e"
  proof cases
    case (append_fault new)
    then show ?thesis
      using append_returns [OF assms(1)] by fastforce
  qed (use freed_unused [OF assms(1)] assms(2) in \<open>auto simp: out_of_memory_def\<close>)
qed (auto simp: out_of_memory_def intro: call_no_memory)

lemma worker_never_faults:
  assumes "pool_inv s" "t < NUM_THREADS"
  shows "\<not> worker_step t s (Inl e)"
proof
  assume "worker_step t s (Inl e)"
  then show False
  proof cases
    case take_fault
    then show False
      using take_returns [OF assms(1)] by fastforce
  next
    case (free_fault first)
    then show False
      using free_returns [OF assms(1)] by fastforce
  qed (use freed_unused [OF assms(1)] assms(2) in \<open>auto simp: MAIN_def\<close>)
qed

lemma pool_faults_only:
  assumes "pool_inv s"
  shows "pool_step s (Inl e) \<longleftrightarrow> (\<exists>t > MAIN. out_of_memory t s e)"
  using client_fault_only [OF assms] worker_never_faults [OF assms]
  by (auto simp: pool_step_def spurious_fault main_fault)

text \<open>A pool to which a client has just added one job.\<close>

definition one_job :: machine where
  "one_job = machine_start\<lparr>tcells := [0x10 \<mapsto> \<lparr>routine_for_task = 7, arg = 0x50, next_task = 0\<rparr>], args := {0x50},
     head := 0x10, queued := 1, added := [(7, 0x50)]\<rparr>"

lemma client_reaches: "pool_reachable s \<Longrightarrow> MAIN < t \<Longrightarrow> client_step t s (Inr s') \<Longrightarrow> pool_reachable s'"
  by (rule pool_reachable.step) (auto simp: pool_step_def)

lemma worker_reaches: "pool_reachable s \<Longrightarrow> t < NUM_THREADS \<Longrightarrow> worker_step t s (Inr s') \<Longrightarrow> pool_reachable s'"
  by (rule pool_reachable.step) (auto simp: pool_step_def)

lemma one_job_reachable: "pool_reachable one_job"
proof -
  let ?c = "\<lparr>routine_for_task = 7, arg = 0x50, next_task = 0\<rparr>"
  let ?t = "Suc MAIN"
  let ?s1 = "goto ?t (Add_Lock 0x10) (machine_start\<lparr>tcells := [0x10 \<mapsto> ?c], args := {0x50}\<rparr>)"
  let ?s2 = "goto ?t (Add_Append 0x10) (?s1\<lparr>owner := Some ?t\<rparr>)"
  let ?s3 = "goto ?t Add_Signal (?s2\<lparr>tcells := [0x10 \<mapsto> ?c], head := 0x10, queued := 1, added := [(7, 0x50)]\<rparr>)"
  let ?s4 = "goto ?t Add_Unlock ?s3"
  let ?s5 = "goto ?t Idle (?s4\<lparr>owner := None\<rparr>)"
  have 1: "client_step ?t machine_start (Inr ?s1)"
    using call [of machine_start ?t "0x10" "0x50" 7] by (simp add: machine_start_def MAIN_def)
  have 2: "client_step ?t ?s1 (Inr ?s2)"
    by (rule add_lock) (simp_all add: machine_start_def)
  have 3: "client_step ?t ?s2 (Inr ?s3)"
    using append [of ?s2 ?t "0x10" "tcells ?s2" "0x10" ?c]
    by (simp add: machine_start_def append_task_def job_of_def)
  have 4: "client_step ?t ?s3 (Inr ?s4)"
    by (rule signal_nobody) (simp_all add: machine_start_def MAIN_def)
  have 5: "client_step ?t ?s4 (Inr ?s5)"
    by (rule add_unlock) simp
  have "pool_reachable ?s5"
    by (rule client_reaches [OF _ _ 5], rule client_reaches [OF _ _ 4], rule client_reaches [OF _ _ 3],
        rule client_reaches [OF _ _ 2], rule client_reaches [OF _ _ 1], rule start) simp_all
  moreover have "?s5 = one_job"
    by (simp add: one_job_def machine_start_def goto_def MAIN_def fun_eq_iff)
  ultimately show ?thesis
    by simp
qed

text \<open>
  C1: In every state the threads of a pool can reach by adding, taking, running and destroying, in any
  interleaving, with spurious wake-ups: the only step that is a fault is that of a caller of \<open>Thpool_add_task\<close>
  for which \<open>malloc\<close> finds no memory, which writes through the null pointer; no other null or freed cell is
  used, no block is freed twice, and the pool is not used after it has been freed.  Exactly the owner of the mutex
  is between lock and unlock; \<open>counter\<close> is the number of queued tasks; and the jobs taken so far
  followed by the queued ones are the jobs added, in that order.
\<close>

theorem pool_reachable_safe:
  assumes "pool_reachable s"
  shows "(pool_step s (Inl e) \<longleftrightarrow> e = Null_Dereference \<and> pcs s MAIN = Idle \<and> (\<exists>t > MAIN. pcs s t = Idle)) \<and>
    (\<forall>t < NUM_THREADS. \<not> worker_step t s (Inl e)) \<and> \<not> main_step s (Inl e) \<and>
    (\<forall>t > MAIN. client_step t s (Inl e) \<longleftrightarrow> e = Null_Dereference \<and> pcs s t = Idle \<and> pcs s MAIN = Idle) \<and>
    (\<forall>t. holds_lock (pcs s t) \<longleftrightarrow> owner s = Some t) \<and>
    (\<exists>as. chain (tcells s) (head s) as \<and> queued s = int (length as) \<and> added s = taken s @ jobs_at (tcells s) as) \<and>
    (freed s \<longrightarrow> (\<forall>t < NUM_THREADS. pcs s t = W_Exit))"
proof -
  have inv: "pool_inv s"
    by (rule pool_reachable_inv [OF assms])
  then obtain as where "queue_inv s as"
    by (auto simp: pool_inv_def queue_ok_def)
  then have "\<exists>as. chain (tcells s) (head s) as \<and> queued s = int (length as) \<and> added s = taken s @ jobs_at (tcells s) as"
    by (auto simp: queue_inv_def)
  moreover have "freed s \<longrightarrow> (\<forall>t < NUM_THREADS. pcs s t = W_Exit)" "\<forall>t. holds_lock (pcs s t) \<longleftrightarrow> owner s = Some t"
    using inv by (auto simp: pool_inv_def lock_inv_def phase_inv_def)
  moreover have "pool_step s (Inl e) \<longleftrightarrow> e = Null_Dereference \<and> pcs s MAIN = Idle \<and> (\<exists>t > MAIN. pcs s t = Idle)"
    using pool_faults_only [OF inv] by (auto simp: out_of_memory_def)
  moreover have "\<forall>t < NUM_THREADS. \<not> worker_step t s (Inl e)" "\<not> main_step s (Inl e)"
    using worker_never_faults [OF inv] by (simp_all add: main_fault)
  moreover have "\<forall>t > MAIN. client_step t s (Inl e) \<longleftrightarrow> e = Null_Dereference \<and> pcs s t = Idle \<and> pcs s MAIN = Idle"
    using client_fault_only [OF inv] by (simp add: out_of_memory_def)
  ultimately show ?thesis
    by blast
qed

lemma pool_reachable_safe_witness:
  "\<not> pool_step one_job (Inl Use_After_Free) \<and> client_step 4 one_job (Inl Null_Dereference) \<and>
    (\<exists>as. chain (tcells one_job) 0x10 as \<and> length as = 1)"
proof -
  have "head one_job = 0x10" "queued one_job = 1" "pcs one_job 4 = Idle" "pcs one_job MAIN = Idle" "MAIN < 4"
    by (simp_all add: one_job_def machine_start_def MAIN_def NUM_THREADS_def)
  then show ?thesis
    using pool_reachable_safe [OF one_job_reachable, of Use_After_Free]
      pool_reachable_safe [OF one_job_reachable, of Null_Dereference] by auto
qed

end
