(* ===== verification/Pool_Progress.thy ===== *)
theory Pool_Progress
  imports Pool_Invariant "HOL-Library.Multiset"
begin

text \<open>
  Progress of a pool: no wake-up is lost, so left alone the workers run every task that was added
  and then wait, and \<open>Thpool_destroy\<close> ends.  Both are shown with a measure that every step
  of a worker or of the destroying thread makes smaller; spurious wake-ups, of which there may be any
  number, are not counted as steps here.  The routines of the tasks are taken to return.
\<close>

section \<open>A worker can go on\<close>

lemma owner_can_step:
  assumes "pool_inv s" "owner s = Some t" "t < NUM_THREADS"
  shows "\<exists>s'. worker_step t s (Inr s')"
proof -
  have holds: "holds_lock (pcs s t)" and kind: "worker_pc (pcs s t)"
    using assms by (simp_all add: pool_inv_def lock_inv_def kind_inv_def)
  show ?thesis
  proof (cases "pcs s t")
    case W_Test
    then show ?thesis
      using w_test w_wait w_wait_cancelled by (cases "queued s = 0"; cases "t \<in> cancels s") blast+
  next
    case W_Take
    then show ?thesis
      using take_returns [OF assms(1) W_Take] take_task by metis
  next
    case (W_Unlock first job)
    then show ?thesis
      using w_unlock by blast
  next
    case W_Cleanup
    then show ?thesis
      using cleanup_handler by blast
  qed (use holds kind in simp_all)
qed

lemma worker_can_step:
  assumes "pool_inv s" "owner s = None" "t < NUM_THREADS" "pcs s t \<noteq> W_Exit" "pcs s t = W_Wait \<Longrightarrow> t \<in> cancels s"
  shows "\<exists>s'. worker_step t s (Inr s')"
proof -
  have "\<not> holds_lock (pcs s t)" and kind: "worker_pc (pcs s t)"
    using assms by (simp_all add: pool_inv_def lock_inv_def kind_inv_def)
  then show ?thesis
  proof (cases "pcs s t")
    case W_Lock
    then show ?thesis
      using w_lock assms(2) by blast
  next
    case W_Wait
    then show ?thesis
      using wait_cancelled assms(5) by blast
  next
    case W_Woken
    then show ?thesis
      using w_woken assms(2) by blast
  next
    case (W_Run first job)
    then show ?thesis
      using run_task by blast
  next
    case (W_Free first)
    then show ?thesis
      using free_returns [OF assms(1) W_Free] free_first by metis
  next
    case W_Cleanup_Lock
    then show ?thesis
      using cleanup_lock assms(2) by blast
  qed (use assms(4) in simp_all)
qed

section \<open>The measure\<close>


fun rank :: "pc \<Rightarrow> nat" where
  "rank (W_Unlock first job) = 8"
| "rank (W_Run first job) = 7"
| "rank (W_Free first) = 6"
| "rank W_Lock = 5"
| "rank W_Woken = 5"
| "rank W_Test = 4"
| "rank W_Wait = 3"
| "rank W_Cleanup_Lock = 2"
| "rank W_Cleanup = 1"
| "rank c = 0"

definition work :: "machine \<Rightarrow> nat" where
  "work s = 9 * nat (queued s) + (\<Sum>t < NUM_THREADS. rank (pcs s t))"

lemma sum_upd:
  fixes g :: "pc \<Rightarrow> 'a :: cancel_comm_monoid_add"
  assumes "t < NUM_THREADS"
  shows "(\<Sum>u < NUM_THREADS. g ((f(t := c)) u)) + g (f t) = (\<Sum>u < NUM_THREADS. g (f u)) + g c"
proof -
  have "t \<in> {..<NUM_THREADS}"
    using assms by simp
  note split = sum.remove [OF finite_lessThan this]
  have "(\<Sum>u \<in> {..<NUM_THREADS} - {t}. g ((f(t := c)) u)) = (\<Sum>u \<in> {..<NUM_THREADS} - {t}. g (f u))"
    by (rule sum.cong) simp_all
  then show ?thesis
    using split [of "\<lambda>u. g ((f(t := c)) u)"] split [of "\<lambda>u. g (f u)"] by (simp add: ac_simps)
qed

lemma sum_upd_other:
  fixes g :: "pc \<Rightarrow> 'a :: comm_monoid_add"
  assumes "\<not> t < NUM_THREADS"
  shows "(\<Sum>u < NUM_THREADS. g ((f(t := c)) u)) = (\<Sum>u < NUM_THREADS. g (f u))"
  using assms by (intro sum.cong) auto

lemma count_nonneg: "pool_inv s \<Longrightarrow> 0 \<le> queued s"
  by (auto simp: pool_inv_def queue_ok_def queue_inv_def)

lemma work_goto:
  assumes "t < NUM_THREADS" "queued s' = queued s" "pcs s' = pcs s" "rank c < rank (pcs s t)"
  shows "work (goto t c s') < work s"
  using sum_upd [OF assms(1), of rank "pcs s" c] assms by (simp add: work_def)

lemma worker_step_work:
  assumes "worker_step t s (Inr s')" "t < NUM_THREADS" "pool_inv s"
  shows "work s' < work s"
  using assms(1)
proof cases
  case (take_task first job p)
  have "0 < queued s"
    using assms(3) take_task(2) count_nonneg [OF assms(3)] by (auto simp: pool_inv_def take_inv_def)
  then have "nat (queued s) = Suc (nat (queued s - 1))"
    by linarith
  then show ?thesis
    using sum_upd [OF assms(2), of rank "pcs s" "W_Unlock first job"] take_task(1,2) by (simp add: work_def)
next
  case (free_first first s'')
  then show ?thesis
    using assms(2) by (auto dest!: free_task_Inr intro!: work_goto)
qed (use assms(2) in \<open>simp_all add: work_goto\<close>)

section \<open>Every taken job is run once\<close>

fun running :: "pc \<Rightarrow> job multiset" where
  "running (W_Unlock first job) = {#job_of job#}"
| "running (W_Run first job) = {#job_of job#}"
| "running c = {#}"

definition done_inv :: "machine \<Rightarrow> bool" where
  "done_inv s \<longleftrightarrow> (cancels s = {} \<longrightarrow>
     mset (taken s) = mset (finished s) + (\<Sum>t < NUM_THREADS. running (pcs s t)))"

lemma done_inv_goto:
  assumes "done_inv s" "t < NUM_THREADS" "cancels s' = cancels s" "pcs s' = pcs s"
    "cancels s = {} \<Longrightarrow> mset (taken s') + running (pcs s t) + mset (finished s) =
      mset (taken s) + running c + mset (finished s')"
  shows "done_inv (goto t c s')"
proof -
  have "mset (taken s') = mset (finished s') + (\<Sum>u < NUM_THREADS. running (((pcs s)(t := c)) u))"
    if "cancels s = {}"
  proof -
    let ?S = "\<Sum>u < NUM_THREADS. running (((pcs s)(t := c)) u)"
    have "mset (taken s) = mset (finished s) + (\<Sum>u < NUM_THREADS. running (pcs s u))"
      using assms(1) that by (simp add: done_inv_def)
    then have "mset (taken s') + running (pcs s t) + mset (finished s) =
        (mset (finished s') + ?S) + running (pcs s t) + mset (finished s)"
      using assms(5) [OF that] sum_upd [OF assms(2), of running "pcs s" c] by (simp add: ac_simps)
    then show ?thesis
      by simp
  qed
  then show ?thesis
    using assms(3,4) by (simp add: done_inv_def)
qed

lemma done_inv_other:
  assumes "done_inv s" "\<not> t < NUM_THREADS" "cancels s' = cancels s" "pcs s' = pcs s" "taken s' = taken s"
    "finished s' = finished s"
  shows "done_inv (goto t c s')"
  using assms sum_upd_other [OF assms(2), of running "pcs s" c] by (simp add: done_inv_def)

lemma done_inv_step:
  assumes "pool_step s (Inr s')" "done_inv s"
  shows "done_inv s'"
  using assms(1)
proof (cases rule: pool_stepE)
  case (1 t)
  have t: "\<not> t < NUM_THREADS"
    using 1(1) by (simp add: MAIN_def)
  from 1(2) show ?thesis
  proof cases
    case (signal w)
    have "done_inv (goto w W_Woken s)"
      by (rule done_inv_goto [OF assms(2)]) (use signal in simp_all)
    then show ?thesis
      unfolding signal(1) [simplified] by (rule done_inv_other) (use t in simp_all)
  qed (hypsubst?, simp?, rule done_inv_other [OF assms(2) t]; simp)+
next
  case (2 t)
  from 2(2) show ?thesis
  proof cases
    case (run_cancelled first job)
    then have "cancels s' \<noteq> {}"
      by auto
    then show ?thesis
      by (simp add: done_inv_def)
  next
    case (free_first first s'')
    then show ?thesis
      using 2(1) by (auto dest!: free_task_Inr intro!: done_inv_goto [OF assms(2)])
  qed (simp, rule done_inv_goto [OF assms(2) 2(1)]; simp)+
next
  case (3 t)
  then show ?thesis
    by (auto elim!: spurious_stepE intro!: done_inv_goto [OF assms(2)])
next
  case 4
  have t: "\<not> MAIN < NUM_THREADS"
    by (simp add: MAIN_def)
  from 4 show ?thesis
  proof cases
    case (cancel i)
    then show ?thesis
      by (simp add: done_inv_def)
  qed (hypsubst, rule done_inv_other [OF assms(2) t]; simp)+
qed

lemma pool_reachable_done: "pool_reachable s \<Longrightarrow> done_inv s"
proof (induction rule: pool_reachable.induct)
  case start
  have "(\<Sum>t < NUM_THREADS. running (pcs machine_start t)) = {#}"
    by (intro sum.neutral) (simp add: machine_start_def)
  then show ?case
    by (simp add: done_inv_def machine_start_def)
qed (use done_inv_step in blast)

section \<open>The workers alone\<close>

text \<open>\<open>steps R s n s'\<close>: \<open>n\<close> steps of \<open>R\<close> lead from \<open>s\<close> to \<open>s'\<close>, with no fault.\<close>

inductive steps :: "(machine \<Rightarrow> machine result \<Rightarrow> bool) \<Rightarrow> machine \<Rightarrow> nat \<Rightarrow> machine \<Rightarrow> bool" for R s where
  none: "steps R s 0 s"
| more: "steps R s n s' \<Longrightarrow> R s' (Inr s'') \<Longrightarrow> steps R s (Suc n) s''"

definition workers :: "machine \<Rightarrow> machine result \<Rightarrow> bool" where
  "workers s r \<longleftrightarrow> (\<exists>t < NUM_THREADS. worker_step t s r)"

lemma workers_pool: "workers s r \<Longrightarrow> pool_step s r"
  by (auto simp: workers_def pool_step_def)

lemma steps_reachable:
  assumes "\<And>s s'. R s (Inr s') \<Longrightarrow> pool_step s (Inr s')" "pool_reachable s" "steps R s n s'"
  shows "pool_reachable s'"
  using assms(3) by induction (use assms(1,2) pool_reachable.step in blast)+

text \<open>A measure that every step makes smaller bounds the number of steps.\<close>

lemma steps_bounded:
  assumes "\<And>s s'. R s (Inr s') \<Longrightarrow> pool_step s (Inr s')" "pool_reachable s" "steps R s n s'"
    "\<And>s s'. R s (Inr s') \<Longrightarrow> pool_inv s \<Longrightarrow> m s' < (m s :: nat)"
  shows "n + m s' \<le> m s"
  using assms(3)
proof induction
  case (more n s' s'')
  have "pool_inv s'"
    by (rule pool_reachable_inv [OF steps_reachable [OF assms(1,2) more(1)]])
  then show ?case
    using more(3) assms(4) [OF more(2)] by simp
qed simp

text \<open>So there is a run to the end.\<close>

lemma steps_end:
  assumes "\<And>s s'. R s (Inr s') \<Longrightarrow> pool_step s (Inr s')" "pool_reachable s"
    "\<And>s s'. R s (Inr s') \<Longrightarrow> pool_inv s \<Longrightarrow> m s' < (m s :: nat)"
  shows "\<exists>n s'. steps R s n s' \<and> \<not> (\<exists>s''. R s' (Inr s''))"
proof (rule ccontr)
  assume never: "\<not> ?thesis"
  have "\<exists>s'. steps R s n s'" for n
  proof (induction n)
    case (Suc n)
    then show ?case
      using never more by blast
  qed (use none in blast)
  then obtain s' where run: "steps R s (Suc (m s)) s'"
    by blast
  have "Suc (m s) + m s' \<le> m s"
  proof (rule steps_bounded [where R = R])
    show "steps R s (Suc (m s)) s'"
      by fact
  qed (use assms in blast)+
  then show False
    by simp
qed

text \<open>What the workers leave alone.\<close>

lemma worker_keeps:
  assumes "worker_step t s (Inr s')" "t < NUM_THREADS"
  shows "cancels s' = cancels s \<and> added s' = added s \<and> (\<forall>u. \<not> u < NUM_THREADS \<longrightarrow> pcs s' u = pcs s u)"
  using assms by (elim worker_stepE) (auto dest!: free_task_Inr)

lemma workers_keep:
  "steps workers s n s' \<Longrightarrow>
   cancels s' = cancels s \<and> added s' = added s \<and> (\<forall>u. \<not> u < NUM_THREADS \<longrightarrow> pcs s' u = pcs s u)"
proof (induction rule: steps.induct)
  case (more n s' s'')
  then show ?case
    using worker_keeps by (fastforce simp: workers_def)
qed simp

text \<open>When no worker can step and nobody else is at work, all workers wait and the queue is empty.\<close>

lemma workers_stuck:
  assumes "pool_inv s" "cancels s = {}" "\<forall>t \<ge> MAIN. pcs s t = Idle" "\<forall>s'. \<not> workers s (Inr s')"
  shows "(\<forall>t < NUM_THREADS. pcs s t = W_Wait) \<and> queued s = 0"
proof -
  have idle: "pcs s t = Idle" if "\<not> t < NUM_THREADS" for t
    using assms(3) that by (simp add: MAIN_def)
  have stuck: "t < NUM_THREADS \<Longrightarrow> \<not> (\<exists>s'. worker_step t s (Inr s'))" for t
    using assms(4) by (auto simp: workers_def)
  have "owner s = None"
  proof (rule ccontr)
    assume "owner s \<noteq> None"
    then obtain t where t: "owner s = Some t"
      by auto
    then have "holds_lock (pcs s t)"
      using assms(1) by (simp add: pool_inv_def lock_inv_def)
    then have "t < NUM_THREADS"
      using idle [of t] by (cases "t < NUM_THREADS") simp_all
    then show False
      using owner_can_step [OF assms(1) t] stuck by blast
  qed
  moreover have "pcs s t \<noteq> W_Exit" if "t < NUM_THREADS" for t
    using assms(1,2) phase_inv_ending [of "pcs s" "freed s" "cancels s" t W_Exit] by (auto simp: pool_inv_def)
  ultimately have "pcs s t = W_Wait" if "t < NUM_THREADS" for t
    using worker_can_step [OF assms(1) _ that] stuck [OF that] that by blast
  moreover from this have "queued s = 0"
    using assms(1,2) idle unfolding pool_inv_def wake_inv_def
    by (metis MAIN_def less_asym pc.distinct(5))
  ultimately show ?thesis
    by blast
qed

lemma workers_steps:
  assumes "pool_reachable s" "steps workers s n s'"
  shows "pool_reachable s'" "n + work s' \<le> work s"
  using steps_reachable [OF workers_pool assms] steps_bounded [OF workers_pool assms, of work] worker_step_work
  by (auto simp: workers_def)

text \<open>
  C2: No wake-up is lost and no task is forgotten: from any reachable state in which no worker has been cancelled and no
  other thread is inside an operation of the pool, the workers alone make at most \<open>work s\<close> steps, and
  when none of them can make another, all of them wait for the next task, the queue is empty, and every job
  ever added has been taken in the order of adding and run to its end exactly once.
\<close>

theorem pool_drains:
  assumes "pool_reachable s" "cancels s = {}" "\<forall>t \<ge> MAIN. pcs s t = Idle" "steps workers s n s'"
  shows "n \<le> work s \<and> ((\<exists>s''. workers s' (Inr s'')) \<or>
    ((\<forall>t < NUM_THREADS. pcs s' t = W_Wait) \<and> queued s' = 0 \<and> taken s' = added s \<and>
     mset (finished s') = mset (added s)))"
proof -
  note run = workers_steps [OF assms(1,4)]
  have inv: "pool_inv s'" "done_inv s'"
    by (rule pool_reachable_inv pool_reachable_done; rule run(1))+
  have keep: "cancels s' = {}" "added s' = added s" "\<forall>t \<ge> MAIN. pcs s' t = Idle"
    using workers_keep [OF assms(4)] assms(2,3) by (simp_all add: MAIN_def)
  show ?thesis
  proof (cases "\<exists>s''. workers s' (Inr s'')")
    case False
    then have wait: "\<forall>t < NUM_THREADS. pcs s' t = W_Wait" "queued s' = 0"
      using workers_stuck [OF inv(1) keep(1,3)] by blast+
    obtain as where as: "queue_inv s' as"
      using inv(1) by (auto simp: pool_inv_def queue_ok_def)
    then have "taken s' = added s"
      using wait(2) keep(2) by (simp add: queue_inv_def jobs_at_def)
    moreover have "(\<Sum>t < NUM_THREADS. running (pcs s' t)) = {#}"
      using wait(1) by (intro sum.neutral) simp
    ultimately have "mset (finished s') = mset (added s)"
      using inv(2) keep(1) by (simp add: done_inv_def)
    then show ?thesis
      using wait \<open>taken s' = added s\<close> run(2) by simp
  qed (use run(2) in simp)
qed

lemma workers_work: "workers s (Inr s') \<Longrightarrow> pool_inv s \<Longrightarrow> work s' < work s"
  using worker_step_work by (auto simp: workers_def)

lemma pool_drains_witness:
  "\<exists>n s'. steps workers one_job n s' \<and> n \<le> 24 \<and> finished s' = [(7, 0x50)]"
proof -
  obtain n s' where run: "steps workers one_job n s'" "\<not> (\<exists>s''. workers s' (Inr s''))"
    using steps_end [where R = workers and m = work, OF workers_pool one_job_reachable workers_work] by blast
  have "work one_job = 24"
    by (simp add: work_def one_job_def machine_start_def NUM_THREADS_def eval_nat_numeral)
  moreover have "cancels one_job = {}" "\<forall>t \<ge> MAIN. pcs one_job t = Idle" "added one_job = [(7, 0x50)]"
    by (simp_all add: one_job_def machine_start_def MAIN_def)
  ultimately have "n \<le> 24 \<and> finished s' = [(7, 0x50)]"
    using pool_drains [OF one_job_reachable _ _ run(1)] run(2) by simp
  then show ?thesis
    using run(1) by blast
qed

section \<open>Destruction\<close>

fun main_rank :: "pc \<Rightarrow> nat" where
  "main_rank Destroy_Lock = 2 * NUM_THREADS + 4"
| "main_rank Destroy_Unlock = 2 * NUM_THREADS + 3"
| "main_rank (Cancel i) = NUM_THREADS + 2 + (NUM_THREADS - i)"
| "main_rank (Join i) = 2 + (NUM_THREADS - i)"
| "main_rank Free_Pool = 1"
| "main_rank c = 0"

definition destroying :: "machine \<Rightarrow> machine result \<Rightarrow> bool" where
  "destroying s r \<longleftrightarrow> pcs s MAIN \<noteq> Idle \<and> (workers s r \<or> main_step s r)"

definition end_work :: "machine \<Rightarrow> nat" where
  "end_work s = work s + main_rank (pcs s MAIN)"

lemma destroying_pool: "destroying s r \<Longrightarrow> pool_step s r"
  by (auto simp: destroying_def workers_def pool_step_def)

lemma main_step_rank:
  assumes "main_step s (Inr s')" "pool_inv s" "pcs s MAIN \<noteq> Idle"
  shows "work s' = work s \<and> main_rank (pcs s' MAIN) < main_rank (pcs s MAIN) \<and> pcs s' MAIN \<noteq> Idle"
proof -
  have "\<not> MAIN < NUM_THREADS" and kind: "main_pc (pcs s MAIN)"
    using assms(2) by (simp_all add: MAIN_def pool_inv_def kind_inv_def)
  then have "work (goto MAIN c s'') = work s" if "queued s'' = queued s" "pcs s'' = pcs s" for c s''
    using that sum_upd_other [of MAIN rank "pcs s" c] by (simp add: work_def)
  then show ?thesis
    using assms(1,3) kind by (elim main_stepE) auto
qed

lemma destroying_work: "destroying s (Inr s') \<Longrightarrow> pool_inv s \<Longrightarrow> end_work s' < end_work s"
proof (unfold destroying_def, elim conjE disjE)
  assume "workers s (Inr s')" "pool_inv s"
  then obtain t where t: "t < NUM_THREADS" "worker_step t s (Inr s')"
    by (auto simp: workers_def)
  then have "pcs s' MAIN = pcs s MAIN"
    using worker_keeps [OF t(2,1)] by (simp add: MAIN_def)
  then show ?thesis
    using worker_step_work [OF t(2,1) \<open>pool_inv s\<close>] by (simp add: end_work_def)
next
  assume "main_step s (Inr s')" "pool_inv s" "pcs s MAIN \<noteq> Idle"
  then show ?thesis
    using main_step_rank by (fastforce simp: end_work_def)
qed

lemma destroying_goes_on: "steps destroying s n s' \<Longrightarrow> pcs s MAIN \<noteq> Idle \<Longrightarrow> pool_reachable s \<Longrightarrow> pcs s' MAIN \<noteq> Idle"
proof (induction rule: steps.induct)
  case (more n s' s'')
  have inv: "pool_inv s'"
    by (rule pool_reachable_inv [OF steps_reachable [OF destroying_pool more(5,1)]])
  from more(2) show ?case
    unfolding destroying_def
  proof (elim conjE disjE)
    assume "workers s' (Inr s'')" "pcs s' MAIN \<noteq> Idle"
    then show "pcs s'' MAIN \<noteq> Idle"
      using worker_keeps by (fastforce simp: workers_def MAIN_def)
  qed (use main_step_rank [OF _ inv] in blast)
qed

text \<open>The destroying thread can go on, or some worker can, until the pool is freed.\<close>

lemma destroying_stuck:
  assumes "pool_inv s" "pcs s MAIN \<noteq> Idle" "\<forall>s'. \<not> destroying s (Inr s')"
  shows "freed s"
proof -
  have phase: "phase_inv (pcs s) (freed s) (cancels s)" and kind: "main_pc (pcs s MAIN)"
    using assms(1) by (simp_all add: pool_inv_def kind_inv_def)
  have no_main: "\<not> main_step s (Inr s')" and no_worker: "t < NUM_THREADS \<Longrightarrow> \<not> worker_step t s (Inr s')" for t s'
    using assms(2,3) by (auto simp: destroying_def workers_def)
  have owner: "owner s = None" if "\<not> holds_lock (pcs s MAIN)"
  proof (rule ccontr)
    assume "owner s \<noteq> None"
    then obtain t where t: "owner s = Some t"
      by auto
    then have holds: "holds_lock (pcs s t)"
      using assms(1) by (simp add: pool_inv_def lock_inv_def)
    have "\<not> MAIN < t"
      using holds phase assms(2) unfolding phase_inv_def by (metis holds_lock.simps(9))
    moreover have "t \<noteq> MAIN"
      using holds that by auto
    ultimately have "t < NUM_THREADS"
      by (simp add: MAIN_def)
    then show False
      using owner_can_step [OF assms(1) t] no_worker by blast
  qed
  show ?thesis
  proof (cases "pcs s MAIN")
    case Destroy_Lock
    then show ?thesis
      using owner no_main destroy_lock [of s] by auto
  next
    case Destroy_Unlock
    then show ?thesis
      using no_main destroy_unlock [of s] by blast
  next
    case (Cancel i)
    then show ?thesis
      using no_main cancel [of s i] by blast
  next
    case (Join i)
    have i: "i < NUM_THREADS" "i \<in> cancels s"
      using Join kind phase by (simp_all add: phase_inv_def)
    have "pcs s i \<noteq> W_Exit"
      using no_main join [OF Join] by blast
    then show ?thesis
      using worker_can_step [OF assms(1) owner i(1)] no_worker [OF i(1)] Join i(2) by auto
  next
    case Free_Pool
    then show ?thesis
      using no_main free_pool [of s] by blast
  next
    case Destroyed
    then show ?thesis
      using phase by (simp add: phase_inv_def)
  qed (use assms(2) kind in simp_all)
qed

text \<open>
  C10: \<open>Thpool_destroy\<close> ends: once it has been called, it and the workers make at most \<open>end_work s\<close> more
  steps in any order, and when neither can make another, every worker has been joined and the pool is
  freed.  It does not wait for the queued tasks to be run.
\<close>

theorem pool_destroy_ends:
  assumes "pool_reachable s" "pcs s MAIN \<noteq> Idle" "steps destroying s n s'"
  shows "n \<le> end_work s \<and> ((\<exists>s''. destroying s' (Inr s'')) \<or>
    (freed s' \<and> (\<forall>t < NUM_THREADS. pcs s' t = W_Exit) \<and> (\<exists>jobs. added s' = taken s' @ jobs)))"
proof -
  have "pool_reachable s'"
    by (rule steps_reachable [OF destroying_pool assms(1,3)])
  then have inv: "pool_inv s'"
    by (rule pool_reachable_inv)
  have "n + end_work s' \<le> end_work s"
    by (rule steps_bounded [OF destroying_pool assms(1,3) destroying_work])
  moreover have "freed s' \<and> (\<forall>t < NUM_THREADS. pcs s' t = W_Exit)" if "\<not> (\<exists>s''. destroying s' (Inr s''))"
  proof -
    have "freed s'"
      using destroying_stuck [OF inv destroying_goes_on [OF assms(3,2,1)]] that by blast
    then show ?thesis
      using inv by (auto simp: pool_inv_def phase_inv_def)
  qed
  moreover have "\<exists>jobs. added s' = taken s' @ jobs"
    using inv by (auto simp: pool_inv_def queue_ok_def queue_inv_def)
  ultimately show ?thesis
    by auto
qed


lemma pool_destroy_ends_witness:
  "\<exists>n s'. steps destroying (goto MAIN Destroy_Lock one_job) n s' \<and> n \<le> 34 \<and> freed s'"
proof -
  let ?s = "goto MAIN Destroy_Lock one_job"
  have "main_step one_job (Inr ?s)"
    by (rule destroy) (simp_all add: one_job_def machine_start_def MAIN_def)
  then have reach: "pool_reachable ?s"
    using one_job_reachable by (auto intro: pool_reachable.step simp: pool_step_def)
  obtain n s' where run: "steps destroying ?s n s'" "\<not> (\<exists>s''. destroying s' (Inr s''))"
    using steps_end [where R = destroying and m = end_work, OF destroying_pool reach destroying_work] by blast
  have "end_work ?s = 34" "pcs ?s MAIN \<noteq> Idle"
    by (simp_all add: end_work_def work_def one_job_def machine_start_def MAIN_def NUM_THREADS_def eval_nat_numeral)
  then have "n \<le> 34 \<and> freed s'"
    using pool_destroy_ends [OF reach _ run(1)] run(2) by simp
  then show ?thesis
    using run(1) by blast
qed

end
