(* ===== verification/Client.thy ===== *)
theory Client
  imports Tasks
begin

text \<open>
  \<^verbatim>\<open>Chat/src/client.c\<close>: the connection to another peer.  What \<open>getaddrinfo\<close>, \<open>socket\<close> and
  \<open>connect\<close> return is a parameter; a trace keeps which descriptors were opened and closed, the latest first.
\<close>

section \<open>State\<close>

datatype net_event =
    Opened int
  | Shut int

text \<open>The descriptors a trace leaves open; the latest event comes first.\<close>

fun open_fds :: "net_event list \<Rightarrow> int list" where
  "open_fds [] = []"
| "open_fds (Opened fd # es) = fd # open_fds es"
| "open_fds (Shut fd # es) = remove1 fd (open_fds es)"

text \<open>\<open>protocol\<close> and \<open>sock_fd\<close> are the globals of the file; the pointer is null until
  \<open>Client_protocol\<close> has been called.\<close>

record client_state =
  protocol :: "u8 list option"
  sock_fd :: int
  cerrno :: int
  net :: "net_event list"

type_synonym address = nat

text \<open>\<open>getaddrinfo\<close> and the calls on sockets, the latter after a history of events; the last argument of
  \<open>socket_call\<close> is \<open>None\<close> for an SCTP socket.\<close>

record sockets =
  lookup :: "u8 list option \<Rightarrow> int \<times> address list"
  socket_call :: "net_event list \<Rightarrow> address option \<Rightarrow> int"
  connect_call :: "int \<Rightarrow> address option \<Rightarrow> int"

definition shut :: "int \<Rightarrow> client_state \<Rightarrow> client_state" where
  "shut fd st = st\<lparr>net := Shut fd # net st\<rparr>"

text \<open>\<open>sock_fd = socket(...)\<close>\<close>

definition new_socket :: "sockets \<Rightarrow> address option \<Rightarrow> client_state \<Rightarrow> client_state" where
  "new_socket lib a st =
     (let fd = socket_call lib (net st) a in
      st\<lparr>sock_fd := fd, net := (if fd = -1 then net st else Opened fd # net st)\<rparr>)"

section \<open>Operations\<close>

definition Client_protocol :: "u8 list \<Rightarrow> client_state \<Rightarrow> client_state" where
  "Client_protocol p st = st\<lparr>protocol := Some p\<rparr>"

text \<open>The loop over the addresses, with the remaining ones; the result says whether \<open>p\<close> is not null
  behind it.\<close>

fun connect_loop :: "sockets \<Rightarrow> address list \<Rightarrow> client_state \<Rightarrow> bool \<times> client_state" where
  "connect_loop lib [] st = (False, st)"
| "connect_loop lib (a # as) st =
     (let st = new_socket lib (Some a) st in
      if sock_fd st = -1 then connect_loop lib as st
      else if connect_call lib (sock_fd st) (Some a) = -1 then connect_loop lib as (shut (sock_fd st) st)
      else (True, st))"

definition SCTP :: "u8 list" where
  "SCTP = bytes_of ''-sctp'' @ [0]"

definition Client_connect :: "sockets \<Rightarrow> u8 list \<Rightarrow> client_state \<Rightarrow> (int \<times> client_state) result" where
  "Client_connect lib server_ip st =
     (case protocol st of
        None \<Rightarrow> Inl Null_Dereference
      | Some p \<Rightarrow>
          bind_r (strcmp_eq p SCTP) (\<lambda>sctp.
          if sctp then
            let st = new_socket lib None st in
            if sock_fd st = -1 then Inr (-1, st)
            else
              let st = (if connect_call lib (sock_fd st) None \<noteq> 0 then shut (sock_fd st) st else st)
              in Inr (sock_fd st, st)
          else
            let (e, addresses) = lookup lib (Some server_ip); st = st\<lparr>cerrno := e\<rparr> in
            if e \<noteq> 0 then Inr (-1, st)
            else
              let (found, st) = connect_loop lib addresses st in
              if \<not> found then Inr (-1, st\<lparr>cerrno := EPERM\<rparr>) else Inr (sock_fd st, st)))"

section \<open>What is left open\<close>

lemma connect_loop_outcome:
  assumes "connect_loop lib as st = (found, st')"
  shows "open_fds (net st') = (if found then [sock_fd st'] else []) @ open_fds (net st) \<and>
    (found \<longrightarrow> sock_fd st' \<noteq> -1 \<and> (\<exists>a \<in> set as. connect_call lib (sock_fd st') (Some a) \<noteq> -1)) \<and>
    protocol st' = protocol st"
  using assms
proof (induction as arbitrary: st)
  case (Cons a as)
  then show ?case
    by (fastforce simp: new_socket_def shut_def Let_def split: if_splits)
qed simp

text \<open>
  C24: Over TCP \<open>Client_connect\<close> returns the first socket that connects, or -1 when none does, and closes every
  other socket it opened.  Over SCTP a failed \<open>connect\<close> is not reported: the descriptor is closed, and its number is
  returned as if it were connected.
\<close>

theorem Client_connect_outcomes:
  assumes "protocol st = Some p" "strcmp_eq p SCTP = Inr sctp"
  shows "\<exists>r st'. Client_connect lib ip st = Inr (r, st') \<and>
    (if sctp then
       r = socket_call lib (net st) None \<and>
       (r \<noteq> -1 \<longrightarrow> open_fds (net st') =
          (if connect_call lib r None \<noteq> 0 then open_fds (net st) else r # open_fds (net st)))
     else
       open_fds (net st') = (if r = -1 then [] else [r]) @ open_fds (net st) \<and>
       (r \<noteq> -1 \<longrightarrow> (\<exists>a \<in> set (snd (lookup lib (Some ip))). connect_call lib r (Some a) \<noteq> -1)))"
proof (cases sctp)
  case True
  then show ?thesis
    using assms by (auto simp: Client_connect_def new_socket_def shut_def Let_def)
next
  case False
  obtain e as where gai: "lookup lib (Some ip) = (e, as)"
    by (cases "lookup lib (Some ip)")
  obtain found st' where loop: "connect_loop lib as (st\<lparr>cerrno := e\<rparr>) = (found, st')"
    by (cases "connect_loop lib as (st\<lparr>cerrno := e\<rparr>)")
  show ?thesis
    using False assms gai loop connect_loop_outcome [OF loop]
    by (cases "e = 0"; cases found) (auto simp: Client_connect_def)
qed

text \<open>Two addresses, of which only the second answers, and an SCTP peer that does not.\<close>

definition two_addresses :: sockets where
  "two_addresses = \<lparr>lookup = (\<lambda>h. (0, [1, 2])), socket_call = (\<lambda>es a. 5 + int (length es)),
     connect_call = (\<lambda>fd a. if a = Some 2 then 0 else -1)\<rparr>"

definition tcp_client :: client_state where
  "tcp_client = \<lparr>protocol = Some (bytes_of ''-tcp'' @ [0]), sock_fd = 0, cerrno = 0, net = []\<rparr>"

lemma Client_connect_outcomes_witness:
  "(\<exists>st. Client_connect two_addresses [] tcp_client = Inr (7, st) \<and> open_fds (net st) = [7]) \<and>
   (\<exists>st. Client_connect two_addresses [] (tcp_client\<lparr>protocol := Some SCTP\<rparr>) = Inr (5, st) \<and> open_fds (net st) = [])"
proof -
  have p: "strcmp_eq (bytes_of ''-tcp'' @ [0]) SCTP = Inr False" "strcmp_eq SCTP SCTP = Inr True"
    by (simp_all add: SCTP_def bytes_of_def)
  have "\<exists>st. Client_connect two_addresses [] tcp_client = Inr (7, st)"
    by (simp add: Client_connect_def tcp_client_def two_addresses_def new_socket_def shut_def p(1))
  then have "\<exists>st. Client_connect two_addresses [] tcp_client = Inr (7, st) \<and> open_fds (net st) = [7]"
    using Client_connect_outcomes [of tcp_client "bytes_of ''-tcp'' @ [0]" False two_addresses "[]"] p(1)
    by (auto simp: tcp_client_def)
  moreover have "\<exists>st. Client_connect two_addresses [] (tcp_client\<lparr>protocol := Some SCTP\<rparr>) = Inr (5, st) \<and>
      open_fds (net st) = []"
    using Client_connect_outcomes [of "tcp_client\<lparr>protocol := Some SCTP\<rparr>" SCTP True two_addresses "[]"] p(2)
    by (auto simp: tcp_client_def two_addresses_def)
  ultimately show ?thesis
    by blast
qed

end
