(* ===== verification/Server.thy ===== *)
theory Server
  imports Client Pool_Queue
begin

text \<open>
  \<^verbatim>\<open>Chat/src/server.c\<close>: the listening sockets, the choice of the own address, and the thread that
  accepts connections and puts a task for each into a thread pool.  The results of the socket
  calls, the interfaces of the machine, and what \<open>malloc\<close> returns are parameters.
\<close>

section \<open>The own address\<close>

text \<open>An interface: the address, if it has one, with its family and the four bytes in memory.
  \<open>getnameinfo\<close> with \<open>NI_NUMERICHOST\<close> gives the dotted form of an address when it returns 0 and
  leaves the buffer alone otherwise.\<close>

record interface =
  ifa_addr :: "(bool \<times> u32) option"
  name_result :: int

text \<open>The buffer \<open>host\<close> has no value before the first call; \<open>None\<close>.\<close>

definition name_of :: "interface \<Rightarrow> u32 \<Rightarrow> u8 list option \<Rightarrow> u8 list option" where
  "name_of ifa ip host = (if name_result ifa = 0 then Some (inet_ntoa ip @ [0]) else host)"

text \<open>The condition of the third \<open>if\<close>; \<open>&&\<close> stops at the first comparison that fails.\<close>

definition host_ok :: "u8 list \<Rightarrow> bool result" where
  "host_ok host =
     bind_r (strncmp_eq 3 host (bytes_of ''127'' @ [0])) (\<lambda>b.
     if b then Inr False
     else bind_r (strncmp_eq 6 host (bytes_of ''141.22'' @ [0])) (\<lambda>b.
     if b then Inr False
     else bind_r (strncmp_eq 3 host (bytes_of ''10.'' @ [0])) (\<lambda>b. Inr (\<not> b))))"

text \<open>The loop, with the remaining interfaces; it ends when \<open>success\<close> is 1.\<close>

fun ip_loop :: "interface list \<Rightarrow> u8 list option \<Rightarrow> u32 option result" where
  "ip_loop [] host = Inr None"
| "ip_loop (ifa # ifas) host =
     (case ifa_addr ifa of
        None \<Rightarrow> ip_loop ifas host
      | Some (inet, ip) \<Rightarrow>
          if \<not> inet then ip_loop ifas host
          else
            let host = name_of ifa ip host in
            (case host of
               None \<Rightarrow> Inl Uninitialised_Read
             | Some h \<Rightarrow> bind_r (host_ok h) (\<lambda>ok. if ok then Inr (Some ip) else ip_loop ifas host)))"

text \<open>The result \<open>success\<close> with the address stored; \<open>None\<close> for interfaces that \<open>getifaddrs\<close>
  could not list.\<close>

definition get_my_ip :: "interface list option \<Rightarrow> u32 option result" where
  "get_my_ip ifaddr = (case ifaddr of None \<Rightarrow> Inr None | Some ifas \<Rightarrow> ip_loop ifas None)"

section \<open>The listening socket\<close>

record server_state =
  slist :: list_state
  serrno :: int
  snet :: "net_event list"
  listening :: "int option"

text \<open>The calls of the server: \<open>bind\<close>, \<open>setsockopt\<close> (the second one is for SCTP), \<open>listen\<close>.\<close>

record server_calls =
  server_lookup :: "int \<times> address list"
  server_socket :: "net_event list \<Rightarrow> address option \<Rightarrow> int"
  reuse_call :: "int \<Rightarrow> int"
  params_call :: "int \<Rightarrow> int"
  bind_call :: "int \<Rightarrow> int"
  listen_call :: "int \<Rightarrow> int"
  interfaces :: "interface list option"
  member_malloc :: nat

datatype bound =
    Bound int
  | Unbound
  | Failed

text \<open>The loop over the addresses: \<open>Failed\<close> is the return from inside it.\<close>

fun bind_loop :: "server_calls \<Rightarrow> address list \<Rightarrow> net_event list \<Rightarrow> bound \<times> net_event list" where
  "bind_loop lib [] es = (Unbound, es)"
| "bind_loop lib (a # as) es =
     (let fd = server_socket lib es (Some a) in
      if fd = -1 then bind_loop lib as es
      else
        let es = Opened fd # es in
        if reuse_call lib fd = -1 then (Failed, es)
        else if bind_call lib fd = -1 then bind_loop lib as (Shut fd # es)
        else (Bound fd, es))"

text \<open>What both kinds of server do once the socket is bound.\<close>

definition start_list ::
  "server_calls \<Rightarrow> u8 list \<Rightarrow> int \<Rightarrow> server_state \<Rightarrow> (int \<times> server_state) result option" where
  "start_list lib mid fd st =
     bind_c (Some (get_my_ip (interfaces lib))) (\<lambda>own.
     case own of
       None \<Rightarrow> Some (Inr (-1, st))
     | Some ip \<Rightarrow>
         bind_c (List_init mid ip (member_malloc lib) (slist st)) (\<lambda>(r, l).
         let st = st\<lparr>slist := l\<rparr> in
         if r \<noteq> 0 then Some (Inr (-1, st))
         else if listen_call lib fd = -1 then Some (Inr (-1, st\<lparr>serrno := EPERM\<rparr>))
         else Some (Inr (0, st\<lparr>listening := Some fd\<rparr>))))"

definition Server_tcp_init ::
  "server_calls \<Rightarrow> u8 list \<Rightarrow> server_state \<Rightarrow> (int \<times> server_state) result option" where
  "Server_tcp_init lib mid st =
     (let (e, addresses) = server_lookup lib; st = st\<lparr>serrno := e\<rparr> in
      if e \<noteq> 0 then Some (Inr (-1, st))
      else
        let (p, es) = bind_loop lib addresses (snet st); st = st\<lparr>snet := es\<rparr> in
        case p of
          Failed \<Rightarrow> Some (Inr (-1, st))
        | Unbound \<Rightarrow> Some (Inr (-1, st\<lparr>serrno := EPERM\<rparr>))
        | Bound fd \<Rightarrow> start_list lib mid fd st)"

text \<open>After a failed \<open>bind\<close> the socket is closed, and used on.\<close>

definition Server_sctp_init ::
  "server_calls \<Rightarrow> u8 list \<Rightarrow> server_state \<Rightarrow> (int \<times> server_state) result option" where
  "Server_sctp_init lib mid st =
     (let fd = server_socket lib (snet st) None in
      if fd = -1 then Some (Inr (-1, st))
      else
        let st = st\<lparr>snet := Opened fd # snet st\<rparr>;
            st = (if bind_call lib fd = -1 then st\<lparr>snet := Shut fd # snet st\<rparr> else st)
        in
        if reuse_call lib fd = -1 then Some (Inr (-1, st))
        else if params_call lib fd < 0 then Some (Inr (-1, st))
        else start_list lib mid fd st)"

section \<open>The server thread\<close>

text \<open>
  One connection: what \<open>accept\<close> returned, and the blocks \<open>malloc\<close> gives for the descriptor and for
  the task.  The blocks of the arguments are a map from addresses to descriptors.
\<close>

record accepted =
  new_fd :: int
  fd_malloc :: nat
  task_malloc :: nat

definition RECV_FROM_CLIENT :: nat where "RECV_FROM_CLIENT = 1"

definition serve ::
  "pool_calls \<Rightarrow> nat \<Rightarrow> accepted \<Rightarrow> (nat \<Rightarrow> int option) \<times> pool_mem \<Rightarrow> ((nat \<Rightarrow> int option) \<times> pool_mem) result option" where
  "serve lib pool c s =
     (case s of (blocks, m) \<Rightarrow>
        if new_fd c = -1 then Some (Inr (blocks, m))
        else if fd_malloc c = 0 then Some (Inl Null_Dereference)
        else
          bind_c (Thpool_add_task lib pool
            \<lparr>routine_for_task = RECV_FROM_CLIENT, arg = fd_malloc c, next_task = 0\<rparr> (task_malloc c) m) (\<lambda>(_, m).
          Some (Inr (blocks(fd_malloc c \<mapsto> new_fd c), m))))"

text \<open>The endless loop, on the connections of a run.\<close>

fun serve_all ::
  "pool_calls \<Rightarrow> nat \<Rightarrow> accepted list \<Rightarrow> (nat \<Rightarrow> int option) \<times> pool_mem \<Rightarrow>
   ((nat \<Rightarrow> int option) \<times> pool_mem) result option" where
  "serve_all lib pool [] s = Some (Inr s)"
| "serve_all lib pool (c # cs) s = bind_c (serve lib pool c s) (serve_all lib pool cs)"

text \<open>\<open>Server_thread\<close>: \<open>arg[1]\<close> and \<open>arg[2]\<close> are the identifier and the protocol.  \<open>pthread_exit\<close> after a
  failed start is the end with no connection served.\<close>

definition Server_thread ::
  "server_calls \<Rightarrow> pool_calls \<Rightarrow> nat \<Rightarrow> u8 list \<Rightarrow> u8 list \<Rightarrow> accepted list \<Rightarrow> server_state \<Rightarrow>
   (nat \<Rightarrow> int option) \<times> pool_mem \<Rightarrow> (server_state \<times> (nat \<Rightarrow> int option) \<times> pool_mem) result option" where
  "Server_thread lib plib pool mid proto cs st s =
     bind_c (Some (strncmp_eq 5 proto (bytes_of ''-sctp'' @ [0]))) (\<lambda>sctp.
     bind_c (if sctp then Server_sctp_init lib mid st else Server_tcp_init lib mid st) (\<lambda>(r, st).
     if r \<noteq> 0 then Some (Inr (st, s))
     else bind_c (serve_all plib pool cs s) (\<lambda>s. Some (Inr (st, s)))))"

section \<open>Which address is chosen\<close>

definition digit :: "nat \<Rightarrow> u8" where
  "digit d = of_nat (48 + d)"

lemma digit_eq [simp]: "d < 10 \<Longrightarrow> (digit d = numeral k) = (48 + d = unat (numeral k :: u8))"
proof -
  assume "d < 10"
  then have "unat (digit d) = 48 + d"
    unfolding digit_def by (simp only: unat_of_nat) simp
  then show ?thesis
    by (metis word_unat_eq_iff)
qed

lemma digit_nonzero [simp]: "d < 10 \<Longrightarrow> digit d \<noteq> 0"
proof -
  assume "d < 10"
  then have "unat (digit d) = 48 + d"
    unfolding digit_def by (simp only: unat_of_nat) simp
  then show ?thesis
    by auto
qed

lemma bytes_of_append [simp]: "bytes_of (s @ t) = bytes_of s @ bytes_of t"
  by (simp add: bytes_of_def)

lemma bytes_of_digit: "d < 10 \<Longrightarrow> bytes_of [''0123456789'' ! d] = [digit d]"
  by (auto simp: bytes_of_def digit_def less_Suc_eq eval_nat_numeral)

definition dec_bytes :: "nat \<Rightarrow> u8 list" where
  "dec_bytes n =
     (if n < 10 then [digit n] else if n < 100 then [digit (n div 10), digit (n mod 10)]
      else [digit (n div 100), digit (n div 10 mod 10), digit (n mod 10)])"

lemma bytes_of_dec_string: "n < 256 \<Longrightarrow> bytes_of (dec_string n) = dec_bytes n"
proof -
  have small: "bytes_of (dec_string n) = [digit n]" if "n < 10" for n
    using that by (simp add: dec_string.simps [of n] bytes_of_digit)
  have two: "bytes_of (dec_string n) = [digit (n div 10), digit (n mod 10)]" if "10 \<le> n" "n < 100" for n
    using that small [of "n div 10"] by (simp add: dec_string.simps [of n] bytes_of_digit)
  assume "n < 256"
  then have "bytes_of (dec_string n) = [digit (n div 100), digit (n div 10 mod 10), digit (n mod 10)]" if "100 \<le> n"
    using that two [of "n div 10"] by (simp add: dec_string.simps [of n] bytes_of_digit div_mult2_eq [symmetric])
  then show ?thesis
    using small two by (simp add: dec_bytes_def)
qed

definition octet1 :: "u32 \<Rightarrow> nat" where "octet1 ip = unat (ip AND 0xFF)"
definition octet2 :: "u32 \<Rightarrow> nat" where "octet2 ip = unat (drop_bit 8 ip AND 0xFF)"

text \<open>The addresses the three comparisons exclude.\<close>

definition excluded :: "u32 \<Rightarrow> bool" where
  "excluded ip \<longleftrightarrow> octet1 ip = 127 \<or> octet1 ip = 10 \<or> octet1 ip = 141 \<and> (octet2 ip = 22 \<or> octet2 ip div 10 = 22)"

lemma dec_bytes_cases:
  obtains "n < 10" "dec_bytes n = [digit n]"
  | "10 \<le> n" "n < 100" "dec_bytes n = [digit (n div 10), digit (n mod 10)]"
  | "100 \<le> n" "dec_bytes n = [digit (n div 100), digit (n div 10 mod 10), digit (n mod 10)]"
  by (cases "n < 10"; cases "n < 100") (simp_all add: dec_bytes_def)

lemma strncmp_eq_numeral [simp]:
  "strncmp_eq (numeral k) (a # as) (b # bs) =
     (if a \<noteq> b then Inr False else if a = 0 then Inr True else strncmp_eq (pred_numeral k) as bs)"
  by (simp add: numeral_eq_Suc)

text \<open>A number is known by its decimal digits.\<close>

lemma two_digits:
  fixes n :: nat
  assumes "c < 10"
  shows "(n div 10 = b \<and> n mod 10 = c) = (n = 10 * b + c)"
proof
  assume "n div 10 = b \<and> n mod 10 = c"
  then show "n = 10 * b + c"
    using mult_div_mod_eq [of 10 n] by simp
next
  assume "n = 10 * b + c"
  then show "n div 10 = b \<and> n mod 10 = c"
    using assms by (simp add: div_add1_eq)
qed

lemma three_digits:
  fixes n :: nat
  assumes "b < 10" "c < 10"
  shows "(n div 100 = a \<and> n div 10 mod 10 = b \<and> n mod 10 = c) = (n = 100 * a + 10 * b + c)"
proof -
  have "n div 100 = n div 10 div 10"
    by (simp add: div_mult2_eq [symmetric])
  then have "(n div 100 = a \<and> n div 10 mod 10 = b) = (n div 10 = 10 * a + b)"
    using two_digits [OF assms(1), of "n div 10" a] by simp
  then show ?thesis
    using two_digits [OF assms(2), of n "10 * a + b"] by auto
qed

lemma tens_digits: "b < 10 \<Longrightarrow> (n div 100 = a \<and> n div 10 mod 10 = b) = (n div 10 = 10 * a + (b :: nat))"
  using two_digits [of b "n div 10" a] by (simp add: div_mult2_eq [symmetric])

lemmas digits_127 = three_digits [of 2 7 _ 1, simplified]
lemmas digits_141 = three_digits [of 4 1 _ 1, simplified]
lemmas digits_10 = two_digits [of 0 _ 1, simplified]
lemmas digits_22 = two_digits [of 2 _ 2, simplified]
lemmas digits_22x = tens_digits [of 2 _ 2, simplified]

lemma digit_less [simp]: "n < 100 \<Longrightarrow> n div 10 < (10 :: nat)" "n < 256 \<Longrightarrow> n div 100 < (10 :: nat)"
  by linarith+

lemma starts_127:
  "n < 256 \<Longrightarrow> strncmp_eq 3 (dec_bytes n @ 46 # rest) [49, 50, 55, 0] = Inr (n = 127)"
  using digits_127 [of n] by (cases n rule: dec_bytes_cases) auto

lemma starts_10:
  "n < 256 \<Longrightarrow> strncmp_eq 3 (dec_bytes n @ 46 # rest) [49, 48, 46, 0] = Inr (n = 10)"
  using digits_10 [of n] by (cases n rule: dec_bytes_cases) auto

lemma starts_22:
  "n < 256 \<Longrightarrow> strncmp_eq 2 (dec_bytes n @ 46 # rest) [50, 50, 0] = Inr (n = 22 \<or> n div 10 = 22)"
  using digits_22 [of n] digits_22x [of n] by (cases n rule: dec_bytes_cases) auto

lemma starts_141_22:
  assumes "n < 256" "k < 256"
  shows "strncmp_eq 6 (dec_bytes n @ 46 # dec_bytes k @ 46 # rest) [49, 52, 49, 46, 50, 50, 0] =
    Inr (n = 141 \<and> (k = 22 \<or> k div 10 = 22))"
  using digits_141 [of n] starts_22 [OF assms(2)] assms(1) by (cases n rule: dec_bytes_cases) auto

lemma inet_ntoa_bytes:
  obtains rest where "inet_ntoa ip @ [0] = dec_bytes (octet1 ip) @ 46 # dec_bytes (octet2 ip) @ 46 # rest"
proof -
  have dot: "bytes_of (CHR ''.'' # s) = 46 # bytes_of s" for s
    by (simp add: bytes_of_def)
  have "octet1 ip < 256" "octet2 ip < 256"
    by (simp_all add: octet1_def octet2_def)
  then show ?thesis
    using that by (simp add: inet_ntoa_def octet1_def octet2_def bytes_of_dec_string dot)
qed

lemma host_ok_address: "host_ok (inet_ntoa ip @ [0]) = Inr (\<not> excluded ip)"
proof -
  obtain rest where host: "inet_ntoa ip @ [0] = dec_bytes (octet1 ip) @ 46 # dec_bytes (octet2 ip) @ 46 # rest"
    by (rule inet_ntoa_bytes)
  have "octet1 ip < 256" "octet2 ip < 256"
    by (simp_all add: octet1_def octet2_def)
  note comparisons = starts_127 [OF this(1)] starts_10 [OF this(1)] starts_141_22 [OF this]
  have "bytes_of ''127'' @ [0] = [49, 50, 55, 0]" "bytes_of ''141.22'' @ [0] = [49, 52, 49, 46, 50, 50, 0]"
    "bytes_of ''10.'' @ [0] = [49, 48, 46, 0]"
    by (simp_all add: bytes_of_def)
  then show ?thesis
    unfolding host_ok_def host by (simp only: comparisons bind_r_Inr) (auto simp: excluded_def)
qed

definition usable :: "interface \<Rightarrow> bool" where
  "usable ifa \<longleftrightarrow> (case ifa_addr ifa of Some (True, ip) \<Rightarrow> \<not> excluded ip | _ \<Rightarrow> False)"

lemma ip_loop_finds:
  assumes "\<forall>ifa \<in> set ifas. name_result ifa = 0"
  shows "ip_loop ifas host = Inr (map_option (\<lambda>ifa. snd (the (ifa_addr ifa))) (find usable ifas))"
  using assms
proof (induction ifas arbitrary: host)
  case (Cons ifa ifas)
  then show ?case
    by (cases "ifa_addr ifa") (auto simp: usable_def name_of_def host_ok_address split: prod.splits bool.splits)
qed simp

text \<open>
  C25: When every address has a numeric name, \<open>get_my_ip\<close> stores the first IPv4 address of the machine whose dotted form
  starts with none of \<open>127\<close>, \<open>141.22\<close> and \<open>10.\<close>, and reports that there is none otherwise; the excluded addresses are
  127.x.x.x, all of 10.x.x.x, and 141.22.x.x together with 141.220.x.x to 141.229.x.x.  When the first name
  cannot be found, the comparisons read a buffer that was never written.
\<close>

theorem get_my_ip_choice:
  assumes "\<forall>ifa \<in> set ifas. name_result ifa = 0" "name_result bad \<noteq> 0" "ifa_addr bad = Some (True, ip)"
  shows "get_my_ip (Some ifas) = Inr (map_option (\<lambda>ifa. snd (the (ifa_addr ifa))) (find usable ifas)) \<and>
    get_my_ip (Some (bad # ifas)) = Inl Uninitialised_Read"
  using ip_loop_finds [OF assms(1), of None] assms(2,3) by (simp add: get_my_ip_def name_of_def)

text \<open>A loopback interface, 10.0.0.1, 141.225.0.1, 192.168.0.7.\<close>

definition some_interfaces :: "interface list" where
  "some_interfaces = map (\<lambda>ip. \<lparr>ifa_addr = Some (True, ip), name_result = 0\<rparr>)
     [0x0100007F, 0x0100000A, 0x0100E18D, 0x0700A8C0]"

lemma get_my_ip_choice_witness:
  "get_my_ip (Some some_interfaces) = Inr (Some 0x0700A8C0)"
  using get_my_ip_choice [of some_interfaces "\<lparr>ifa_addr = Some (True, 1), name_result = 1\<rparr>" 1]
  by (simp add: some_interfaces_def usable_def excluded_def octet1_def octet2_def)

section \<open>Connections become tasks\<close>

definition took :: "accepted list \<Rightarrow> accepted list" where
  "took cs = filter (\<lambda>c. new_fd c \<noteq> -1) cs"

text \<open>The blocks \<open>malloc\<close> gives are new.\<close>

definition mallocs_ok :: "accepted list \<Rightarrow> pool_mem \<Rightarrow> bool" where
  "mallocs_ok cs m \<longleftrightarrow> distinct (map fd_malloc (took cs)) \<and> distinct (map task_malloc (took cs)) \<and>
     (\<forall>c \<in> set (took cs). fd_malloc c \<noteq> 0 \<and> task_malloc c \<noteq> 0 \<and> cells m (task_malloc c) = None)"

definition pool_holds :: "pool_mem \<Rightarrow> nat \<Rightarrow> nat list \<Rightarrow> bool" where
  "pool_holds m pool as \<longleftrightarrow> pool \<noteq> 0 \<and> (\<exists>p. pools m pool = Some p \<and> mutex_ready p \<and> cond_ready p \<and>
     chain (cells m) (tasks p) as \<and> pcounter p = int (length as))"

lemma serve_all_tasks:
  assumes "mallocs_ok cs m" "pool_holds m pool as"
  shows "\<exists>blocks' m' as'. serve_all lib pool cs (blocks, m) = Some (Inr (blocks', m')) \<and> pool_holds m' pool as' \<and>
    jobs_at (cells m') as' = jobs_at (cells m) as @ map (\<lambda>c. (RECV_FROM_CLIENT, fd_malloc c)) (took cs) \<and>
    (\<forall>c \<in> set (took cs). blocks' (fd_malloc c) = Some (new_fd c)) \<and>
    (\<forall>b. b \<notin> fd_malloc ` set (took cs) \<longrightarrow> blocks' b = blocks b)"
  using assms
proof (induction cs arbitrary: m as blocks)
  case Nil
  then show ?case
    by (auto simp: took_def)
next
  case (Cons c cs)
  show ?case
  proof (cases "new_fd c = -1")
    case True
    then have "took (c # cs) = took cs"
      by (simp add: took_def)
    then show ?thesis
      using True Cons.IH [of m as blocks] Cons.prems by (simp add: serve_def mallocs_ok_def)
  next
    case False
    let ?new = "task_malloc c"
    let ?job = "\<lparr>routine_for_task = RECV_FROM_CLIENT, arg = fd_malloc c, next_task = 0\<rparr>"
    have took: "took (c # cs) = c # took cs"
      using False by (simp add: took_def)
    have fresh: "fd_malloc c \<noteq> 0" "?new \<noteq> 0" "cells m ?new = None" "?new \<notin> task_malloc ` set (took cs)"
      "fd_malloc c \<notin> fd_malloc ` set (took cs)"
      using Cons.prems(1) by (auto simp: mallocs_ok_def took)
    obtain p where p: "pool \<noteq> 0" "pools m pool = Some p" "mutex_ready p" "cond_ready p"
      "chain (cells m) (tasks p) as" "pcounter p = int (length as)"
      using Cons.prems(2) by (auto simp: pool_holds_def)
    obtain m' p' where m': "Thpool_add_task lib pool ?job ?new m = Some (Inr (0, m'))" "pools m' pool = Some p'"
      "mutex_ready p'" "cond_ready p'" "chain (cells m') (tasks p') (as @ [?new])"
      "pcounter p' = int (length (as @ [?new]))"
      "jobs_at (cells m') (as @ [?new]) = jobs_at (cells m) as @ [job_of ?job]"
      "\<forall>n. n \<noteq> ?new \<longrightarrow> cells m n = None \<longrightarrow> cells m' n = None"
      by (rule add_task_appends [OF p fresh(2,3), of lib ?job])
    have "cells m' (task_malloc d) = None" if "d \<in> set (took cs)" for d
    proof -
      have "cells m (task_malloc d) = None"
        using Cons.prems(1) that by (simp add: mallocs_ok_def took)
      then show ?thesis
        using m'(8) fresh(4) imageI [OF that, of task_malloc] by metis
    qed
    then have "mallocs_ok cs m'"
      using Cons.prems(1) by (simp add: mallocs_ok_def took)
    moreover have "pool_holds m' pool (as @ [?new])"
      using p(1) m'(2-6) by (auto simp: pool_holds_def)
    moreover have "serve_all lib pool (c # cs) (blocks, m) =
        serve_all lib pool cs (blocks(fd_malloc c \<mapsto> new_fd c), m')"
      using False fresh(1) m'(1) by (simp add: serve_def)
    ultimately show ?thesis
      using Cons.IH [of m' "as @ [?new]" "blocks(fd_malloc c \<mapsto> new_fd c)"] m'(7) fresh(5)
      unfolding took by (fastforce simp: job_of_def)
  qed
qed

text \<open>
  C13: The server thread serves nothing when its start fails, with the pool as it was.  Otherwise every connection
  \<open>accept\<close> returned becomes one task of the pool, behind those queued and in the order of accepting; each
  task's argument is a block of its own that holds the descriptor, and failed calls of \<open>accept\<close> are
  skipped.
\<close>

theorem Server_thread_serves:
  assumes "strncmp_eq 5 proto (bytes_of ''-sctp'' @ [0]) = Inr sctp"
    "(if sctp then Server_sctp_init lib mid st else Server_tcp_init lib mid st) = Some (Inr (r, st'))"
    "mallocs_ok cs m" "pool_holds m pool as"
  shows "\<exists>blocks' m' as'. Server_thread lib plib pool mid proto cs st (blocks, m) = Some (Inr (st', blocks', m')) \<and>
    pool_holds m' pool as' \<and>
    (if r \<noteq> 0 then blocks' = blocks \<and> m' = m
     else jobs_at (cells m') as' = jobs_at (cells m) as @ map (\<lambda>c. (RECV_FROM_CLIENT, fd_malloc c)) (took cs) \<and>
       (\<forall>c \<in> set (took cs). blocks' (fd_malloc c) = Some (new_fd c)))"
  using assms serve_all_tasks [OF assms(3,4), of plib blocks]
  by (cases "r = 0") (auto simp: Server_thread_def)

text \<open>Calls of a server whose socket can be bound, on a machine with the address 192.168.0.7.\<close>

definition server_ok :: server_calls where
  "server_ok = \<lparr>server_lookup = (0, [1]), server_socket = (\<lambda>es a. 3), reuse_call = (\<lambda>fd. 0), params_call = (\<lambda>fd. 0),
     bind_call = (\<lambda>fd. 0), listen_call = (\<lambda>fd. 0), interfaces = Some [\<lparr>ifa_addr = Some (True, 0x0700A8C0), name_result = 0\<rparr>],
     member_malloc = 0x100\<rparr>"

definition server_start :: server_state where
  "server_start = \<lparr>slist = list_start, serrno = 0, snet = [], listening = None\<rparr>"

lemma own_address: "get_my_ip (interfaces server_ok) = Inr (Some 0x0700A8C0)"
  using ip_loop_finds [of "the (interfaces server_ok)" None]
  by (simp add: server_ok_def get_my_ip_def usable_def excluded_def octet1_def octet2_def)

lemma server_starts:
  "\<exists>st'. Server_tcp_init server_ok (id_of ''eve'') server_start = Some (Inr (0, st')) \<and> listening st' = Some 3"
proof -
  have "length (id_of ''eve'') = 16"
    by (simp add: id_of_def bytes_of_def)
  then have "\<exists>l. List_init (id_of ''eve'') 0x0700A8C0 0x100 list_start = Some (Inr (0, l))"
    by (simp add: List_init_def memcpy_bytes_def)
  moreover have "member_malloc server_ok = 0x100" "listen_call server_ok 3 = 0" "server_lookup server_ok = (0, [1])"
    "bind_loop server_ok [1] [] = (Bound 3, [Opened 3])"
    by (simp_all add: server_ok_def)
  ultimately show ?thesis
    by (auto simp: Server_tcp_init_def start_list_def server_start_def own_address)
qed

lemma Server_thread_serves_witness:
  "\<exists>st' blocks' m'. Server_thread server_ok calls_ok 0x1000 (id_of ''eve'') (bytes_of ''-tcp'' @ [0])
     [\<lparr>new_fd = 8, fd_malloc = 0x50, task_malloc = 0x10\<rparr>, \<lparr>new_fd = -1, fd_malloc = 0, task_malloc = 0\<rparr>]
     server_start (Map.empty, no_pools\<lparr>pools := [0x1000 \<mapsto> new_pool calls_ok True]\<rparr>) = Some (Inr (st', blocks', m')) \<and>
     blocks' 0x50 = Some 8"
proof -
  obtain st' where st': "Server_tcp_init server_ok (id_of ''eve'') server_start = Some (Inr (0, st'))"
    using server_starts by blast
  let ?cs = "[\<lparr>new_fd = 8, fd_malloc = 0x50, task_malloc = 0x10\<rparr>, \<lparr>new_fd = -1, fd_malloc = 0, task_malloc = 0\<rparr>]"
  let ?m = "no_pools\<lparr>pools := [0x1000 \<mapsto> new_pool calls_ok True]\<rparr>"
  have "strncmp_eq 5 (bytes_of ''-tcp'' @ [0]) (bytes_of ''-sctp'' @ [0]) = Inr False"
    by (simp add: bytes_of_def)
  moreover have "mallocs_ok ?cs ?m" "pool_holds ?m 0x1000 []" "took ?cs = [hd ?cs]"
    by (simp_all add: mallocs_ok_def took_def no_pools_def pool_holds_def new_pool_def)
  ultimately show ?thesis
    using Server_thread_serves [of "bytes_of ''-tcp'' @ [0]" False server_ok "id_of ''eve''" server_start 0 st' ?cs ?m
        "0x1000" "[]" calls_ok Map.empty] st'
    by fastforce
qed

end
