(* ===== verification/Chat.thy ===== *)
theory Chat
  imports Task_Properties Server
begin

text \<open>
  \<^verbatim>\<open>Chat/src/chat.c\<close>: the thread that reads the user's commands, and \<open>main\<close>.  A command line is what
  \<open>fgets\<close> stored, \<open>None\<close> at the end of the input.  The tasks it starts are put into the sending pool;
  they are those of \<open>Tasks\<close>.
\<close>

section \<open>The command thread\<close>

definition SEND_MSG :: nat where "SEND_MSG = 2"
definition SEND_SIGN_IN :: nat where "SEND_SIGN_IN = 3"

text \<open>The state behind the commands: that of the tasks, the pool with its memory, the argument blocks, and what
  the thread printed.\<close>

record shell =
  chat :: chat_state
  spool :: pool_mem
  ablocks :: "nat \<Rightarrow> u8 list option"
  shown :: "u8 list"

text \<open>What a round of the loop gets: the line, and the blocks \<open>malloc\<close> gives for the argument and the
  task; \<open>junk\<close> is what a new block holds.\<close>

record round =
  line :: "u8 list option"
  arg_malloc :: nat
  job_malloc :: nat
  junk :: "nat \<Rightarrow> u8"

definition BUFFER_SIZE :: nat where "BUFFER_SIZE = 1024"

text \<open>\<open>memset(msg, 0, 1024); fgets(msg, 1024, stdin)\<close>\<close>

definition read_line :: "u8 list option \<Rightarrow> u8 list" where
  "read_line l = (case l of None \<Rightarrow> replicate BUFFER_SIZE 0 | Some s \<Rightarrow> s @ replicate (BUFFER_SIZE - length s) 0)"

definition help_text :: "u8 list" where
  "help_text =
     MAG @ [10] @ bytes_of ''# /connect <ip-adress>'' @ [9, 9] @ bytes_of ''-- Connects to another peer'' @ [10] @
     bytes_of ''# /quit'' @ [9, 9, 9, 9] @ bytes_of ''-- Quits the program'' @ [10] @
     bytes_of ''# /info'' @ [9, 9, 9, 9] @ bytes_of ''-- Displays list members'' @ [10] @
     bytes_of ''# /help'' @ [9, 9, 9, 9] @ bytes_of ''-- Displays commands'' @ [10, 10] @ RESET"

definition say :: "u8 list \<Rightarrow> shell \<Rightarrow> shell" where
  "say s st = st\<lparr>shown := shown st @ s\<rparr>"

definition help_function :: "shell \<Rightarrow> shell" where
  "help_function st = say help_text st"

text \<open>\<open>arg = malloc(room); strcpy(arg, s)\<close>: the contents of the new block.\<close>

definition copy_string :: "nat \<Rightarrow> (nat \<Rightarrow> u8) \<Rightarrow> nat \<Rightarrow> u8 list \<Rightarrow> u8 list result" where
  "copy_string p fill room s =
     (if p = 0 then Inl Null_Dereference
      else if room < length s + 1 then Inl Out_Of_Bounds
      else Inr (s @ 0 # map fill [length s + 1..<room]))"

text \<open>The job for a string: the block, then the task.\<close>

definition start_job ::
  "pool_calls \<Rightarrow> nat \<Rightarrow> round \<Rightarrow> nat \<Rightarrow> nat \<Rightarrow> u8 list \<Rightarrow> shell \<Rightarrow> shell result option" where
  "start_job lib send_pool rd routine room s st =
     bind_c (Some (copy_string (arg_malloc rd) (junk rd) room s)) (\<lambda>block.
     bind_c (Thpool_add_task lib send_pool
       \<lparr>routine_for_task = routine, arg = arg_malloc rd, next_task = 0\<rparr> (job_malloc rd) (spool st)) (\<lambda>(_, m).
     Some (Inr (st\<lparr>spool := m, ablocks := (ablocks st)(arg_malloc rd \<mapsto> block)\<rparr>))))"

text \<open>\<open>sizeof(ip)\<close> is the size of a pointer.\<close>

definition SIZEOF_POINTER :: nat where "SIZEOF_POINTER = 8"

text \<open>\<open>strncmp(cmd, name, n) == 0\<close> for a literal of \<open>n\<close> characters\<close>

definition is_cmd :: "u8 list \<Rightarrow> string \<Rightarrow> bool result" where
  "is_cmd cmd name = strncmp_eq (length name) cmd (bytes_of name @ [0])"

text \<open>One round; the result says whether the loop goes on.\<close>

definition Cmd_step ::
  "world \<Rightarrow> pool_calls \<Rightarrow> nat \<Rightarrow> round \<Rightarrow> shell \<Rightarrow> (bool \<times> shell) result option" where
  "Cmd_step w lib send_pool rd st =
     (let msg = read_line (line rd) in
      bind_c (Some (is_cmd msg '' '')) (\<lambda>blank.
      if blank then Some (Inr (True, st))
      else
        bind_c (Some (load msg 0)) (\<lambda>c.
        if c = 0x40 then
          bind_c (Some (print_str msg)) (\<lambda>s.
          bind_c (start_job lib send_pool rd SEND_MSG BUFFER_SIZE s st) (\<lambda>st.
          Some (Inr (True, say (bytes_of ''Sending message...'' @ [10]) st))))
        else
          bind_c (Some (strtok msg [0x20, 0x0A] 0)) (\<lambda>(p, msg, save).
          case p of
            None \<Rightarrow> Some (Inl Null_Dereference)
          | Some p \<Rightarrow>
              let cmd = drop p msg in
              bind_c (Some (is_cmd cmd ''/connect'')) (\<lambda>b.
              if b then
                bind_c (Some (strtok msg [0x0A] save)) (\<lambda>(q, msg, _).
                case q of
                  None \<Rightarrow> Some (Inl Null_Dereference)
                | Some q \<Rightarrow>
                    bind_c (Some (print_str (drop q msg))) (\<lambda>ip.
                    if length ip < 7 then Some (Inr (True, help_function st))
                    else
                      bind_c (start_job lib send_pool rd SEND_SIGN_IN SIZEOF_POINTER ip st) (\<lambda>st.
                      Some (Inr (True, say (MAG @ bytes_of ''Connecting to '' @ ip @ bytes_of ''...'' @ 10 # RESET) st)))))
              else
                bind_c (Some (is_cmd cmd ''/quit'')) (\<lambda>b.
                if b then
                  bind_c (send_quit w (chat st)) (\<lambda>c.
                  Some (Inr (False, say (bytes_of ''Quiting...'' @ [10]) (st\<lparr>chat := c\<rparr>))))
                else
                  bind_c (Some (is_cmd cmd ''/info'')) (\<lambda>b.
                  if b then
                    bind_c (on_roster List_print (chat st)) (\<lambda>(s, c). Some (Inr (True, say s (st\<lparr>chat := c\<rparr>))))
                  else
                    bind_c (Some (is_cmd cmd ''/help'')) (\<lambda>b.
                    Some (Inr (True, if b then help_function st else st))))))))))"

text \<open>The loop; a run for which no further round is given has not ended.\<close>

fun Cmd_routine ::
  "world \<Rightarrow> pool_calls \<Rightarrow> nat \<Rightarrow> round list \<Rightarrow> shell \<Rightarrow> (bool \<times> shell) result option" where
  "Cmd_routine w lib send_pool [] st = Some (Inr (True, st))"
| "Cmd_routine w lib send_pool (rd # rds) st =
     bind_c (Cmd_step w lib send_pool rd st) (\<lambda>(go_on, st).
     if go_on then Cmd_routine w lib send_pool rds st else Some (Inr (False, st)))"

section \<open>main\<close>

text \<open>
  The pools, the member list and the client's globals.  The run of the threads between the start and the end is the parameter
  \<open>session\<close>: what it leaves of the memory of the pools and of the state of the tasks.
\<close>

record program =
  pmem :: pool_mem
  tstate :: chat_state
  cstate :: client_state
  recv_pool :: nat
  send_pool :: nat

text \<open>\<open>Thpool_destroy(pool); Thpool_free(pool);\<close>\<close>

definition end_pool :: "pool_calls \<Rightarrow> nat \<Rightarrow> program \<Rightarrow> program result" where
  "end_pool lib pool st =
     bind_r (Thpool_destroy lib pool (pmem st)) (\<lambda>(_, m).
     bind_r (Thpool_free lib pool m) (\<lambda>(_, m). Inr (st\<lparr>pmem := m\<rparr>)))"

definition thrsafe :: "bool \<Rightarrow> program \<Rightarrow> (int \<times> program) result option" where
  "thrsafe destroy_ok st =
     bind_c (Tasks_clean destroy_ok (tstate st)) (\<lambda>(_, c). Some (Inr (0, st\<lparr>tstate := c\<rparr>)))"

definition recvfree :: "pool_calls \<Rightarrow> bool \<Rightarrow> program \<Rightarrow> (int \<times> program) result option" where
  "recvfree lib destroy_ok st = bind_c (Some (end_pool lib (recv_pool st) st)) (thrsafe destroy_ok)"

definition main ::
  "int \<Rightarrow> u8 list \<Rightarrow> bool \<Rightarrow> bool \<Rightarrow> pool_calls \<Rightarrow> pool_calls \<Rightarrow> (program \<Rightarrow> program) \<Rightarrow> program \<Rightarrow>
   (int \<times> program) result option" where
  "main argc proto init_ok destroy_ok recv_lib send_lib session st =
     (if argc \<noteq> 3 then Some (Inr (-1, st))
      else
        let (r, c) = Tasks_start init_ok (tstate st); st = st\<lparr>tstate := c\<rparr> in
        if r \<noteq> 0 then Some (Inr (0, st))
        else
          bind_c (Some (Thpool_create recv_lib (pmem st))) (\<lambda>(pool, m).
          let st = st\<lparr>recv_pool := pool, pmem := m\<rparr> in
          if pool = 0 then thrsafe destroy_ok st
          else
            bind_c (Some (Thpool_create send_lib (pmem st))) (\<lambda>(pool, m).
            let st = st\<lparr>send_pool := pool, pmem := m\<rparr> in
            if pool = 0 then recvfree recv_lib destroy_ok st
            else
              let st = session (st\<lparr>cstate := Client_protocol proto (cstate st)\<rparr>) in
              bind_c (Some (end_pool send_lib (send_pool st) st)) (recvfree recv_lib destroy_ok))))"

definition Chat_get_recvpool :: "program \<Rightarrow> nat" where
  "Chat_get_recvpool st = recv_pool st"

definition Chat_get_sendpool :: "program \<Rightarrow> nat" where
  "Chat_get_sendpool st = send_pool st"

section \<open>Commands\<close>

lemma is_cmd_prefix: "0 \<notin> set (bytes_of name) \<Longrightarrow> is_cmd (bytes_of name @ rest) name = Inr True"
proof -
  have "strncmp_eq (length s) (s @ r) (s @ r') = Inr True" if "0 \<notin> set s" for s r r' :: "u8 list"
    using that by (induction s) auto
  from this [of "bytes_of name" rest "[0]"] show "0 \<notin> set (bytes_of name) \<Longrightarrow> ?thesis"
    by (simp add: is_cmd_def bytes_of_def)
qed

lemma strncmp_eq_first: "a \<noteq> b \<Longrightarrow> n \<noteq> 0 \<Longrightarrow> strncmp_eq n (a # as) (b # bs) = Inr False"
  by (cases n) simp_all

lemma start_job_queued:
  assumes "pool_holds (spool st) send as" "arg_malloc rd \<noteq> 0" "job_malloc rd \<noteq> 0"
    "cells (spool st) (job_malloc rd) = None" "length s < room"
  obtains m' as' where "start_job lib send rd routine room s st =
      Some (Inr (st\<lparr>spool := m', ablocks := (ablocks st)(arg_malloc rd \<mapsto> s @ 0 # map (junk rd) [length s + 1..<room])\<rparr>))"
    "pool_holds m' send as'" "jobs_at (cells m') as' = jobs_at (cells (spool st)) as @ [(routine, arg_malloc rd)]"
proof -
  let ?job = "\<lparr>routine_for_task = routine, arg = arg_malloc rd, next_task = 0\<rparr>"
  obtain p where p: "send \<noteq> 0" "pools (spool st) send = Some p" "mutex_ready p" "cond_ready p"
    "chain (cells (spool st)) (tasks p) as" "pcounter p = int (length as)"
    using assms(1) by (auto simp: pool_holds_def)
  obtain m' p' where m': "Thpool_add_task lib send ?job (job_malloc rd) (spool st) = Some (Inr (0, m'))"
    "pools m' send = Some p'" "mutex_ready p'" "cond_ready p'" "chain (cells m') (tasks p') (as @ [job_malloc rd])"
    "pcounter p' = int (length (as @ [job_malloc rd]))"
    "jobs_at (cells m') (as @ [job_malloc rd]) = jobs_at (cells (spool st)) as @ [job_of ?job]"
    "\<forall>n. n \<noteq> job_malloc rd \<longrightarrow> cells (spool st) n = None \<longrightarrow> cells m' n = None"
    by (rule add_task_appends [OF p assms(3,4), of lib ?job])
  show ?thesis
  proof (rule that [of m' "as @ [job_malloc rd]"])
    show "pool_holds m' send (as @ [job_malloc rd])"
      using p(1) m'(2-6) by (auto simp: pool_holds_def)
  qed (use m'(1,7) assms(2,5) in \<open>simp_all add: start_job_def copy_string_def job_of_def\<close>)
qed

text \<open>The input \<open>/connect ip\<close> and a newline, as \<open>strtok\<close> cuts it.\<close>

definition connect_line :: "u8 list \<Rightarrow> u8 list" where
  "connect_line ip = bytes_of ''/connect'' @ 0x20 # ip @ [0x0A]"

lemma connect_bytes: "bytes_of ''/connect'' = [47, 99, 111, 110, 110, 101, 99, 116]"
  by (simp add: bytes_of_def)

lemma connect_length: "length (bytes_of ''/connect'' @ [0]) = 9"
  by (simp add: connect_bytes)

lemma Cmd_step_connect:
  assumes "line rd = Some (connect_line ip)" "line_ok ip" "length ip < 1014"
  shows "Cmd_step w lib send rd st =
    (if length ip < 7 then Some (Inr (True, help_function st))
     else bind_c (start_job lib send rd SEND_SIGN_IN SIZEOF_POINTER ip st) (\<lambda>st.
       Some (Inr (True, say (MAG @ bytes_of ''Connecting to '' @ ip @ bytes_of ''...'' @ 10 # RESET) st))))"
proof -
  let ?c = "bytes_of ''/connect''"
  obtain zs where "replicate (BUFFER_SIZE - length (connect_line ip)) (0 :: u8) = 0 # zs"
    using assms(3) by (cases "BUFFER_SIZE - length (connect_line ip)")
      (auto simp: BUFFER_SIZE_def connect_line_def connect_bytes)
  then have msg: "read_line (line rd) = ?c @ 0x20 # ip @ 0x0A # 0 # zs"
    using assms(1) by (simp add: read_line_def connect_line_def)
  have t1: "strtok (?c @ 0x20 # ip @ 0x0A # 0 # zs) [0x20, 0x0A] 0 = Inr (Some 0, ?c @ 0 # ip @ 0x0A # 0 # zs, 9)"
    using strtok_token [of ?c "[0x20, 0x0A]" "0x20" "[]" "ip @ 0x0A # 0 # zs"] by (simp add: connect_bytes)
  have t2: "strtok (?c @ 0 # ip @ 0x0A # 0 # zs) [0x0A] 9 =
      Inr (Some 9, ?c @ 0 # ip @ 0 # 0 # zs, 10 + length ip)"
    using strtok_token [of ip "[0x0A]" "0x0A" "?c @ [0]" "0 # zs"] assms(2)
    unfolding connect_length by (simp add: line_ok_def)
  have first: "is_cmd (?c @ r) '' '' = Inr False" "load (?c @ r) 0 = Inr 47" for r
    by (simp_all add: is_cmd_def connect_bytes load_def strncmp_eq_first bytes_of_def)
  have cmd: "is_cmd (drop 0 (?c @ 0 # r)) ''/connect'' = Inr True" for r
    using is_cmd_prefix [of "''/connect''" "0 # r"] by (simp add: connect_bytes)
  have "print_str (drop 9 (?c @ 0 # ip @ 0 # 0 # zs)) = Inr ip"
    using assms(2) cstr_string [of ip "0 # zs"] by (auto simp: connect_bytes print_str_def line_ok_def)
  then show ?thesis
    unfolding Cmd_step_def Let_def msg by (simp only: first cmd t1 t2 bind_c_simps split option.case) simp
qed

lemma Cmd_step_empty:
  assumes "line rd = None \<or> line rd = Some [0x0A]"
  shows "Cmd_step w lib send rd st = Some (Inl Null_Dereference)"
proof -
  obtain c zs where msg: "read_line (line rd) = c # 0 # zs" "c = 0 \<or> c = 0x0A"
    using assms by (auto simp: read_line_def BUFFER_SIZE_def numeral_eq_Suc)
  then have "is_cmd (c # 0 # zs) '' '' = Inr False" "strtok (c # 0 # zs) [0x20, 0x0A] 0 =
      Inr (None, c # 0 # zs, if c = 0 then 0 else 1)"
    by (auto simp: is_cmd_def bytes_of_def strncmp_eq_first strtok_def)
  then show ?thesis
    using msg by (auto simp: Cmd_step_def load_def)
qed

lemma Cmd_step_connect_alone:
  assumes "line rd = Some (bytes_of ''/connect'' @ [0x0A])"
  shows "Cmd_step w lib send rd st = Some (Inl Null_Dereference)"
proof -
  let ?c = "bytes_of ''/connect''"
  obtain zs where zs: "read_line (line rd) = ?c @ 0x0A # 0 # zs"
    using assms by (simp add: read_line_def connect_bytes BUFFER_SIZE_def numeral_eq_Suc)
  have "strtok (?c @ 0x0A # 0 # zs) [0x20, 0x0A] 0 = Inr (Some 0, ?c @ 0 # 0 # zs, 9)"
    using strtok_token [of ?c "[0x20, 0x0A]" "0x0A" "[]" "0 # zs"] by (simp add: connect_bytes)
  moreover have "strtok (?c @ 0 # 0 # zs) [0x0A] 9 = Inr (None, ?c @ 0 # 0 # zs, 9)"
    using strtok_none [of "[0x0A]" "?c @ [0]" zs] unfolding connect_length by simp
  moreover have "is_cmd (?c @ r) '' '' = Inr False" "load (?c @ r) 0 = Inr 47" for r
    by (simp_all add: is_cmd_def connect_bytes load_def strncmp_eq_first bytes_of_def)
  moreover have "is_cmd (?c @ 0 # 0 # zs) ''/connect'' = Inr True"
    using is_cmd_prefix [of "''/connect''" "0 # 0 # zs"] by (simp add: connect_bytes)
  ultimately show ?thesis
    by (simp add: Cmd_step_def zs)
qed

lemma Cmd_step_message:
  assumes "line rd = Some (0x40 # s)" "0 \<notin> set s" "length s < 1023"
  shows "Cmd_step w lib send rd st =
    bind_c (start_job lib send rd SEND_MSG BUFFER_SIZE (0x40 # s) st) (\<lambda>st.
    Some (Inr (True, say (bytes_of ''Sending message...'' @ [10]) st)))"
proof -
  obtain n where "BUFFER_SIZE - length (0x40 # s) = Suc n"
    using assms(3) by (cases "BUFFER_SIZE - length (0x40 # s)") (auto simp: BUFFER_SIZE_def)
  then have msg: "read_line (line rd) = 0x40 # s @ 0 # replicate n 0"
    using assms(1) by (simp add: read_line_def)
  have "print_str (0x40 # s @ 0 # replicate n 0) = Inr (0x40 # s)"
    using cstr_string [of "0x40 # s" "replicate n 0"] assms(2) by (simp add: print_str_def)
  moreover have "is_cmd (0x40 # r) '' '' = Inr False" "load (0x40 # r) 0 = Inr 0x40" for r
    by (simp_all add: is_cmd_def bytes_of_def strncmp_eq_first load_def)
  ultimately show ?thesis
    unfolding Cmd_step_def Let_def msg by simp
qed

text \<open>The two commands when the pool takes the task: a message always fits its block, an address only
  with at most 7 characters.\<close>

lemma Cmd_step_message_queued:
  assumes "pool_holds (spool st) send as" "arg_malloc rd \<noteq> 0" "job_malloc rd \<noteq> 0"
    "cells (spool st) (job_malloc rd) = None" "line rd = Some (0x40 # s)" "0 \<notin> set s" "length s < 1023"
  shows "\<exists>st' as' rest. Cmd_step w lib send rd st = Some (Inr (True, st')) \<and>
    pool_holds (spool st') send as' \<and> ablocks st' (arg_malloc rd) = Some (0x40 # s @ 0 # rest) \<and>
    jobs_at (cells (spool st')) as' = jobs_at (cells (spool st)) as @ [(SEND_MSG, arg_malloc rd)]"
proof -
  have "length (0x40 # s) < BUFFER_SIZE"
    using assms(7) by (simp add: BUFFER_SIZE_def)
  from start_job_queued [where lib = lib and routine = SEND_MSG, OF assms(1-4) this]
  obtain m' as' where "start_job lib send rd SEND_MSG BUFFER_SIZE (0x40 # s) st =
      Some (Inr (st\<lparr>spool := m', ablocks := (ablocks st)(arg_malloc rd \<mapsto>
        (0x40 # s) @ 0 # map (junk rd) [length (0x40 # s) + 1..<BUFFER_SIZE])\<rparr>))"
    "pool_holds m' send as'" "jobs_at (cells m') as' = jobs_at (cells (spool st)) as @ [(SEND_MSG, arg_malloc rd)]"
    by blast
  then show ?thesis
    using Cmd_step_message [OF assms(5-7), of w lib send st] by (auto simp: say_def)
qed

lemma Cmd_step_connect_block:
  assumes "pool_holds (spool st) send as" "arg_malloc rd \<noteq> 0" "job_malloc rd \<noteq> 0"
    "cells (spool st) (job_malloc rd) = None" "line rd = Some (connect_line ip)" "line_ok ip" "length ip < 1014"
  shows "if length ip < 7 then Cmd_step w lib send rd st = Some (Inr (True, help_function st))
    else if length ip = 7 then
      \<exists>st' as'. Cmd_step w lib send rd st = Some (Inr (True, st')) \<and>
        pool_holds (spool st') send as' \<and> ablocks st' (arg_malloc rd) = Some (ip @ [0]) \<and>
        jobs_at (cells (spool st')) as' = jobs_at (cells (spool st)) as @ [(SEND_SIGN_IN, arg_malloc rd)]
    else Cmd_step w lib send rd st = Some (Inl Out_Of_Bounds)"
proof -
  note step = Cmd_step_connect [OF assms(5-7), of w lib send st]
  have over: "start_job lib send rd r SIZEOF_POINTER ip st = Some (Inl Out_Of_Bounds)" if "7 < length ip" for r
    using that assms(2) by (simp add: start_job_def copy_string_def SIZEOF_POINTER_def)
  show ?thesis
  proof (cases "length ip = 7")
    case True
    then have "length ip < SIZEOF_POINTER"
      by (simp add: SIZEOF_POINTER_def)
    from start_job_queued [where lib = lib and routine = SEND_SIGN_IN, OF assms(1-4) this]
    obtain m' as' where "start_job lib send rd SEND_SIGN_IN SIZEOF_POINTER ip st =
        Some (Inr (st\<lparr>spool := m', ablocks := (ablocks st)(arg_malloc rd \<mapsto>
          ip @ 0 # map (junk rd) [length ip + 1..<SIZEOF_POINTER])\<rparr>))"
      "pool_holds m' send as'" "jobs_at (cells m') as' = jobs_at (cells (spool st)) as @ [(SEND_SIGN_IN, arg_malloc rd)]"
      by blast
    then show ?thesis
      using step True by (auto simp: say_def SIZEOF_POINTER_def)
  qed (use step over in auto)
qed

text \<open>
  C26: A line \<open>@...\<close> is put into the sending pool as a task whose argument is a copy of the line.  For \<open>/connect ip\<close> the
  copy goes to a block of the size of a pointer: a text of fewer than 7 characters prints the help, one of
  exactly 7 is queued, and every longer one, so nearly every IPv4 address, is written beyond the block.  An empty
  line, \<open>/connect\<close> alone and the end of the input make the thread read through a null pointer.
\<close>

theorem Cmd_step_outcomes:
  fixes fill :: "nat \<Rightarrow> u8"
  assumes "line_ok ip" "length ip < 1014" "0 \<notin> set s" "length s < 1023"
    "pool_holds (spool st) send as" "0 < ap" "0 < jp" "cells (spool st) jp = None"
  defines "rd \<equiv> \<lambda>l. \<lparr>line = l, arg_malloc = ap, job_malloc = jp, junk = fill\<rparr>"
  shows "(\<exists>st' as' rest. Cmd_step w lib send (rd (Some (0x40 # s))) st = Some (Inr (True, st')) \<and>
      pool_holds (spool st') send as' \<and> ablocks st' ap = Some (0x40 # s @ 0 # rest) \<and>
      jobs_at (cells (spool st')) as' = jobs_at (cells (spool st)) as @ [(SEND_MSG, ap)]) \<and>
    (if length ip < 7 then Cmd_step w lib send (rd (Some (connect_line ip))) st = Some (Inr (True, help_function st))
     else if length ip = 7 then
       \<exists>st' as'. Cmd_step w lib send (rd (Some (connect_line ip))) st = Some (Inr (True, st')) \<and>
         pool_holds (spool st') send as' \<and> ablocks st' ap = Some (ip @ [0]) \<and>
         jobs_at (cells (spool st')) as' = jobs_at (cells (spool st)) as @ [(SEND_SIGN_IN, ap)]
     else Cmd_step w lib send (rd (Some (connect_line ip))) st = Some (Inl Out_Of_Bounds)) \<and>
    (\<forall>l \<in> {None, Some [0x0A], Some (bytes_of ''/connect'' @ [0x0A])}.
       Cmd_step w lib send (rd l) st = Some (Inl Null_Dereference))"
proof (intro conjI)
  have rd: "arg_malloc (rd l) = ap" "line (rd l) = l" for l
    by (simp_all add: rd_def)
  have fresh: "arg_malloc (rd l) \<noteq> 0" "job_malloc (rd l) \<noteq> 0" "cells (spool st) (job_malloc (rd l)) = None" for l
    using assms(6-8) by (simp_all add: rd_def)
  show "\<exists>st' as' rest. Cmd_step w lib send (rd (Some (0x40 # s))) st = Some (Inr (True, st')) \<and>
      pool_holds (spool st') send as' \<and> ablocks st' ap = Some (0x40 # s @ 0 # rest) \<and>
      jobs_at (cells (spool st')) as' = jobs_at (cells (spool st)) as @ [(SEND_MSG, ap)]"
    using Cmd_step_message_queued [OF assms(5) fresh rd(2) assms(3,4)] unfolding rd(1) .
  show "if length ip < 7 then Cmd_step w lib send (rd (Some (connect_line ip))) st = Some (Inr (True, help_function st))
     else if length ip = 7 then
       \<exists>st' as'. Cmd_step w lib send (rd (Some (connect_line ip))) st = Some (Inr (True, st')) \<and>
         pool_holds (spool st') send as' \<and> ablocks st' ap = Some (ip @ [0]) \<and>
         jobs_at (cells (spool st')) as' = jobs_at (cells (spool st)) as @ [(SEND_SIGN_IN, ap)]
     else Cmd_step w lib send (rd (Some (connect_line ip))) st = Some (Inl Out_Of_Bounds)"
    using Cmd_step_connect_block [OF assms(5) fresh rd(2) assms(1,2)] unfolding rd(1) .
  show "\<forall>l \<in> {None, Some [0x0A], Some (bytes_of ''/connect'' @ [0x0A])}.
      Cmd_step w lib send (rd l) st = Some (Inl Null_Dereference)"
    using Cmd_step_empty [of "rd _"] Cmd_step_connect_alone [of "rd _"] by (simp add: rd)
qed

definition some_shell :: shell where
  "some_shell = \<lparr>chat = peer_ann_bob, spool = no_pools\<lparr>pools := [0x1000 \<mapsto> new_pool calls_ok True]\<rparr>,
     ablocks = Map.empty, shown = []\<rparr>"

lemma Cmd_step_outcomes_witness:
  "Cmd_step calm_world calls_ok 0x1000 \<lparr>line = Some (connect_line (bytes_of ''141.22.27.100'')), arg_malloc = 0x50,
     job_malloc = 0x10, junk = (\<lambda>n. 0)\<rparr> some_shell = Some (Inl Out_Of_Bounds)"
proof -
  have "pool_holds (spool some_shell) 0x1000 []" "cells (spool some_shell) 0x10 = None"
    by (simp_all add: some_shell_def pool_holds_def new_pool_def no_pools_def)
  moreover have "line_ok (bytes_of ''141.22.27.100'')" "length (bytes_of ''141.22.27.100'') = 13"
    by (simp_all add: line_ok_def bytes_of_def)
  ultimately show ?thesis
    using Cmd_step_outcomes [of "bytes_of ''141.22.27.100''" "[]" some_shell "0x1000" "[]" "0x50" "0x10" calm_world
        calls_ok "\<lambda>n. 0"]
    by simp
qed

section \<open>The end of the program\<close>

text \<open>What the threads of a run leave of the pools: their contents may change, the pools stay.\<close>

definition keeps_pools :: "program \<Rightarrow> program \<Rightarrow> bool" where
  "keeps_pools p p' \<longleftrightarrow> send_pool p' = send_pool p \<and> recv_pool p' = recv_pool p \<and>
     (\<forall>a q. pools (pmem p) a = Some q \<longrightarrow> (\<exists>q'. pools (pmem p') a = Some q' \<and> mutex_ready q' = mutex_ready q \<and>
        cond_ready q' = cond_ready q \<and> threads q' = threads q))"

lemma keeps_poolsD:
  assumes "keeps_pools p p'" "pools (pmem p) a = Some q"
  obtains q' where "pools (pmem p') a = Some q'" "mutex_ready q' = mutex_ready q" "cond_ready q' = cond_ready q"
    "threads q' = threads q" "send_pool p' = send_pool p"
  using assms unfolding keeps_pools_def by blast

lemma new_pool_threads: "threads (new_pool lib c) = Some arr \<Longrightarrow> i < NUM_THREADS \<Longrightarrow> arr i \<noteq> None"
  by (auto simp: new_pool_def filled_def)

lemma end_pool_faults:
  assumes "calls_fine lib" "pool \<noteq> 0" "pools (pmem st) pool = Some q" "mutex_ready q" "cond_ready q"
    "threads q = threads (new_pool lib c)"
  shows "end_pool lib pool st = Inl Use_After_Free"
proof -
  obtain arr where arr: "threads (new_pool lib c) = Some arr"
    by (simp add: new_pool_def)
  have "\<exists>e. Thpool_destroy lib pool (pmem st) = Inr (e, (pmem st)\<lparr>pools := (pools (pmem st))(pool := None), perrno := e\<rparr>)"
    by (rule Thpool_destroy_frees [OF assms(1-5)]) (use assms(6) arr new_pool_threads [OF arr] in auto)
  then show ?thesis
    using assms(2) by (auto simp: end_pool_def Thpool_free_def)
qed

text \<open>
  C27: The normal end of the program uses freed memory: \<open>Thpool_destroy\<close> has freed the sending pool when \<open>Thpool_free\<close> is
  called for it, and the same happens with the receiving pool when there is no memory for the sending
  one.  A wrong number of arguments gives -1, and a mutex that cannot be initialised ends the program with the exit
  value 0 of success.
\<close>

theorem main_frees_twice:
  assumes "calls_fine recv_lib" "calls_fine send_lib" "pool_malloc recv_lib \<noteq> pool_malloc send_lib"
    "\<And>p. keeps_pools p (session p)" "argc \<noteq> 3"
  shows "main 3 proto True destroy_ok recv_lib send_lib session st = Some (Inl Use_After_Free) \<and>
    main 3 proto True destroy_ok recv_lib (send_lib\<lparr>pool_malloc := 0\<rparr>) session st = Some (Inl Use_After_Free) \<and>
    main argc proto init_ok destroy_ok recv_lib send_lib session st = Some (Inr (-1, st)) \<and>
    main 3 proto False destroy_ok recv_lib send_lib session st = Some (Inr (0, st))"
proof (intro conjI)
  have ne: "pool_malloc recv_lib \<noteq> 0" "pool_malloc send_lib \<noteq> 0"
    using assms(1,2) by (simp_all add: calls_fine_def)
  have ready: "mutex_ready (new_pool lib True)" "cond_ready (new_pool lib True)" for lib
    by (simp_all add: new_pool_def)
  note create = Thpool_create_fine [OF assms(1)] Thpool_create_fine [OF assms(2)]
  let ?st = "st\<lparr>tstate := (tstate st)\<lparr>sign := False, locked := False\<rparr>, recv_pool := pool_malloc recv_lib,
    pmem := (pmem st)\<lparr>pools := (pools (pmem st))(pool_malloc recv_lib \<mapsto> new_pool recv_lib True), perrno := 0\<rparr>\<rparr>"
  let ?st' = "?st\<lparr>send_pool := pool_malloc send_lib, pmem := (pmem ?st)\<lparr>pools :=
    (pools (pmem ?st))(pool_malloc send_lib \<mapsto> new_pool send_lib True), perrno := 0\<rparr>,
    cstate := Client_protocol proto (cstate st)\<rparr>"
  have "pools (pmem ?st') (pool_malloc send_lib) = Some (new_pool send_lib True)"
    by simp
  then obtain q where q: "pools (pmem (session ?st')) (pool_malloc send_lib) = Some q"
    "mutex_ready q = mutex_ready (new_pool send_lib True)" "cond_ready q = cond_ready (new_pool send_lib True)"
    "threads q = threads (new_pool send_lib True)" "send_pool (session ?st') = send_pool ?st'"
    by (rule keeps_poolsD [OF assms(4)])
  have "end_pool send_lib (pool_malloc send_lib) (session ?st') = Inl Use_After_Free"
    by (rule end_pool_faults [OF assms(2) ne(2) q(1) _ _ q(4)]) (simp_all add: q(2,3) ready)
  then show "main 3 proto True destroy_ok recv_lib send_lib session st = Some (Inl Use_After_Free)"
    using ne q(5) by (simp add: main_def Tasks_start_def create Let_def)
  have "end_pool recv_lib (pool_malloc recv_lib) (st\<lparr>tstate := (tstate st)\<lparr>sign := False, locked := False\<rparr>,
      recv_pool := pool_malloc recv_lib, send_pool := 0, pmem := (pmem ?st)\<lparr>perrno := EADDRNOTAVAIL\<rparr>\<rparr>) =
      Inl Use_After_Free"
    by (rule end_pool_faults [OF assms(1) ne(1)]) (use ready in simp_all)
  then show "main 3 proto True destroy_ok recv_lib (send_lib\<lparr>pool_malloc := 0\<rparr>) session st = Some (Inl Use_After_Free)"
    using ne by (simp add: main_def Tasks_start_def create(1) Let_def Thpool_create_def [of "send_lib\<lparr>pool_malloc := 0\<rparr>"]
        recvfree_def)
qed (use assms(5) in \<open>simp_all add: main_def Tasks_start_def\<close>)

definition idle_program :: program where
  "idle_program = \<lparr>pmem = no_pools, tstate = peer_eve, cstate = tcp_client, recv_pool = 0, send_pool = 0\<rparr>"

lemma main_frees_twice_witness:
  "main 3 (bytes_of ''-tcp'' @ [0]) True True calls_ok (calls_ok\<lparr>pool_malloc := 0x3000\<rparr>) (\<lambda>p. p) idle_program =
     Some (Inl Use_After_Free)"
  using main_frees_twice [OF calls_ok_fine, of "\<lambda>p. p" 0 "bytes_of ''-tcp'' @ [0]" True idle_program]
  by (simp add: keeps_pools_def calls_ok_def)

end
