(* ===== verification/Task_Queue.thy ===== *)
theory Task_Queue
  imports Text_Format
begin

unbundle bit_operations_syntax

text \<open>
  \<^verbatim>\<open>Chat/taskqueue.c\<close> and \<^verbatim>\<open>taskqueue.h\<close>: tasks in a POSIX message queue.  No other file uses them.  The queue
  itself is the operating system's: its calls and the files with its limits are parameters, its state is a type
  of its own.  Messages of \<open>perror\<close> are counted where they are all that a function does.
\<close>

section \<open>Reading a limit\<close>

text \<open>What \<open>fscanf(fd, "%d", val)\<close> finds in a file.\<close>

datatype scan =
    Scan_EOF
  | Scan_Mismatch
  | Scan_Int u32

record limit_file =
  can_open :: bool
  content :: scan
  can_close :: bool

text \<open>The result and \<open>*val\<close>.\<close>

definition read_int_from_file :: "limit_file \<Rightarrow> u32 \<Rightarrow> int \<times> u32" where
  "read_int_from_file file val =
     (if \<not> can_open file then (-1, val)
      else
        let (err, val) = (case content file of
              Scan_EOF \<Rightarrow> (True, val) | Scan_Mismatch \<Rightarrow> (False, val) | Scan_Int v \<Rightarrow> (False, v));
            err = (if \<not> can_close file then True else err)
        in (if err then -1 else 0, val))"

section \<open>The queue\<close>

record task_msg =
  routine :: nat
  argument :: nat

definition no_task :: task_msg where
  "no_task = \<lparr>routine = 0, argument = 0\<rparr>"

text \<open>\<open>sizeof(struct task)\<close>: two pointers of a 64-bit machine.\<close>

definition MSG_SIZE :: u64 where "MSG_SIZE = 16"

definition ETIMEDOUT :: int where "ETIMEDOUT = 110"
definition ENOENT :: int where "ENOENT = 2"

record mq_attr =
  mq_maxmsg :: u32
  mq_msgsize :: u64
  mq_flags :: int

text \<open>The calls give their result and \<open>errno\<close>; \<open>mq_receive\<close> the message, if there is one.\<close>

record 'q mq_lib =
  msg_max :: limit_file
  msgsize_max :: limit_file
  mq_open :: "u8 list \<Rightarrow> mq_attr \<Rightarrow> 'q \<Rightarrow> int \<times> 'q"
  mq_send :: "int \<Rightarrow> task_msg \<Rightarrow> u32 \<Rightarrow> 'q \<Rightarrow> (int \<times> int) \<times> 'q"
  mq_timedsend :: "int \<Rightarrow> task_msg \<Rightarrow> u32 \<Rightarrow> 'q \<Rightarrow> (int \<times> int) \<times> 'q"
  mq_receive :: "int \<Rightarrow> 'q \<Rightarrow> task_msg option \<times> 'q"
  mq_close :: "int \<Rightarrow> 'q \<Rightarrow> int \<times> 'q"
  mq_unlink :: "u8 list \<Rightarrow> 'q \<Rightarrow> (int \<times> int) \<times> 'q"

text \<open>With a time of zero a send that would have to wait fails with \<open>ETIMEDOUT\<close>, which is the result 1.\<close>

definition Taskqueue_send ::
  "'q mq_lib \<Rightarrow> int \<Rightarrow> task_msg \<Rightarrow> u32 \<Rightarrow> bool \<Rightarrow> 'q \<Rightarrow> int \<times> 'q" where
  "Taskqueue_send lib mqdes task prio blocking q =
     (let ((erg, err), q) =
            (if blocking then mq_send lib mqdes task prio q else mq_timedsend lib mqdes task prio q)
      in if erg = -1 \<and> \<not> blocking \<and> err = ETIMEDOUT then (1, q) else (erg, q))"

text \<open>\<open>%d\<close> of a 32-bit value.\<close>

definition dec_int :: "u32 \<Rightarrow> string" where
  "dec_int v = (if sint v < 0 then ''-'' @ dec_string (nat (- sint v)) else dec_string (nat (sint v)))"

datatype 'q created =
    Exits "u8 list"
  | Queue int 'q

text \<open>The first comparison is made in \<open>unsigned int\<close>, the second in \<open>size_t\<close>; the results of
  \<open>read_int_from_file\<close> are not looked at.\<close>

definition Taskqueue_create :: "'q mq_lib \<Rightarrow> u8 list \<Rightarrow> u32 \<Rightarrow> 'q \<Rightarrow> 'q created" where
  "Taskqueue_create lib name qsize q =
     (let attr = \<lparr>mq_maxmsg = qsize, mq_msgsize = MSG_SIZE, mq_flags = 0\<rparr>;
          x = snd (read_int_from_file (msg_max lib) 0)
      in if x < qsize then
           Exits (bytes_of (''Set maximal msg queue size to '' @ dec_int qsize @
             '' or higher (s. /proc/sys/fs/mqueue/msg_max) '') @ [10])
         else
           let x = snd (read_int_from_file (msgsize_max lib) x)
           in if (scast x :: u64) < MSG_SIZE then
                Exits (bytes_of (''Set maximal size of msg queue element to '' @ dec_int (ucast MSG_SIZE) @
                  '' or higher (s. /proc/sys/fs/mqueue/msgsize_max) '') @ [10])
              else (case mq_open lib name attr q of (mqdes, q) \<Rightarrow> Queue mqdes q))"

definition Taskqueue_receive :: "'q mq_lib \<Rightarrow> int \<Rightarrow> 'q \<Rightarrow> task_msg \<times> 'q" where
  "Taskqueue_receive lib mqdes q =
     (case mq_receive lib mqdes q of (Some task, q) \<Rightarrow> (task, q) | (None, q) \<Rightarrow> (no_task, q))"

text \<open>Whether an error is reported.\<close>

definition Taskqueue_close :: "'q mq_lib \<Rightarrow> int \<Rightarrow> 'q \<Rightarrow> bool \<times> 'q" where
  "Taskqueue_close lib mqdes q = (case mq_close lib mqdes q of (r, q) \<Rightarrow> (r = -1, q))"

definition Taskqueue_destroy :: "'q mq_lib \<Rightarrow> u8 list \<Rightarrow> 'q \<Rightarrow> bool \<times> 'q" where
  "Taskqueue_destroy lib name q =
     (case mq_unlink lib name q of ((r, err), q) \<Rightarrow> (r = -1 \<and> err \<noteq> ENOENT, q))"

section \<open>The limits\<close>

text \<open>A limit that cannot be read leaves the variable as it was.\<close>

lemma read_int_failed:
  "\<not> can_open f \<or> content f = Scan_EOF \<Longrightarrow> read_int_from_file f val = (-1, val)"
  by (auto simp: read_int_from_file_def)

lemma read_int_value:
  "can_open f \<Longrightarrow> content f = Scan_Int v \<Longrightarrow> snd (read_int_from_file f val) = v"
  by (simp add: read_int_from_file_def)

text \<open>
  With both limits readable a queue is opened exactly when the limits, taken as unsigned numbers of their
  widths, suffice.  When the first one cannot be read every queue of positive length is refused; when
  only the second cannot be read, the limit on the number of messages is taken for that on their
  size.
\<close>

lemma Taskqueue_create_limits:
  assumes "can_open (msg_max lib)" "content (msg_max lib) = Scan_Int m"
    "can_open (msgsize_max lib)" "content (msgsize_max lib) = Scan_Int s"
  shows "(\<exists>d q'. Taskqueue_create lib name n q = Queue d q') = (n \<le> m \<and> MSG_SIZE \<le> scast s)"
    and "\<not> can_open (msg_max lib') \<Longrightarrow> 0 < n \<Longrightarrow> \<exists>msg. Taskqueue_create lib' name n q = Exits msg"
    and "(\<exists>d q'. Taskqueue_create (lib\<lparr>msgsize_max := f\<lparr>can_open := False\<rparr>\<rparr>) name n q = Queue d q') =
      (n \<le> m \<and> MSG_SIZE \<le> scast m)"
proof -
  have m: "snd (read_int_from_file (msg_max lib) 0) = m" and s: "snd (read_int_from_file (msgsize_max lib) x) = s" for x
    using read_int_value assms by blast+
  show "(\<exists>d q'. Taskqueue_create lib name n q = Queue d q') = (n \<le> m \<and> MSG_SIZE \<le> scast s)"
    by (simp add: Taskqueue_create_def Let_def m s not_less split: prod.splits) (meson not_le surj_pair)
  show "\<not> can_open (msg_max lib') \<Longrightarrow> 0 < n \<Longrightarrow> \<exists>msg. Taskqueue_create lib' name n q = Exits msg"
    by (simp add: Taskqueue_create_def read_int_failed)
  show "(\<exists>d q'. Taskqueue_create (lib\<lparr>msgsize_max := f\<lparr>can_open := False\<rparr>\<rparr>) name n q = Queue d q') =
      (n \<le> m \<and> MSG_SIZE \<le> scast m)"
    by (simp add: Taskqueue_create_def Let_def m read_int_failed not_less split: prod.splits)
      (meson not_le surj_pair)
qed

end
