(* ===== verification/Tst_Crc.thy ===== *)
theory Tst_Crc
  imports Crc16 Crc_Dnp Crc_Kermit Crc_Ccitt Crc_Sick Crc32
begin

unbundle bit_operations_syntax

text \<open>
  \<^verbatim>\<open>libcrc/examples/tstcrc.c\<close>: the sample program, which feeds a line of text, a line of hexadecimal
  digits or files to nine CRCs at once and prints them.  The state of a run is the buffer
  \<open>input_string\<close>, the statics of the four modules that fill their table, and the text printed on
  \<open>stdout\<close>.  The buffer starts with whatever the stack holds.  Whether plain \<open>char\<close> is signed is a
  parameter, because the loop over hexadecimal digits compares an \<open>unsigned char\<close> with
  \<open>'\x80'\<close>.
\<close>

section \<open>The nine registers\<close>

record crc_vals =
  crc_16_val :: u16
  crc_16_modbus_val :: u16
  crc_dnp_val :: u16
  crc_sick_val :: u16
  crc_ccitt_0000_val :: u16
  crc_ccitt_ffff_val :: u16
  crc_ccitt_1d0f_val :: u16
  crc_kermit_val :: u16
  crc_32_val :: u32

text \<open>The statics of \<^verbatim>\<open>crc16.c\<close>, \<^verbatim>\<open>crcdnp.c\<close>, \<^verbatim>\<open>crcccitt.c\<close> and \<^verbatim>\<open>crckrmit.c\<close>.\<close>

record crc_statics =
  s16 :: "u16 crc_tab"
  sdnp :: "u16 crc_tab"
  sccitt :: "u16 crc_tab"
  skermit :: "u16 crc_tab"

definition fresh_statics :: crc_statics where
  "fresh_statics =
     \<lparr>s16 = crc_tab_zero, sdnp = crc_tab_zero, sccitt = crc_tab_zero, skermit = crc_tab_zero\<rparr>"

type_synonym registers = "crc_statics \<times> crc_vals \<times> u8"

definition start_vals :: crc_vals where
  "start_vals = \<lparr>crc_16_val = 0x0000, crc_16_modbus_val = 0xFFFF, crc_dnp_val = 0x0000,
     crc_sick_val = 0x0000, crc_ccitt_0000_val = 0x0000, crc_ccitt_ffff_val = 0xFFFF,
     crc_ccitt_1d0f_val = 0x1D0F, crc_kermit_val = 0x0000, crc_32_val = 0xFFFFFFFF\<rparr>"

text \<open>One byte through the nine update functions, in the order of the calls.\<close>

definition feed :: "registers \<Rightarrow> u8 \<Rightarrow> registers" where
  "feed = (\<lambda>(st, v, prev_byte) c.
     let (v16, t16) = update_crc_16 (s16 st) (crc_16_val v) c;
         (vmod, t16) = update_crc_16 t16 (crc_16_modbus_val v) c;
         (vdnp, tdnp) = update_crc_dnp (sdnp st) (crc_dnp_val v) c;
         vsick = update_crc_sick (crc_sick_val v) c prev_byte;
         (v0000, tccitt) = update_crc_ccitt (sccitt st) (crc_ccitt_0000_val v) c;
         (vffff, tccitt) = update_crc_ccitt tccitt (crc_ccitt_ffff_val v) c;
         (v1d0f, tccitt) = update_crc_ccitt tccitt (crc_ccitt_1d0f_val v) c;
         (vkermit, tkermit) = update_crc_kermit (skermit st) (crc_kermit_val v) c;
         v32 = update_crc_32 gentab32 (crc_32_val v) c
     in (\<lparr>s16 = t16, sdnp = tdnp, sccitt = tccitt, skermit = tkermit\<rparr>,
         \<lparr>crc_16_val = v16, crc_16_modbus_val = vmod, crc_dnp_val = vdnp, crc_sick_val = vsick,
          crc_ccitt_0000_val = v0000, crc_ccitt_ffff_val = vffff, crc_ccitt_1d0f_val = v1d0f,
          crc_kermit_val = vkermit, crc_32_val = v32\<rparr>,
         c))"

text \<open>What the program does to the registers before it prints them.\<close>

definition finish_vals :: "crc_vals \<Rightarrow> crc_vals" where
  "finish_vals v =
     (let v = v\<lparr>crc_32_val := crc_32_val v XOR 0xFFFFFFFF\<rparr>;
          v = v\<lparr>crc_dnp_val := NOT (crc_dnp_val v)\<rparr>;
          v = v\<lparr>crc_dnp_val := swap_bytes16 (crc_dnp_val v)\<rparr>;
          v = v\<lparr>crc_sick_val := swap_bytes16 (crc_sick_val v)\<rparr>
      in v\<lparr>crc_kermit_val := swap_bytes16 (crc_kermit_val v)\<rparr>)"

section \<open>The report\<close>

definition report_16 :: "string \<Rightarrow> u16 \<Rightarrow> u8 list" where
  "report_16 label v =
     bytes_of (label @ '' = 0x'' @ hex_fixed 4 (unat v) @ ''      /  '' @ dec_string (unat v)) @ [10]"

definition report :: "u8 list \<Rightarrow> u8 list \<Rightarrow> crc_vals \<Rightarrow> u8 list" where
  "report quote name v =
     quote @ name @ quote @ bytes_of '' :'' @ [10] @
     report_16 ''CRC16             '' (crc_16_val v) @
     report_16 ''CRC16 (Modbus)    '' (crc_16_modbus_val v) @
     report_16 ''CRC16 (Sick)      '' (crc_sick_val v) @
     report_16 ''CRC-CCITT (0x0000)'' (crc_ccitt_0000_val v) @
     report_16 ''CRC-CCITT (0xffff)'' (crc_ccitt_ffff_val v) @
     report_16 ''CRC-CCITT (0x1d0f)'' (crc_ccitt_1d0f_val v) @
     report_16 ''CRC-CCITT (Kermit)'' (crc_kermit_val v) @
     report_16 ''CRC-DNP           '' (crc_dnp_val v) @
     bytes_of (''CRC32              = 0x'' @ hex_fixed 8 (unat (crc_32_val v)) @ ''  /  '' @
       dec_string (unat (crc_32_val v))) @ [10]"

section \<open>The input buffer\<close>

definition MAX_STRING_SIZE :: nat where "MAX_STRING_SIZE = 2048"

text \<open>\<open>fgets\<close> with room for \<open>n\<close> characters, on what is left of \<open>stdin\<close>: the line up to and
  including its newline, at most \<open>n - 1\<close> characters; without any input the buffer is kept.\<close>

definition fgets_str :: "nat \<Rightarrow> u8 list \<Rightarrow> u8 list" where
  "fgets_str n stdin =
     (let s = take (n - 1) stdin
      in takeWhile (\<lambda>c. c \<noteq> 10) s @ (if 10 \<in> set s then [10] else []))"

definition fgets_into :: "nat \<Rightarrow> u8 list \<Rightarrow> u8 list \<Rightarrow> u8 list" where
  "fgets_into n stdin buf =
     (if stdin = [] then buf
      else let s = fgets_str n stdin in s @ 0 # drop (Suc (length s)) buf)"

text \<open>Reading and writing \<open>input_string\<close> through a pointer, as an index.\<close>

definition get_byte :: "u8 list \<Rightarrow> nat \<Rightarrow> u8 result" where
  "get_byte buf i = (if i < length buf then Inr (buf ! i) else Inl Out_Of_Bounds)"

definition put_byte :: "u8 list \<Rightarrow> nat \<Rightarrow> u8 \<Rightarrow> u8 list result" where
  "put_byte buf i v = (if i < length buf then Inr (buf[i := v]) else Inl Out_Of_Bounds)"

definition line_end :: "u8 \<Rightarrow> bool" where
  "line_end c \<longleftrightarrow> c = 0 \<or> c = 13 \<or> c = 10"

text \<open>The end of the text: \<open>while ( *ptr && *ptr != '\r' && *ptr != '\n' ) ptr++; *ptr = 0;\<close>\<close>

function find_end :: "u8 list \<Rightarrow> nat \<Rightarrow> nat result" where
  "find_end buf ptr =
     (if length buf \<le> ptr then Inl Out_Of_Bounds
      else if line_end (buf ! ptr) then Inr ptr else find_end buf (Suc ptr))"
  by pat_completeness auto
termination by (relation "measure (\<lambda>(buf, ptr). length buf - ptr)") auto

definition cut_line :: "u8 list \<Rightarrow> u8 list result" where
  "cut_line buf = bind_r (find_end buf 0) (\<lambda>ptr. put_byte buf ptr 0)"

text \<open>One conditional of the loop that packs the digits: \<open>if ( *ptr >= lo && *ptr <= hi )
  *dest++ = *ptr - lo + k;\<close>\<close>

definition pack_if :: "u8 \<Rightarrow> u8 \<Rightarrow> u8 \<Rightarrow> nat \<Rightarrow> u8 list \<times> nat \<Rightarrow> (u8 list \<times> nat) result" where
  "pack_if lo hi k ptr = (\<lambda>(buf, dest).
     bind_r (get_byte buf ptr) (\<lambda>c.
     if c \<ge> lo \<and> c \<le> hi then
       bind_r (put_byte buf dest (c - lo + k)) (\<lambda>buf. Inr (buf, Suc dest))
     else Inr (buf, dest)))"

definition pack_digit :: "nat \<Rightarrow> u8 list \<times> nat \<Rightarrow> (u8 list \<times> nat) result" where
  "pack_digit ptr s =
     bind_r (pack_if 0x30 0x39 0 ptr s) (\<lambda>s.
     bind_r (pack_if 0x41 0x46 10 ptr s) (\<lambda>s.
     pack_if 0x61 0x66 10 ptr s))"

text \<open>The loop over the digits.  Its first argument counts the bytes from \<open>ptr\<close> to the end of the buffer, where
  \<open>*ptr\<close> is out of bounds.\<close>

fun pack_loop :: "nat \<Rightarrow> nat \<Rightarrow> u8 list \<times> nat \<Rightarrow> (u8 list \<times> nat) result" where
  "pack_loop 0 ptr s = Inl Out_Of_Bounds"
| "pack_loop (Suc n) ptr s =
     bind_r (get_byte (fst s) ptr) (\<lambda>c.
     if line_end c then Inr s
     else bind_r (pack_digit ptr s) (\<lambda>s. pack_loop n (Suc ptr) s))"

definition pack_line :: "u8 list \<Rightarrow> u8 list result" where
  "pack_line buf =
     bind_r (pack_loop (length buf) 0 (buf, 0)) (\<lambda>(buf, dest).
     bind_r (put_byte buf dest 0x80) (\<lambda>buf.
     put_byte buf (Suc dest) 0x80))"

section \<open>The loops over the input\<close>

text \<open>\<open>while ( *ptr ) { ... prev_byte = *ptr; ptr++; }\<close>\<close>

function ascii_loop :: "u8 list \<Rightarrow> nat \<Rightarrow> registers \<Rightarrow> registers result" where
  "ascii_loop buf ptr r =
     (if length buf \<le> ptr then Inl Out_Of_Bounds
      else if buf ! ptr = 0 then Inr r else ascii_loop buf (Suc ptr) (feed r (buf ! ptr)))"
  by pat_completeness auto
termination by (relation "measure (\<lambda>(buf, ptr, r). length buf - ptr)") auto

text \<open>The test \<open>*ptr != '\x80'\<close> compares two values of type \<open>int\<close>: the unsigned byte, and the character
  constant, which is negative where \<open>char\<close> is signed.\<close>

definition hex_end :: "bool \<Rightarrow> u8 \<Rightarrow> bool" where
  "hex_end char_signed c \<longleftrightarrow> uint c = (if char_signed then -128 else 128)"

definition hex_val :: "u8 \<Rightarrow> u8 \<Rightarrow> u8" where
  "hex_val hi lo = push_bit 4 (hi AND 0x0F) OR (lo AND 0x0F)"

function hex_loop :: "bool \<Rightarrow> u8 list \<Rightarrow> nat \<Rightarrow> registers \<Rightarrow> registers result" where
  "hex_loop char_signed buf ptr r =
     (if length buf \<le> ptr then Inl Out_Of_Bounds
      else if hex_end char_signed (buf ! ptr) then Inr r
      else if length buf \<le> Suc ptr then Inl Out_Of_Bounds
      else hex_loop char_signed buf (ptr + 2) (feed r (hex_val (buf ! ptr) (buf ! Suc ptr))))"
  by pat_completeness auto
termination by (relation "measure (\<lambda>(char_signed, buf, ptr, r). length buf - ptr)") auto

declare find_end.simps [simp del] ascii_loop.simps [simp del] hex_loop.simps [simp del]

section \<open>The program\<close>

record tst =
  input_string :: "u8 list"
  statics :: crc_statics
  stdout :: "u8 list"

definition put_out :: "u8 list \<Rightarrow> tst \<Rightarrow> tst" where
  "put_out t s = s\<lparr>stdout := stdout s @ t\<rparr>"

text \<open>The bytes of a file, \<open>None\<close> when it cannot be opened, through the registers.\<close>

definition file_round :: "(string \<Rightarrow> u8 list option) \<Rightarrow> string \<Rightarrow> tst \<Rightarrow> (tst \<times> registers) result" where
  "file_round files name s =
     (case files name of
        None \<Rightarrow>
          Inr (put_out (bytes_of (name @ '' : cannot open file'') @ [10]) s, (statics s, start_vals, 0))
      | Some chs \<Rightarrow> Inr (s, foldl feed (statics s, start_vals, 0) chs))"

text \<open>\<open>printf("%s", input_string)\<close>\<close>

definition text_of :: "u8 list \<Rightarrow> u8 list result" where
  "text_of buf = (if 0 \<in> set buf then Inr (cstr buf) else Inl Out_Of_Bounds)"

text \<open>One turn of the \<open>do ... while ( a < argc )\<close> loop, for \<open>argv[a]\<close>.\<close>

definition tst_round ::
  "bool \<Rightarrow> (string \<Rightarrow> u8 list option) \<Rightarrow> bool \<Rightarrow> bool \<Rightarrow> string \<Rightarrow> tst \<Rightarrow> tst result" where
  "tst_round char_signed files do_ascii do_hex name s =
     bind_r
       (if do_ascii then
          bind_r (ascii_loop (input_string s) 0 (statics s, start_vals, 0)) (\<lambda>r. Inr (s, r))
        else if do_hex then
          bind_r (hex_loop char_signed (input_string s) 0 (statics s, start_vals, 0)) (\<lambda>r.
          bind_r (put_byte (input_string s) 0 0) (\<lambda>buf. Inr (s\<lparr>input_string := buf\<rparr>, r)))
        else file_round files name s)
       (\<lambda>(s, (st, v, _)).
     bind_r (if \<not> do_ascii \<and> \<not> do_hex then Inr (bytes_of name) else text_of (input_string s)) (\<lambda>title.
     Inr (put_out
       (report (if do_ascii \<or> do_hex then bytes_of [CHR 0x22] else []) title (finish_vals v))
       (s\<lparr>statics := st\<rparr>))))"

fun tst_rounds ::
  "bool \<Rightarrow> (string \<Rightarrow> u8 list option) \<Rightarrow> bool \<Rightarrow> bool \<Rightarrow> string list \<Rightarrow> tst \<Rightarrow> tst result" where
  "tst_rounds char_signed files do_ascii do_hex [] s = Inr s"
| "tst_rounds char_signed files do_ascii do_hex (name # names) s =
     bind_r (tst_round char_signed files do_ascii do_hex name s)
       (tst_rounds char_signed files do_ascii do_hex names)"

definition banner :: "u8 list" where
  "banner = [10] @ bytes_of ''tstcrc: CRC algorithm sample program'' @ [10] @
     bytes_of ''Copyright (c) 1999-2016 Lammert Bies'' @ [10, 10]"

definition usage :: "u8 list" where
  "usage =
     bytes_of ''Usage: tst_crc [-a|-x] file1 ...'' @ [10, 10] @
     bytes_of ''    -a Program asks for ASCII input. Following parameters ignored.'' @ [10] @
     bytes_of ''    -x Program asks for hexadecimal input. Following parameters ignored.'' @ [10] @
     bytes_of ''       All other parameters are treated like filenames. The CRC values'' @ [10] @
     bytes_of ''       for each separate file will be calculated.'' @ [10]"

text \<open>The exit value and what is printed on \<open>stdout\<close>.  \<open>stack\<close> is the content of \<open>input_string\<close> when
  \<open>main\<close> starts.\<close>

definition tstcrc_main ::
  "bool \<Rightarrow> (string \<Rightarrow> u8 list option) \<Rightarrow> u8 list \<Rightarrow> u8 list \<Rightarrow> string list \<Rightarrow> (int \<times> u8 list) result" where
  "tstcrc_main char_signed files stdin stack argv =
     (if length argv < 2 then Inr (0, banner @ usage)
      else
        let do_ascii = (argv ! 1 = ''-a'' \<or> argv ! 1 = ''-A'');
            do_hex = (argv ! 1 = ''-x'' \<or> argv ! 1 = ''-X'');
            out = (if do_ascii \<or> do_hex then banner @ bytes_of ''Input: '' else banner);
            buf = (if do_ascii \<or> do_hex then fgets_into (MAX_STRING_SIZE - 1) stdin stack else stack)
        in bind_r (if do_ascii then cut_line buf else Inr buf) (\<lambda>buf.
           bind_r (if do_hex then pack_line buf else Inr buf) (\<lambda>buf.
           bind_r (tst_rounds char_signed files do_ascii do_hex (tl argv)
             \<lparr>input_string = buf, statics = fresh_statics, stdout = out\<rparr>) (\<lambda>s.
           Inr (0, stdout s)))))"

section \<open>The registers and the library's functions\<close>

definition statics_ok :: "crc_statics \<Rightarrow> bool" where
  "statics_ok st \<longleftrightarrow>
     tab_ok (right_table CRC_POLY_16) (s16 st) \<and> tab_ok (right_table CRC_POLY_DNP) (sdnp st) \<and>
     tab_ok (left_table CRC_POLY_CCITT) (sccitt st) \<and> tab_ok (right_table CRC_POLY_KERMIT) (skermit st)"

lemma statics_ok_fresh [simp]: "statics_ok fresh_statics"
  by (simp add: statics_ok_def fresh_statics_def tab_ok_zero)

text \<open>The nine CRCs of a message, by the functions of the library that take all of it at once.\<close>

definition library_vals :: "u8 list \<Rightarrow> crc_vals" where
  "library_vals bs =
     (let n = length bs; msg = Some bs in
      \<lparr>crc_16_val = fst (projr (crc_16 crc_tab_zero msg n)),
       crc_16_modbus_val = fst (projr (crc_modbus crc_tab_zero msg n)),
       crc_dnp_val = fst (projr (crc_dnp crc_tab_zero msg n)),
       crc_sick_val = projr (crc_sick msg n),
       crc_ccitt_0000_val = fst (projr (crc_xmodem crc_tab_zero msg n)),
       crc_ccitt_ffff_val = fst (projr (crc_ccitt_ffff crc_tab_zero msg n)),
       crc_ccitt_1d0f_val = fst (projr (crc_ccitt_1d0f crc_tab_zero msg n)),
       crc_kermit_val = fst (projr (crc_kermit crc_tab_zero msg n)),
       crc_32_val = projr (crc_32 gentab32 msg n)\<rparr>)"

lemmas lazy_ok = crc16_mod.ensure_ok crcdnp_mod.ensure_ok crcccitt_mod.ensure_ok
  crckermit_mod.ensure_ok
lemmas lazy_idem = crc16_mod.ensure_idem crcccitt_mod.ensure_idem
lemmas lazy_look = crc16_mod.look_ref crcdnp_mod.look_ref crcccitt_mod.look_ref
  crckermit_mod.look_ref
lemmas update_defs = update_crc_16_def update_crc_dnp_def update_crc_ccitt_def update_crc_kermit_def

text \<open>On sound statics one turn of the loop is nine steps of the reference registers.\<close>

definition ref_step :: "crc_vals \<Rightarrow> u8 \<Rightarrow> u8 \<Rightarrow> crc_vals" where
  "ref_step v p c =
     \<lparr>crc_16_val = crc_rbyte CRC_POLY_16 (crc_16_val v) c,
      crc_16_modbus_val = crc_rbyte CRC_POLY_16 (crc_16_modbus_val v) c,
      crc_dnp_val = crc_rbyte CRC_POLY_DNP (crc_dnp_val v) c,
      crc_sick_val = sick_step (crc_sick_val v) c p,
      crc_ccitt_0000_val = crc_lbyte CRC_POLY_CCITT (crc_ccitt_0000_val v) c,
      crc_ccitt_ffff_val = crc_lbyte CRC_POLY_CCITT (crc_ccitt_ffff_val v) c,
      crc_ccitt_1d0f_val = crc_lbyte CRC_POLY_CCITT (crc_ccitt_1d0f_val v) c,
      crc_kermit_val = crc_rbyte CRC_POLY_KERMIT (crc_kermit_val v) c,
      crc_32_val = crc_rbyte CRC_POLY_32 (crc_32_val v) c\<rparr>"

lemma feed_ref:
  assumes "statics_ok st"
  shows "\<exists>st'. statics_ok st' \<and> feed (st, v, p) c = (st', ref_step v p c, c)"
  using assms
  by (simp add: statics_ok_def feed_def update_defs Let_def lazy_ok lazy_idem lazy_look ref_step_def
      update_crc_sick_eq update_crc_32_eq)

lemma feeds_ref:
  assumes "statics_ok st"
  shows "\<exists>st' q. statics_ok st' \<and> foldl feed (st, v, p) bs =
    (st', \<lparr>crc_16_val = foldl (crc_rbyte CRC_POLY_16) (crc_16_val v) bs,
      crc_16_modbus_val = foldl (crc_rbyte CRC_POLY_16) (crc_16_modbus_val v) bs,
      crc_dnp_val = foldl (crc_rbyte CRC_POLY_DNP) (crc_dnp_val v) bs,
      crc_sick_val = sick_fold sick_step (crc_sick_val v) p bs,
      crc_ccitt_0000_val = foldl (crc_lbyte CRC_POLY_CCITT) (crc_ccitt_0000_val v) bs,
      crc_ccitt_ffff_val = foldl (crc_lbyte CRC_POLY_CCITT) (crc_ccitt_ffff_val v) bs,
      crc_ccitt_1d0f_val = foldl (crc_lbyte CRC_POLY_CCITT) (crc_ccitt_1d0f_val v) bs,
      crc_kermit_val = foldl (crc_rbyte CRC_POLY_KERMIT) (crc_kermit_val v) bs,
      crc_32_val = foldl (crc_rbyte CRC_POLY_32) (crc_32_val v) bs\<rparr>, q)"
  using assms
proof (induction bs arbitrary: st v p)
  case (Cons b bs)
  then obtain st' where "statics_ok st'" "feed (st, v, p) b = (st', ref_step v p b, b)"
    using feed_ref by blast
  then show ?case
    using Cons.IH [of st' "ref_step v p b" b] by (simp add: ref_step_def)
qed simp

lemma library_vals_eq:
  "library_vals bs =
    \<lparr>crc_16_val = foldl (crc_rbyte CRC_POLY_16) 0 bs,
     crc_16_modbus_val = foldl (crc_rbyte CRC_POLY_16) 0xFFFF bs,
     crc_dnp_val = swap_bytes16 (NOT (foldl (crc_rbyte CRC_POLY_DNP) 0 bs)),
     crc_sick_val = swap_bytes16 (sick_fold sick_step 0 0 bs),
     crc_ccitt_0000_val = foldl (crc_lbyte CRC_POLY_CCITT) 0 bs,
     crc_ccitt_ffff_val = foldl (crc_lbyte CRC_POLY_CCITT) 0xFFFF bs,
     crc_ccitt_1d0f_val = foldl (crc_lbyte CRC_POLY_CCITT) 0x1D0F bs,
     crc_kermit_val = swap_bytes16 (foldl (crc_rbyte CRC_POLY_KERMIT) 0 bs),
     crc_32_val = foldl (crc_rbyte CRC_POLY_32) 0xFFFFFFFF bs XOR 0xFFFFFFFF\<rparr>"
  using crc16_mod.look_loop [OF tab_ok_zero order_refl, of bs]
    crcdnp_mod.look_loop [OF tab_ok_zero order_refl, of bs]
    crcccitt_mod.look_loop [OF tab_ok_zero order_refl, of bs]
    crckermit_mod.look_loop [OF tab_ok_zero order_refl, of bs]
  by (simp add: library_vals_def crc_16_def crc_modbus_def crc_dnp_def crc_kermit_def crc_xmodem_def
      crc_ccitt_ffff_def crc_ccitt_1d0f_def crc_ccitt_generic_def crc_sick_value crc_32_value Let_def
      crc_start_defs)

lemma feed_library:
  assumes "statics_ok st"
  obtains st' v q where "statics_ok st'" "foldl feed (st, start_vals, 0) bs = (st', v, q)"
    "finish_vals v = library_vals bs"
  using feeds_ref [OF assms, of start_vals 0 bs]
  by (auto simp: start_vals_def finish_vals_def library_vals_eq Let_def)

section \<open>Text and files\<close>

lemma find_end_eq:
  "\<forall>c \<in> set xs. \<not> line_end c \<Longrightarrow> line_end t \<Longrightarrow>
   find_end (pre @ xs @ t # ys) (length pre) = Inr (length pre + length xs)"
proof (induction xs arbitrary: pre)
  case (Cons x xs)
  then show ?case
    using Cons.IH [of "pre @ [x]"] by (subst find_end.simps) (simp add: nth_append)
qed (subst find_end.simps, simp add: nth_append)

lemma ascii_loop_eq:
  "0 \<notin> set xs \<Longrightarrow> ascii_loop (pre @ xs @ 0 # ys) (length pre) r = Inr (foldl feed r xs)"
proof (induction xs arbitrary: pre r)
  case (Cons x xs)
  then show ?case
    using Cons.IH [of "pre @ [x]"] by (subst ascii_loop.simps) (simp add: nth_append)
qed (subst ascii_loop.simps, simp add: nth_append)

text \<open>What the user typed: the text of the first line, as far as it fits.\<close>

definition typed :: "u8 list \<Rightarrow> u8 list" where
  "typed stdin = takeWhile (\<lambda>c. \<not> line_end c) (take (MAX_STRING_SIZE - 2) stdin)"

lemma typed_no_end: "\<forall>c \<in> set (typed stdin). \<not> line_end c"
  by (auto simp: typed_def dest: set_takeWhileD)

lemma zero_not_typed [simp]: "0 \<notin> set (typed stdin)"
  using typed_no_end [of stdin] by (auto simp: line_end_def)

lemma takeWhile_line:
  "takeWhile (\<lambda>c. \<not> line_end c) (takeWhile (\<lambda>c. c \<noteq> 10) xs @ (if 10 \<in> set xs then [10] else []) @ 0 # ys) =
   takeWhile (\<lambda>c. \<not> line_end c) xs"
  by (induction xs) (auto simp: line_end_def)

lemma takeWhile_split:
  assumes "\<exists>c \<in> set xs. \<not> P c"
  obtains t ys where "xs = takeWhile P xs @ t # ys" "\<not> P t"
proof (cases "dropWhile P xs")
  case (Cons t ys)
  moreover have "\<not> P t"
    using hd_dropWhile [of P xs] Cons by simp
  ultimately show ?thesis
    using that takeWhile_dropWhile_id [of P xs] by metis
qed (use assms in \<open>auto simp: dropWhile_eq_Nil_conv\<close>)

lemma fgets_str_length: "length (fgets_str n stdin) \<le> n - 1"
proof -
  have "length (takeWhile (\<lambda>c. c \<noteq> 10) xs) + (if 10 \<in> set xs then 1 else 0) \<le> length xs" for xs :: "u8 list"
    by (induction xs) auto
  from this [of "take (n - 1) stdin"] show ?thesis
    by (auto simp: fgets_str_def Let_def split: if_splits)
qed

lemma fgets_typed:
  assumes "stdin \<noteq> []" "length stack = MAX_STRING_SIZE"
  obtains t ys where "fgets_into (MAX_STRING_SIZE - 1) stdin stack = typed stdin @ t # ys" "line_end t"
    "length (typed stdin @ t # ys) = MAX_STRING_SIZE" "ys \<noteq> []"
proof -
  let ?s = "fgets_str (MAX_STRING_SIZE - 1) stdin"
  let ?b = "?s @ 0 # drop (Suc (length ?s)) stack"
  have len: "length ?b = MAX_STRING_SIZE" "length ?s < MAX_STRING_SIZE - 1"
    using fgets_str_length [of "MAX_STRING_SIZE - 1" stdin] assms(2) by (simp_all add: MAX_STRING_SIZE_def)
  have line: "takeWhile (\<lambda>c. \<not> line_end c) ?b = typed stdin"
    using takeWhile_line [of "take (MAX_STRING_SIZE - 2) stdin" "drop (Suc (length ?s)) stack"]
    by (simp add: typed_def fgets_str_def Let_def MAX_STRING_SIZE_def)
  obtain t ys where split: "?b = typed stdin @ t # ys" "line_end t"
    using takeWhile_split [of ?b "\<lambda>c. \<not> line_end c"] line by (auto simp: line_end_def)
  have "length (typed stdin) \<le> MAX_STRING_SIZE - 2"
    unfolding typed_def by (rule le_trans [OF length_takeWhile_le]) simp
  then have "ys \<noteq> []"
    using arg_cong [OF split(1), of length] len(1) by (auto simp: MAX_STRING_SIZE_def)
  then show ?thesis
    using that [of t ys] split len(1) assms(1) by (auto simp: fgets_into_def Let_def)
qed

lemma cut_line_eq:
  assumes "\<forall>c \<in> set xs. \<not> line_end c" "line_end t"
  shows "cut_line (xs @ t # ys) = Inr (xs @ 0 # ys)"
  using find_end_eq [OF assms, of "[]" ys] by (simp add: cut_line_def put_byte_def)

lemma text_of_eq: "0 \<notin> set xs \<Longrightarrow> text_of (xs @ 0 # ys) = Inr xs"
  unfolding text_of_def cstr_def by (subst takeWhile_append2) auto

text \<open>The text a turn prints for a file, and for text on the line.\<close>

definition file_report :: "(string \<Rightarrow> u8 list option) \<Rightarrow> string \<Rightarrow> u8 list" where
  "file_report files name =
     (case files name of
        None \<Rightarrow> bytes_of (name @ '' : cannot open file'') @ [10] @ report [] (bytes_of name) (library_vals [])
      | Some bs \<Rightarrow> report [] (bytes_of name) (library_vals bs))"

lemma file_rounds:
  assumes "statics_ok (statics s)"
  shows "\<exists>s'. tst_rounds char_signed files False False names s = Inr s' \<and>
    stdout s' = stdout s @ concat (map (file_report files) names)"
  using assms
proof (induction names arbitrary: s)
  case (Cons name names)
  obtain st v q where feed: "statics_ok st"
      "foldl feed (statics s, start_vals, 0) (case files name of None \<Rightarrow> [] | Some bs \<Rightarrow> bs) = (st, v, q)"
      "finish_vals v = library_vals (case files name of None \<Rightarrow> [] | Some bs \<Rightarrow> bs)"
    using feed_library [OF Cons.prems] by metis
  then obtain s' where "tst_round char_signed files False False name s = Inr s'" "statics_ok (statics s')"
      "stdout s' = stdout s @ file_report files name"
    using Cons.prems
    by (cases "files name") (auto simp: tst_round_def file_round_def put_out_def file_report_def)
  then show ?case
    using Cons.IH [of s'] by simp
qed simp

lemma ascii_rounds:
  assumes "statics_ok (statics s)" "input_string s = xs @ 0 # ys" "0 \<notin> set xs"
  shows "\<exists>s'. tst_rounds char_signed files True False names s = Inr s' \<and>
    stdout s' = stdout s @
      concat (replicate (length names) (report (bytes_of [CHR 0x22]) xs (library_vals xs)))"
  using assms(1, 2)
proof (induction names arbitrary: s)
  case (Cons name names)
  obtain st v q where "statics_ok st" "foldl feed (statics s, start_vals, 0) xs = (st, v, q)"
      "finish_vals v = library_vals xs"
    using feed_library [OF Cons.prems(1)] by metis
  then obtain s' where "tst_round char_signed files True False name s = Inr s'" "statics_ok (statics s')"
      "stdout s' = stdout s @ report (bytes_of [CHR 0x22]) xs (library_vals xs)"
      "input_string s' = xs @ 0 # ys"
    using ascii_loop_eq [OF assms(3), of "[]" ys "(statics s, start_vals, 0)"] Cons.prems(2) assms(3)
    by (auto simp: tst_round_def put_out_def text_of_eq)
  then show ?case
    using Cons.IH [of s'] by simp
qed simp

text \<open>
  C40: The sample program, run with \<open>-a\<close>, prints for each of its parameters the nine CRCs of the text typed, up to the
  first line end or zero byte and at most 2046 bytes, as the library's functions compute them from
  the whole text at once; run with file names it prints those of each file, or a message and those
  of no bytes at all when the file cannot be opened; run without a parameter it prints how to use it.
  It does so whatever the stack held, and each time returns 0.
\<close>

theorem tstcrc_agrees_with_library:
  assumes "length stack = MAX_STRING_SIZE" "stdin \<noteq> []" "opt \<in> {''-a'', ''-A''}"
    "name \<notin> {''-a'', ''-A'', ''-x'', ''-X''}"
  shows "tstcrc_main char_signed files stdin stack (prog # opt # names) =
      Inr (0, banner @ bytes_of ''Input: '' @ concat (replicate (Suc (length names))
        (report (bytes_of [CHR 0x22]) (typed stdin) (library_vals (typed stdin))))) \<and>
    tstcrc_main char_signed files stdin stack (prog # name # names) =
      Inr (0, banner @ concat (map (file_report files) (name # names))) \<and>
    tstcrc_main char_signed files stdin stack [prog] = Inr (0, banner @ usage)"
proof (intro conjI)
  obtain t ys where "fgets_into (MAX_STRING_SIZE - 1) stdin stack = typed stdin @ t # ys" "line_end t"
    using fgets_typed [OF assms(2, 1)] by blast
  then show "tstcrc_main char_signed files stdin stack (prog # opt # names) =
      Inr (0, banner @ bytes_of ''Input: '' @ concat (replicate (Suc (length names))
        (report (bytes_of [CHR 0x22]) (typed stdin) (library_vals (typed stdin)))))"
    using ascii_rounds [of "\<lparr>input_string = typed stdin @ 0 # ys, statics = fresh_statics,
        stdout = banner @ bytes_of ''Input: ''\<rparr>" "typed stdin" ys char_signed files "opt # names"]
      cut_line_eq [OF typed_no_end] assms(3)
    by (auto simp: tstcrc_main_def simp del: tst_rounds.simps)
  show "tstcrc_main char_signed files stdin stack (prog # name # names) =
      Inr (0, banner @ concat (map (file_report files) (name # names)))"
    using file_rounds [of "\<lparr>input_string = stack, statics = fresh_statics, stdout = banner\<rparr>"
        char_signed files "name # names"] assms(4)
    by (auto simp: tstcrc_main_def simp del: tst_rounds.simps)
qed (simp add: tstcrc_main_def)

text \<open>The check string \<open>123456789\<close> typed, and a file without any bytes.\<close>

lemma tstcrc_agrees_with_library_witness:
  "tstcrc_main True (\<lambda>_. Some []) [0x31, 0x32, 0x33, 0x34, 0x35, 0x36, 0x37, 0x38, 0x39, 10]
      (replicate MAX_STRING_SIZE 7) [''tstcrc'', ''-a''] =
    Inr (0, banner @ bytes_of ''Input: '' @
      report [0x22] [0x31, 0x32, 0x33, 0x34, 0x35, 0x36, 0x37, 0x38, 0x39]
        \<lparr>crc_16_val = 0xBB3D, crc_16_modbus_val = 0x4B37, crc_dnp_val = 0x82EA, crc_sick_val = 0x56A6,
         crc_ccitt_0000_val = 0x31C3, crc_ccitt_ffff_val = 0x29B1, crc_ccitt_1d0f_val = 0xE5CC,
         crc_kermit_val = 0x8921, crc_32_val = 0xCBF43926\<rparr>)"
proof -
  have typed: "typed [0x31, 0x32, 0x33, 0x34, 0x35, 0x36, 0x37, 0x38, 0x39, 10] =
      [0x31, 0x32, 0x33, 0x34, 0x35, 0x36, 0x37, 0x38, 0x39]"
    by (simp add: typed_def MAX_STRING_SIZE_def line_end_def)
  have vals: "library_vals [0x31, 0x32, 0x33, 0x34, 0x35, 0x36, 0x37, 0x38, 0x39] =
      \<lparr>crc_16_val = 0xBB3D, crc_16_modbus_val = 0x4B37, crc_dnp_val = 0x82EA, crc_sick_val = 0x56A6,
       crc_ccitt_0000_val = 0x31C3, crc_ccitt_ffff_val = 0x29B1, crc_ccitt_1d0f_val = 0xE5CC,
       crc_kermit_val = 0x8921, crc_32_val = 0xCBF43926\<rparr>"
    by (simp add: library_vals_eq crc_rbyte_def crc_rstep_def crc_lbyte_def crc_lstep_def sick_step_def
        crc_poly_defs swap_bytes16_def word_cat_eq funpow_numeral)
  show ?thesis
    using tstcrc_agrees_with_library [of "replicate MAX_STRING_SIZE 7"
        "[0x31, 0x32, 0x33, 0x34, 0x35, 0x36, 0x37, 0x38, 0x39, 10]" "''-a''" "''data''" True
        "\<lambda>_. Some []" "''tstcrc''" "[]", THEN conjunct1]
    by (simp add: typed vals bytes_of_def)
qed

section \<open>Hexadecimal input\<close>

text \<open>The value of a hexadecimal digit; any other character gives none.\<close>

definition nibble :: "u8 \<Rightarrow> u8 list" where
  "nibble c =
     (if 0x30 \<le> c \<and> c \<le> 0x39 then [c - 0x30]
      else if 0x41 \<le> c \<and> c \<le> 0x46 then [c - 0x41 + 10]
      else if 0x61 \<le> c \<and> c \<le> 0x66 then [c - 0x61 + 10]
      else [])"

definition nibbles :: "u8 list \<Rightarrow> u8 list" where
  "nibbles cs = concat (map nibble cs)"

lemma nibbles_simps [simp]: "nibbles [] = []" "nibbles (c # cs) = nibble c @ nibbles cs"
  by (simp_all add: nibbles_def)

lemma nibble_less: "d \<in> set (nibble c) \<Longrightarrow> d < 16"
  by (auto simp: nibble_def split: if_splits) unat_arith+

lemma nibbles_less: "\<forall>d \<in> set (nibbles cs). d < 16"
  by (auto simp: nibbles_def dest: nibble_less)

text \<open>A digit just written in place is none of the characters the later conditionals look for.\<close>

lemma nibble_no_letter:
  fixes c :: u8
  shows "0x30 \<le> c \<and> c \<le> 0x39 \<Longrightarrow> \<not> 0x41 \<le> c - 0x30 \<and> \<not> 0x61 \<le> c - 0x30 \<and> \<not> 0x41 \<le> c \<and> \<not> 0x61 \<le> c"
    and "0x41 \<le> c \<and> c \<le> 0x46 \<Longrightarrow> \<not> 0x61 \<le> c - 0x41 + 10 \<and> \<not> 0x61 \<le> c"
  by unat_arith+

lemma pack_digit_eq:
  assumes "ptr < length buf" "dest \<le> ptr"
  shows "pack_digit ptr (buf, dest) =
    (case nibble (buf ! ptr) of [] \<Rightarrow> Inr (buf, dest) | v # _ \<Rightarrow> Inr (buf[dest := v], Suc dest))"
proof -
  have "dest < length buf" "(buf[dest := v]) ! ptr = (if dest = ptr then v else buf ! ptr)" for v
    using assms by (auto simp: nth_list_update)
  then show ?thesis
    using assms nibble_no_letter [of "buf ! ptr"]
    by (auto simp: pack_digit_def pack_if_def get_byte_def put_byte_def nibble_def)
qed

lemma nibble_cases:
  obtains "nibble c = []" | v where "nibble c = [v]"
proof -
  have "length (nibble c) \<le> 1"
    by (simp add: nibble_def)
  then show ?thesis
    using that by (cases "nibble c") auto
qed

text \<open>The digits packed so far, what is left of the characters read, and the rest of the line.\<close>

lemma pack_loop_eq:
  assumes "\<forall>c \<in> set xs. \<not> line_end c" "line_end t" "length xs < n"
  shows "\<exists>mid'. length mid' = length mid + length xs - length (nibbles xs) \<and>
    length (nibbles xs) \<le> length mid + length xs \<and>
    pack_loop n (length ds + length mid) (ds @ mid @ xs @ t # ys, length ds) =
      Inr (ds @ nibbles xs @ mid' @ t # ys, length ds + length (nibbles xs))"
  using assms(1, 3)
proof (induction xs arbitrary: ds mid n)
  case Nil
  then show ?case
    using assms(2) by (cases n) (auto simp: get_byte_def nth_append)
next
  case (Cons x xs)
  let ?p = "length ds + length mid"
  let ?buf = "ds @ mid @ x # xs @ t # ys"
  obtain m where n: "n = Suc m" "length xs < m"
    using Cons.prems by (cases n) auto
  have at: "?buf ! ?p = x" "?p < length ?buf" "length ds \<le> ?p"
    by (simp_all add: nth_append)
  have step: "pack_loop n ?p (?buf, length ds) = bind_r (pack_digit ?p (?buf, length ds)) (pack_loop m (Suc ?p))"
    using Cons.prems at by (simp add: n(1) get_byte_def)
  show ?case
  proof (cases rule: nibble_cases [of x])
    case 1
    then show ?thesis
      using Cons.IH [of m "mid @ [x]" ds] Cons.prems n step pack_digit_eq [OF at(2, 3)] at(1) by simp
  next
    case (2 v)
    have "?buf[length ds := v] = (ds @ [v]) @ tl (mid @ [x]) @ xs @ t # ys"
      by (cases mid) (simp_all add: list_update_append)
    then show ?thesis
      using Cons.IH [of m "tl (mid @ [x])" "ds @ [v]"] Cons.prems n step pack_digit_eq [OF at(2, 3)] at(1) 2
      by simp
  qed
qed

lemma pack_line_eq:
  assumes "\<forall>c \<in> set xs. \<not> line_end c" "line_end t" "ys \<noteq> []"
  shows "\<exists>zs. pack_line (xs @ t # ys) = Inr (nibbles xs @ 0x80 # 0x80 # zs)"
proof -
  obtain mid where "pack_loop (length (xs @ t # ys)) 0 (xs @ t # ys, 0) =
      Inr (nibbles xs @ mid @ t # ys, length (nibbles xs))"
    using pack_loop_eq [OF assms(1, 2), of "length (xs @ t # ys)" "[]" "[]" ys] by auto
  moreover obtain a b zs where "mid @ t # ys = a # b # zs"
    using assms(3) by (cases mid; cases "tl mid"; cases ys) auto
  ultimately have "pack_loop (length (xs @ t # ys)) 0 (xs @ t # ys, 0) =
      Inr (nibbles xs @ a # b # zs, length (nibbles xs))"
    by simp
  then show ?thesis
    unfolding pack_line_def by (simp only: bind_r_Inr prod.case) (simp add: put_byte_def list_update_append)
qed

text \<open>The bytes a row of digits stands for: two digits each, a last single one padded with zero.\<close>

fun hex_pairs :: "u8 list \<Rightarrow> u8 list" where
  "hex_pairs (d # e # ds) = (16 * d + e) # hex_pairs ds"
| "hex_pairs [d] = [16 * d]"
| "hex_pairs [] = []"

lemma push_bit_4: "push_bit 4 d = 16 * (d :: u8)"
  by (simp add: push_bit_eq_mult)

lemma take_bit_4: "d < 16 \<Longrightarrow> take_bit 4 d = (d :: u8)"
  using less_mask_eq [of d 4] by (simp add: take_bit_eq_mask)

lemma low_nibble: "d < 16 \<Longrightarrow> d AND 15 = (d :: u8)"
  using take_bit_4 [of d] by (simp add: take_bit_eq_mask mask_eq_exp_minus_1)

lemma hex_val_eq:
  assumes "d < 16" "e < 16"
  shows "hex_val d e = 16 * d + e"
proof -
  have "push_bit 4 d AND take_bit 4 e = 0"
    by (rule bit_word_eqI) (simp add: bit_and_iff bit_push_bit_iff bit_take_bit_iff)
  then have "push_bit 4 d OR e = push_bit 4 d + e"
    using disjunctive_add_eq_or [of "push_bit 4 d" e] assms by (simp only: take_bit_4)
  then show ?thesis
    using assms by (simp add: hex_val_def low_nibble push_bit_4)
qed

lemma hex_val_pad: "d < 16 \<Longrightarrow> hex_val d 0x80 = 16 * d"
  by (simp add: hex_val_def low_nibble push_bit_4)

lemma hex_end_simps [simp]: "\<not> hex_end True c" "hex_end False 0x80" "d < 16 \<Longrightarrow> \<not> hex_end False d"
proof -
  show "\<not> hex_end True c"
  proof -
    have "uint c \<noteq> - 128"
      using uint_ge_0 [of c] by linarith
    then show ?thesis
      by (simp add: hex_end_def)
  qed
  show "d < 16 \<Longrightarrow> \<not> hex_end False d"
    by (auto simp: hex_end_def word_less_def)
qed (simp add: hex_end_def)

lemma hex_loop_eq:
  assumes "\<forall>d \<in> set ds. d < 16"
  shows "hex_loop False (pre @ ds @ 0x80 # 0x80 # zs) (length pre) r =
    Inr (foldl feed r (hex_pairs ds))"
  using assms
proof (induction ds arbitrary: pre r rule: hex_pairs.induct)
  case (1 d e ds)
  then show ?case
    using "1.IH" [of "pre @ [d, e]"] by (subst hex_loop.simps) (simp add: nth_append hex_val_eq)
next
  case (2 d)
  then show ?case
    by (subst hex_loop.simps, subst hex_loop.simps) (simp add: nth_append hex_val_pad)
next
  case 3
  then show ?case
    by (subst hex_loop.simps) (simp add: nth_append)
qed

text \<open>Where \<open>char\<close> is signed the loop has no end in the buffer.\<close>

lemma hex_loop_signed: "hex_loop True buf ptr r = Inl Out_Of_Bounds"
proof (induction "length buf - ptr" arbitrary: ptr r rule: less_induct)
  case less
  show ?case
    using less [of "ptr + 2"] by (subst hex_loop.simps) simp
qed

lemma hex_round:
  assumes "statics_ok (statics s)" "input_string s = ds @ 0x80 # 0x80 # zs" "\<forall>d \<in> set ds. d < 16"
  obtains s' where "tst_round False files False True name s = Inr s'" "statics_ok (statics s')"
    "stdout s' = stdout s @ report (bytes_of [CHR 0x22]) [] (library_vals (hex_pairs ds))"
    "input_string s' = (ds @ 0x80 # 0x80 # zs)[0 := 0]"
proof -
  obtain st v q where "statics_ok st" "foldl feed (statics s, start_vals, 0) (hex_pairs ds) = (st, v, q)"
      "finish_vals v = library_vals (hex_pairs ds)"
    using feed_library [OF assms(1)] by metis
  moreover have "text_of ((ds @ 0x80 # 0x80 # zs)[0 := 0]) = Inr []"
    by (cases ds) (simp_all add: text_of_def cstr_def)
  ultimately show ?thesis
    using that hex_loop_eq [OF assms(3), of "[]" zs "(statics s, start_vals, 0)"] assms(2)
    by (simp add: tst_round_def put_out_def put_byte_def)
qed

lemma hex_rounds:
  assumes "statics_ok (statics s)" "input_string s = 0 # ds @ 0x80 # 0x80 # zs" "\<forall>d \<in> set ds. d < 16"
  shows "\<exists>s'. tst_rounds False files False True names s = Inr s' \<and>
    stdout s' = stdout s @ concat (replicate (length names)
      (report (bytes_of [CHR 0x22]) [] (library_vals (hex_pairs (0 # ds)))))"
  using assms(1, 2)
proof (induction names arbitrary: s)
  case (Cons name names)
  obtain s' where "tst_round False files False True name s = Inr s'" "statics_ok (statics s')"
      "stdout s' = stdout s @ report (bytes_of [CHR 0x22]) [] (library_vals (hex_pairs (0 # ds)))"
      "input_string s' = 0 # ds @ 0x80 # 0x80 # zs"
    using hex_round [of s "0 # ds" zs files name] Cons.prems assms(3) by auto
  then show ?case
    using Cons.IH [of s'] by simp
qed simp

text \<open>
  Run with \<open>-x\<close>, the sample program reads past its buffer for every input where \<open>char\<close> is signed.  Where
  \<open>char\<close> is unsigned it prints the nine CRCs of the bytes the digits typed stand for, two digits
  each, a last single one padded with zero, any other character skipped; and although the usage
  says that further parameters are ignored, it prints for each of them the CRCs of the same bytes with
  the first digit zero.
\<close>

theorem tstcrc_hex_mode:
  assumes "length stack = MAX_STRING_SIZE" "stdin \<noteq> []" "opt \<in> {''-x'', ''-X''}"
    "nibbles (typed stdin) = d # ds"
  shows "tstcrc_main True files stdin stack (prog # opt # names) = Inl Out_Of_Bounds \<and>
    tstcrc_main False files stdin stack (prog # opt # names) =
      Inr (0, banner @ bytes_of ''Input: '' @
        report (bytes_of [CHR 0x22]) [] (library_vals (hex_pairs (d # ds))) @
        concat (replicate (length names)
          (report (bytes_of [CHR 0x22]) [] (library_vals (hex_pairs (0 # ds))))))"
proof -
  obtain t ys where line: "fgets_into (MAX_STRING_SIZE - 1) stdin stack = typed stdin @ t # ys" "line_end t"
      "ys \<noteq> []"
    using fgets_typed [OF assms(2, 1)] by blast
  then obtain zs where pack: "pack_line (typed stdin @ t # ys) = Inr (d # ds @ 0x80 # 0x80 # zs)"
    using pack_line_eq [OF typed_no_end [of stdin] line(2, 3)] assms(4) by auto
  have less: "\<forall>e \<in> set (d # ds). e < 16"
    using nibbles_less [of "typed stdin"] assms(4) by simp
  let ?s = "\<lparr>input_string = d # ds @ 0x80 # 0x80 # zs, statics = fresh_statics,
    stdout = banner @ bytes_of ''Input: ''\<rparr>"
  have start: "tstcrc_main sg files stdin stack (prog # opt # names) =
      bind_r (tst_rounds sg files False True (opt # names) ?s) (\<lambda>s. Inr (0, stdout s))" for sg
    using assms(3) line(1) pack by (auto simp: tstcrc_main_def simp del: tst_rounds.simps)
  obtain s' where "tst_round False files False True opt ?s = Inr s'" "statics_ok (statics s')"
      "stdout s' = stdout ?s @ report (bytes_of [CHR 0x22]) [] (library_vals (hex_pairs (d # ds)))"
      "input_string s' = 0 # ds @ 0x80 # 0x80 # zs"
    using hex_round [of ?s "d # ds" zs files opt] less by auto
  then show ?thesis
    using hex_rounds [of s' ds zs files names] less
    by (auto simp: start tst_round_def hex_loop_signed)
qed

text \<open>The digits \<open>12 3\<close>, and one further parameter.\<close>

lemma tstcrc_hex_mode_witness:
  "tstcrc_main False (\<lambda>_. None) [0x31, 0x32, 0x20, 0x33, 10] (replicate MAX_STRING_SIZE 7)
      [''tstcrc'', ''-x'', ''more''] =
    Inr (0, banner @ bytes_of ''Input: '' @
      report [0x22] [] (library_vals [0x12, 0x30]) @ report [0x22] [] (library_vals [0x02, 0x30]))"
proof -
  have "typed [0x31, 0x32, 0x20, 0x33, 10] = [0x31, 0x32, 0x20, 0x33]"
    by (simp add: typed_def MAX_STRING_SIZE_def line_end_def)
  then show ?thesis
    using tstcrc_hex_mode [of "replicate MAX_STRING_SIZE 7" "[0x31, 0x32, 0x20, 0x33, 10]" "''-x''" 1 "[2, 3]"
        "\<lambda>_. None" "''tstcrc''" "[''more'']", THEN conjunct2]
    by (simp add: nibble_def bytes_of_def)
qed

end
