(* ===== verification/Libcrc_Test.thy ===== *)
theory Libcrc_Test
  imports Tst_Crc Crc8 Crc64 Nmea
begin

unbundle bit_operations_syntax

text \<open>
  \<^verbatim>\<open>libcrc/test\<close>: the program that compares the routines of the library with known results on the
  platform at hand and returns the number of those that differ.  A string constant is its characters
  and a terminating zero in memory; the two arrays of checks end with an entry of null pointers.
\<close>

section \<open>The CRC routines\<close>

text \<open>\<open>struct chk_tp\<close> of \<^verbatim>\<open>testcrc.c\<close> and its array \<open>checks\<close>.\<close>

record crc_chk =
  input :: "string option"
  x_crc8 :: u8
  x_crc16 :: u16
  x_crc32 :: u32
  x_crc64_ecma :: u64
  x_crc64_we :: u64
  x_crcdnp :: u16
  x_crcmodbus :: u16
  x_crcsick :: u16
  x_crcxmodem :: u16
  x_crc1d0f :: u16
  x_crcffff :: u16
  x_crckermit :: u16

definition crc_checks :: "crc_chk list" where
  "crc_checks = [
     \<lparr>input = Some ''123456789'', x_crc8 = 0xA2, x_crc16 = 0xBB3D, x_crc32 = 0xCBF43926,
      x_crc64_ecma = 0x6C40DF5F0B497347, x_crc64_we = 0x62EC59E3F1A4F00A,
      x_crcdnp = 0x82EA, x_crcmodbus = 0x4B37, x_crcsick = 0x56A6,
      x_crcxmodem = 0x31C3, x_crc1d0f = 0xE5CC, x_crcffff = 0x29B1, x_crckermit = 0x8921\<rparr>,
     \<lparr>input = Some ''Lammert Bies'', x_crc8 = 0xA5, x_crc16 = 0xB638, x_crc32 = 0x43C04CA6,
      x_crc64_ecma = 0xF806F4F5C0F3257C, x_crc64_we = 0xFE25A9F50630F789,
      x_crcdnp = 0x4583, x_crcmodbus = 0xB45C, x_crcsick = 0x1108,
      x_crcxmodem = 0xCEC8, x_crc1d0f = 0x67A2, x_crcffff = 0x4A31, x_crckermit = 0xF80D\<rparr>,
     \<lparr>input = Some '''', x_crc8 = 0x00, x_crc16 = 0x0000, x_crc32 = 0x00000000,
      x_crc64_ecma = 0x0000000000000000, x_crc64_we = 0x0000000000000000,
      x_crcdnp = 0xFFFF, x_crcmodbus = 0xFFFF, x_crcsick = 0x0000,
      x_crcxmodem = 0x0000, x_crc1d0f = 0x1D0F, x_crcffff = 0xFFFF, x_crckermit = 0x0000\<rparr>,
     \<lparr>input = Some '' '', x_crc8 = 0x86, x_crc16 = 0xD801, x_crc32 = 0xE96CCF45,
      x_crc64_ecma = 0xCC7AF1FF21C30BDE, x_crc64_we = 0x568617D9EF46BE26,
      x_crcdnp = 0x50D6, x_crcmodbus = 0x98BE, x_crcsick = 0x2000,
      x_crcxmodem = 0x2462, x_crc1d0f = 0xE8FE, x_crcffff = 0xC592, x_crckermit = 0x0221\<rparr>,
     \<lparr>input = None, x_crc8 = 0, x_crc16 = 0, x_crc32 = 0, x_crc64_ecma = 0, x_crc64_we = 0, x_crcdnp = 0,
      x_crcmodbus = 0, x_crcsick = 0, x_crcxmodem = 0, x_crc1d0f = 0, x_crcffff = 0, x_crckermit = 0\<rparr>]"

definition string_constant :: "string \<Rightarrow> u8 list" where
  "string_constant s = bytes_of s @ [0]"

text \<open>The statics of the library, the errors counted and the text printed.\<close>

type_synonym tally = "int \<times> string"

text \<open>\<open>if (wrong) { if (verbose) printf(...); errors++; }\<close>\<close>

definition expect :: "bool \<Rightarrow> bool \<Rightarrow> string \<Rightarrow> tally \<Rightarrow> tally" where
  "expect verbose wrong msg = (\<lambda>(errors, out).
     if wrong then (errors + 1, if verbose then out @ msg else out) else (errors, out))"

definition new_line :: string where "new_line = [CHR 0x0A]"

definition fail_text :: "string \<Rightarrow> string \<Rightarrow> string \<Rightarrow> nat \<Rightarrow> nat \<Rightarrow> nat \<Rightarrow> string" where
  "fail_text name s verb w got wanted =
     new_line @ ''    FAIL'' @ name @ '' '' @ [CHR 0x22] @ s @ [CHR 0x22] @ verb @ '' 0x'' @
       hex_fixed w got @ '', not 0x'' @ hex_fixed w wanted"

text \<open>One turn of the loop: twelve calls, then twelve comparisons.  The format of the Modbus
  message has an \<open>X\<close> too many.\<close>

definition crc_round :: "bool \<Rightarrow> string \<Rightarrow> crc_chk \<Rightarrow> crc_statics \<times> tally \<Rightarrow> (crc_statics \<times> tally) result" where
  "crc_round verbose s chk = (\<lambda>(st, t).
     let ptr = Some (string_constant s); n = length (cstr (string_constant s)) in
     bind_r (crc_8 ptr n) (\<lambda>crc8.
     bind_r (crc_16 (s16 st) ptr n) (\<lambda>(crc16, t16).
     bind_r (crc_32 gentab32 ptr n) (\<lambda>crc32.
     bind_r (crc_64_ecma gentab64 ptr n) (\<lambda>crc64_ecma.
     bind_r (crc_64_we gentab64 ptr n) (\<lambda>crc64_we.
     bind_r (crc_dnp (sdnp st) ptr n) (\<lambda>(crcdnp, tdnp).
     bind_r (crc_modbus t16 ptr n) (\<lambda>(crcmodbus, t16).
     bind_r (crc_sick ptr n) (\<lambda>crcsick.
     bind_r (crc_xmodem (sccitt st) ptr n) (\<lambda>(crcxmodem, tccitt).
     bind_r (crc_ccitt_1d0f tccitt ptr n) (\<lambda>(crc1d0f, tccitt).
     bind_r (crc_ccitt_ffff tccitt ptr n) (\<lambda>(crcffff, tccitt).
     bind_r (crc_kermit (skermit st) ptr n) (\<lambda>(crckermit, tkermit).
     let t = expect verbose (crc8 \<noteq> x_crc8 chk)
           (fail_text '': CRC8'' s '' return'' 2 (unat crc8) (unat (x_crc8 chk))) t;
         t = expect verbose (crc16 \<noteq> x_crc16 chk)
           (fail_text '': CRC16'' s '' return'' 4 (unat crc16) (unat (x_crc16 chk))) t;
         t = expect verbose (crc32 \<noteq> x_crc32 chk)
           (fail_text '': CRC32'' s '' returns'' 8 (unat crc32) (unat (x_crc32 chk))) t;
         t = expect verbose (crc64_ecma \<noteq> x_crc64_ecma chk)
           (fail_text '': CRC64 ECMA'' s '' returns'' 16 (unat crc64_ecma) (unat (x_crc64_ecma chk))) t;
         t = expect verbose (crc64_we \<noteq> x_crc64_we chk)
           (fail_text '': CRC64 WE'' s '' returns'' 16 (unat crc64_we) (unat (x_crc64_we chk))) t;
         t = expect verbose (crcdnp \<noteq> x_crcdnp chk)
           (fail_text '' CRC DNP'' s '' returns'' 4 (unat crcdnp) (unat (x_crcdnp chk))) t;
         t = expect verbose (crcmodbus \<noteq> x_crcmodbus chk)
           (fail_text '' CRC Modbus'' s '' returns'' 4 (unat crcmodbus) (unat (x_crcmodbus chk)) @ ''X'') t;
         t = expect verbose (crcsick \<noteq> x_crcsick chk)
           (fail_text '' CRC Sick'' s '' returns'' 4 (unat crcsick) (unat (x_crcsick chk))) t;
         t = expect verbose (crcxmodem \<noteq> x_crcxmodem chk)
           (fail_text '' CRC Xmodem'' s '' returns'' 4 (unat crcxmodem) (unat (x_crcxmodem chk))) t;
         t = expect verbose (crc1d0f \<noteq> x_crc1d0f chk)
           (fail_text '' CRC CCITT 1d0f'' s '' returns'' 4 (unat crc1d0f) (unat (x_crc1d0f chk))) t;
         t = expect verbose (crcffff \<noteq> x_crcffff chk)
           (fail_text '' CRC CCITT ffff'' s '' returns'' 4 (unat crcffff) (unat (x_crcffff chk))) t;
         t = expect verbose (crckermit \<noteq> x_crckermit chk)
           (fail_text '' CRC Kermit'' s '' returns'' 4 (unat crckermit) (unat (x_crckermit chk))) t
     in Inr (\<lparr>s16 = t16, sdnp = tdnp, sccitt = tccitt, skermit = tkermit\<rparr>, t))))))))))))))"

fun crc_rounds :: "bool \<Rightarrow> crc_chk list \<Rightarrow> crc_statics \<times> tally \<Rightarrow> (crc_statics \<times> tally) result" where
  "crc_rounds verbose [] stt = Inl Out_Of_Bounds"
| "crc_rounds verbose (chk # checks) stt =
     (case input chk of
        None \<Rightarrow> Inr stt
      | Some s \<Rightarrow> bind_r (crc_round verbose s chk stt) (crc_rounds verbose checks))"

text \<open>What both tests print at the end.\<close>

definition test_end :: "bool \<Rightarrow> tally \<Rightarrow> tally" where
  "test_end verbose = (\<lambda>(errors, out).
     (errors,
      if errors = 0 then out @ ''OK'' @ new_line
      else out @ (if verbose then new_line @ ''    '' else []) @
        ''FAILED '' @ dec_string (nat errors) @ '' checks'' @ new_line))"

definition test_crc ::
  "crc_chk list \<Rightarrow> bool \<Rightarrow> crc_statics \<Rightarrow> string \<Rightarrow> (crc_statics \<times> tally) result" where
  "test_crc checks verbose st out =
     bind_r (crc_rounds verbose checks (st, 0, out @ ''Testing CRC routines: '')) (\<lambda>(st, t).
     Inr (st, test_end verbose t))"

section \<open>The NMEA checksum\<close>

text \<open>The array \<open>checks\<close> of \<^verbatim>\<open>testnmea.c\<close>.\<close>

definition nmea_checks :: "(string option \<times> string option) list" where
  "nmea_checks = [
     (Some ''$GPRMC,162254.00,A,3723.02837,N,12159.39853,W,0.820,188.36,110706,,,A*74'', Some ''74''),
     (Some ''$GPRMC,162254.00,A,3723.02837,N,12159.39853,W,0.820,188.36,110706,,,A*'', Some ''74''),
     (Some ''$GPRMC,162254.00,A,3723.02837,N,12159.39853,W,0.820,188.36,110706,,,A*  '', Some ''74''),
     (Some ''$GPRMC,162254.00,A,3723.02837,N,12159.39853,W,0.820,188.36,110706,,,A'', Some ''74''),
     (Some ''GPRMC,162254.00,A,3723.02837,N,12159.39853,W,0.820,188.36,110706,,,A*74'', Some ''74''),
     (Some ''GPRMC,162254.00,A,3723.02837,N,12159.39853,W,0.820,188.36,110706,,,A*'', Some ''74''),
     (Some ''GPRMC,162254.00,A,3723.02837,N,12159.39853,W,0.820,188.36,110706,,,A*  '', Some ''74''),
     (Some ''GPRMC,162254.00,A,3723.02837,N,12159.39853,W,0.820,188.36,110706,,,A'', Some ''74''),
     (Some ''$GPGGA,001431.003,3907.3885,N,12102.4767,W,1,05,02.1,00545.5,M,-26.0,M,,*5D'', Some ''5D''),
     (Some ''$GPGGA,001431.003,3907.3885,N,12102.4767,W,1,05,02.1,00545.5,M,-26.0,M,,*'', Some ''5D''),
     (Some ''$GPGGA,001431.003,3907.3885,N,12102.4767,W,1,05,02.1,00545.5,M,-26.0,M,,*  '', Some ''5D''),
     (Some ''$GPGGA,001431.003,3907.3885,N,12102.4767,W,1,05,02.1,00545.5,M,-26.0,M,,'', Some ''5D''),
     (Some ''GPGGA,001431.003,3907.3885,N,12102.4767,W,1,05,02.1,00545.5,M,-26.0,M,,*5D'', Some ''5D''),
     (Some ''GPGGA,001431.003,3907.3885,N,12102.4767,W,1,05,02.1,00545.5,M,-26.0,M,,*'', Some ''5D''),
     (Some ''GPGGA,001431.003,3907.3885,N,12102.4767,W,1,05,02.1,00545.5,M,-26.0,M,,*  '', Some ''5D''),
     (Some ''GPGGA,001431.003,3907.3885,N,12102.4767,W,1,05,02.1,00545.5,M,-26.0,M,,'', Some ''5D''),
     (Some ''$PSRF100,0,9600,8,1,0*'', Some ''0C''),
     (Some ''$PSRF102,9600,8,1,0*'', Some ''12''),
     (Some ''$GPRMC,183729,A,3907.356,N,12102.482,W,000.0,360.0,080301,015.5,E*'', Some ''6F''),
     (Some ''$GPRMB,A,,,,,,,,,,,,V*'', Some ''71''),
     (Some ''$GPGGA,183730,3907.356,N,12102.482,W,1,05,1.6,646.4,M,-24.1,M,,*'', Some ''75''),
     (Some ''$GPGSA,A,3,02,,,07,,09,24,26,,,,,1.6,1.6,1.0*'', Some ''3D''),
     (Some ''$GPGSV,2,1,08,02,43,088,38,04,42,145,00,05,11,291,00,07,60,043,35*'', Some ''71''),
     (Some ''$GPGSV,2,2,08,08,02,145,00,09,46,303,47,24,16,178,32,26,18,231,43*'', Some ''77''),
     (Some ''$PGRME,22.0,M,52.9,M,51.0,M*'', Some ''14''),
     (Some ''$GPGLL,3907.360,N,12102.481,W,183730,A*'', Some ''33''),
     (Some ''$PGRMZ,2062,f,3*'', Some ''2D''),
     (Some ''$PGRMM,WGS 84*'', Some ''06''),
     (Some ''$GPBOD,,T,,M,,*'', Some ''47''),
     (Some ''$GPRTE,1,1,c,0*'', Some ''07''),
     (Some ''$GPRMC,183731,A,3907.482,N,12102.436,W,000.0,360.0,080301,015.5,E*'', Some ''67''),
     (Some ''$GPRMB,A,,,,,,,,,,,,V*'', Some ''71''),
     (Some ''$GPRMC,002454,A,3553.5295,N,13938.6570,E,0.0,43.1,180700,7.1,W,A*'', Some ''3F''),
     (Some ''$GPRMB,A,,,,,,,,,,,,A,A*'', Some ''0B''),
     (Some ''$GPGGA,002454,3553.5295,N,13938.6570,E,1,05,2.2,18.3,M,39.0,M,,*'', Some ''7F''),
     (Some ''$GPGSA,A,3,01,04,07,16,20,,,,,,,,3.6,2.2,2.7*'', Some ''35''),
     (Some ''$GPGSV,3,1,09,01,38,103,37,02,23,215,00,04,38,297,37,05,00,328,00*'', Some ''70''),
     (Some ''$GPGSV,3,2,09,07,77,299,47,11,07,087,00,16,74,041,47,20,38,044,43*'', Some ''73''),
     (Some ''$GPGSV,3,3,09,24,12,282,00*'', Some ''4D''),
     (Some ''$GPGLL,3553.5295,N,13938.6570,E,002454,A,A*'', Some ''4F''),
     (Some ''$GPBOD,,T,,M,,*'', Some ''47''),
     (Some ''$PGRME,8.6,M,9.6,M,12.9,M*'', Some ''15''),
     (Some ''$PGRMZ,51,f*'', Some ''30''),
     (Some ''$HCHDG,101.1,,,7.1,W*'', Some ''3C''),
     (Some ''$GPRTE,1,1,c,*'', Some ''37''),
     (Some ''$GPRMC,002456,A,3553.5295,N,13938.6570,E,0.0,43.1,180700,7.1,W,A*'', Some ''3D''),
     (Some ''$GPRMC,023042,A,3907.3837,N,12102.4684,W,0.0,156.1,131102,15.3,E,A*'', Some ''36''),
     (Some ''$GPRMB,A,,,,,,,,,,,,A,A*'', Some ''0B''),
     (Some ''$GPGGA,023042,3907.3837,N,12102.4684,W,1,04,2.3,507.3,M,-24.1,M,,*'', Some ''75''),
     (Some ''$GPGSA,A,3,04,05,,,09,,,24,,,,,2.8,2.3,1.0*'', Some ''36''),
     (Some ''$GPGSV,3,2,11,09,47,229,42,10,04,157,00,14,00,305,00,24,70,154,33*'', Some ''79''),
     (Some ''$GPGLL,3907.3837,N,12102.4684,W,023042,A,A*'', Some ''5E''),
     (Some ''$GPBOD,,T,,M,,*'', Some ''47''),
     (Some ''$GPVTG,156.1,T,140.9,M,0.0,N,0.0,K*'', Some ''41''),
     (Some ''$PGRME,8.4,M,23.8,M,25.7,M*'', Some ''2B''),
     (Some ''$PGRMZ,1735,f*'', Some ''34''),
     (Some ''$PGRMM,WGS 84*'', Some ''06''),
     (Some ''$HCHDG,,,,15.3,E*'', Some ''30''),
     (Some ''$GPRTE,1,1,c,*'', Some ''37''),
     (Some ''$GPRMC,023044,A,3907.3840,N,12102.4692,W,0.0,156.1,131102,15.3,E,A*'', Some ''37''),
     (Some ''$GPRMC,152926,V,6027.8259,N,02225.6713,E,10.8,0.0,190803,5.9,E,S*'', Some ''22''),
     (Some ''$GPRMB,V,,,,,,,,,,,,A,S*'', Some ''0E''),
     (Some ''$GPGGA,152926,6027.8259,N,02225.6713,E,8,09,2.0,44.7,M,20.6,M,,*'', Some ''79''),
     (Some ''$GPGSA,A,3,07,08,09,11,18,23,26,28,29,,,,6.6,2.0,3.0*'', Some ''38''),
     (Some ''$GPGSV,3,1,09,07,29,138,44,08,22,099,42,09,30,273,44,11,07,057,35*'', Some ''75''),
     (Some ''$GPGSV,3,2,09,18,28,305,43,23,14,340,39,26,64,222,49,28,60,084,49*'', Some ''7E''),
     (Some ''$GPGSV,3,3,09,29,52,187,48*'', Some ''4E''),
     (Some ''$GPGLL,6027.8259,N,02225.6713,E,152926,V,S*'', Some ''48''),
     (Some ''$GPBOD,,T,,M,,*'', Some ''47''),
     (Some ''$PGRME,15.0,M,22.5,M,15.0,M*'', Some ''1B''),
     (Some ''$PGRMZ,147,f,3*'', Some ''19''),
     (Some ''$GPRTE,1,1,c,*'', Some ''37''),
     (Some ''$GPRMC,152928,V,6027.8319,N,02225.6713,E,10.8,0.0,190803,5.9,E,S*'', Some ''29''),
     (Some ''$GPGGA,184050.84,3907.3839,N,12102.4772,W,1,05,1.8,00543,M,,,,*'', Some ''33''),
     (Some ''$GPRMC,184050.84,A,3907.3839,N,12102.4772,W,00.0,000.0,080301,15,E*'', Some ''54''),
     (Some ''$GPGSA,A,3,24,07,09,26,05,,,,,,,,03.6,01.8,03.1*'', Some ''05''),
     (Some ''$PMGNST,02.12,3,T,534,05.0,+03327,00*'', Some ''40''),
     (Some ''$GPGLL,3907.3839,N,12102.4771,W,184051.812,A*'', Some ''2D''),
     (Some ''$GPGGA,184051.81,3907.3839,N,12102.4771,W,1,05,1.8,00543,M,,,,*'', Some ''34''),
     (Some ''$GPRMC,184051.81,A,3907.3839,N,12102.4771,W,00.0,000.0,080301,15,E*'', Some ''53''),
     (Some ''$GPGSA,A,3,24,07,09,26,05,,,,,,,,03.6,01.8,03.1*'', Some ''05''),
     (Some ''$GPGSV,3,1,08,07,57,045,43,09,48,303,48,04,44,144,,02,39,092,*'', Some ''7F''),
     (Some ''$GPGSV,3,2,08,24,18,178,44,26,17,230,41,05,13,292,43,08,01,147,*'', Some ''75''),
     (Some ''$GPGSV,3,3,08,,,,,,,,,,,,,,,,*'', Some ''71''),
     (Some ''$GPGLL,3907.3840,N,12102.4770,W,184052.812,A*'', Some ''21''),
     (Some ''$GPAPB,A,A,0.0,L,N,,,1.1,M,SIM002,1.1,M,,,*'', Some ''21''),
     (Some ''$GPGSA,A,3,01,02,03,04,,,,,,,,,2.0,2.0,2.0*'', Some ''34''),
     (Some ''$GPGSV,3,1,11,01,77,103,,13,53,215,,04,47,300,,20,47,090,*'', Some ''76''),
     (Some ''$GPGSV,3,2,11,19,24,158,,07,21,237,,25,16,039,,24,11,315,*'', Some ''73''),
     (Some ''$GPGSV,3,3,11,11,08,149,,27,00,179,,30,00,354,,,,,*'', Some ''46''),
     (Some ''$GPGLL,5100.2111,N,00500.0006,E,104715.203,A*'', Some ''37''),
     (Some ''$GPGGA,104715.20,5100.2111,N,00500.0006,E,1,04,2.0,-0047,M,,,,*'', Some ''39''),
     (Some ''$GPRMB,A,0.00,L,SIM001,SIM002,5102.6069,N,00500.0000,E,002.4,000.,021.7,V*'', Some ''0D''),
     (Some ''$GPRMC,104715.20,A,5100.2111,N,00500.0006,E,21.7,003.0,140801,01.,W*'', Some ''70''),
     (Some ''$GPAPB,A,A,0.0,L,N,,,1.1,M,SIM002,1.1,M,,,*'', Some ''21''),
     (Some ''$GPGSA,A,3,01,02,03,04,,,,,,,,,2.0,2.0,2.0*'', Some ''34''),
     (Some ''$GPGGA,171537,3350.975,N,11823.991,W,2,07,1.1,-25.8,M,,M,1.8,,D*'', Some ''17''),
     (Some ''$GPGLL,3350.975,N,11823.991,W,171537,A,D*'', Some ''50''),
     (Some ''$GPRMC,171537,A,3350.975,N,11823.991,W,0.0,096.5,060401,013.0,E,D*'', Some ''07''),
     (Some ''$GPVTG,096.5,T,083.5,M,0.0,N,0.0,K,D*'', Some ''22''),
     (Some ''$GPGSA,A,2,04,09,07,24,02,05,26,,,,,,,1.1,*'', Some ''3C''),
     (Some ''$GPGSV,2,1,07,04,62,120,47,09,52,292,53,07,42,044,41,24,38,179,45*'', Some ''7B''),
     (Some ''$GPGSV,2,2,07,02,34,101,43,05,18,304,40,26,09,223,36,,,,*'', Some ''48''),
     (Some ''$PRAYA,6,1,122,0,0,2,36,1,1,,,,,*'', Some ''5A''),
     (Some ''$GPDTM,W84,,0.000000,N,0.000000,E,0.0,W84*'', Some ''6F''),
     (Some ''$GPGGA,171538,3350.974,N,11823.991,W,2,07,1.1,-25.8,M,,M,1.8,,D*'', Some ''19''),
     (Some ''$GPGGA,171537,3350.975,N,11823.991,W,2,07,1.1,-25.8,M,,M,1.8,,D*'', Some ''17''),
     (Some ''$GPGLL,3350.975,N,11823.991,W,171537,A,D*'', Some ''50''),
     (Some ''$GPRMC,171537,A,3350.975,N,11823.991,W,0.0,096.5,060401,013.0,E,D*'', Some ''07''),
     (Some ''$GPVTG,096.5,T,083.5,M,0.0,N,0.0,K,D*'', Some ''22''),
     (Some ''$GPGSA,A,2,04,09,07,24,02,05,26,,,,,,,1.1,*'', Some ''3C''),
     (Some ''$GPGSV,2,1,07,04,62,120,47,09,52,292,53,07,42,044,41,24,38,179,45*'', Some ''7B''),
     (Some ''$GPGSV,2,2,07,02,34,101,43,05,18,304,40,26,09,223,36,,,,*'', Some ''48''),
     (Some ''$PRAYA,6,1,122,0,0,2,36,1,1,,,,,*'', Some ''5A''),
     (Some ''$GPDTM,W84,,0.000000,N,0.000000,E,0.0,W84*'', Some ''6F''),
     (Some ''$GPGGA,171538,3350.974,N,11823.991,W,2,07,1.1,-25.8,M,,M,1.8,,D*'', Some ''19''),
     (Some ''$GPGGA,120557.916,5058.7456,N,00647.0515,E,2,06,1.7,108.5,M,47.6,M,1.5,0000*'', Some ''7A''),
     (Some ''$GPGSA,A,3,20,11,25,01,14,31,,,,,,,2.6,1.7,1.9*'', Some ''3B''),
     (Some ''$GPGSV,2,1,08,11,74,137,45,20,58,248,43,07,27,309,00,14,23,044,36*'', Some ''7A''),
     (Some ''$GPGSV,2,2,08,01,14,187,41,25,13,099,39,31,11,172,37,28,09,265,*'', Some ''71''),
     (Some ''$GPRMC,120557.916,A,5058.7456,N,00647.0515,E,0.00,82.33,220503,,*'', Some ''39''),
     (Some ''$GPGGA,120558.916,5058.7457,N,00647.0514,E,2,06,1.7,109.0,M,47.6,M,1.5,0000*'', Some ''71''),
     (Some ''$GPGGA,001430.003,3907.3885,N,12102.4767,W,1,05,02.1,00545.6,M,-26.0,M,,*'', Some ''5F''),
     (Some ''$GPGSA,A,3,15,18,14,,,31,,,23,,,,04.5,02.1,04.0*'', Some ''0F''),
     (Some ''$GPGSV,3,1,10,15,48,123,35,18,36,064,36,14,77,186,39,03,36,239,29*'', Some ''7A''),
     (Some ''$GPGSV,3,2,10,09,08,059,,31,35,276,35,17,10,125,,11,08,306,*'', Some ''79''),
     (Some ''$GPGSV,3,3,10,23,41,059,37,25,06,173,*'', Some ''70''),
     (Some ''$GPRMC,001430.003,A,3907.3885,N,12102.4767,W,000.0,175.3,220403,015.4,E*'', Some ''71''),
     (Some ''$GPGGA,001431.003,3907.3885,N,12102.4767,W,1,05,02.1,00545.5,M,-26.0,M,,*'', Some ''5D''),
     (Some ''$GPVTG,139.7,T,,M,010.3,N,019.1,K*'', Some ''67''),
     (Some ''$GPGGA,050306,4259.8839,N,07130.3922,W,0,00,99.9,0010,M,,M,000,0000*'', Some ''66''),
     (Some ''$GPGLL,4259.8839,N,07130.3922,W,050306,V*'', Some ''20''),
     (Some ''$GPRMC,050306,V,4259.8839,N,07130.3922,W,010.3,139.7,291003,,*'', Some ''10''),
     (Some ''$GPZDA,050306,29,10,2003,,*'', Some ''43''),
     (Some ''$GPGSA,A,1,,,,,,,,,,,,,99.9,99.9,99.9*'', Some ''09''),
     (Some ''$PSNY,0,00,05,500,06,06,06,06*'', Some ''14''),
     (Some ''$GPRMC,162254.00,A,3723.02837,N,12159.39853,W,0.820,188.36,110706,,,A*'', Some ''74''),
     (Some ''$GPVTG,188.36,T,,M,0.820,N,1.519,K,A*'', Some ''3F''),
     (Some ''$GPGGA,162254.00,3723.02837,N,12159.39853,W,1,03,2.36,525.6,M,-25.6,M,,*'', Some ''65''),
     (Some ''$GPGSA,A,2,25,01,22,,,,,,,,,,2.56,2.36,1.00*'', Some ''02''),
     (Some ''$GPGSV,4,1,14,25,15,175,30,14,80,041,,19,38,259,14,01,52,223,18*'', Some ''76''),
     (Some ''$GPGSV,4,2,14,18,16,079,,11,19,312,,14,80,041,,21,04,135,25*'', Some ''7D''),
     (Some ''$GPGSV,4,3,14,15,27,134,18,03,25,222,,22,51,057,16,09,07,036,*'', Some ''79''),
     (Some ''$GPGSV,4,4,14,07,01,181,,15,25,135,*'', Some ''76''),
     (Some ''$GPGLL,3723.02837,N,12159.39853,W,162254.00,A,A*'', Some ''7C''),
     (Some ''$GPZDA,162254.00,11,07,2006,00,00*'', Some ''63''),
     (None, None)]"

text \<open>The four bytes of \<open>buffer\<close> keep what the call before has stored.\<close>

definition nmea_round ::
  "bool \<Rightarrow> string \<Rightarrow> string \<Rightarrow> u8 list \<times> tally \<Rightarrow> (u8 list \<times> tally) result" where
  "nmea_round verbose s wanted = (\<lambda>(buffer, t).
     bind_r (checksum_NMEA (Some (string_constant s)) (Some buffer)) (\<lambda>got.
     case got of
       None \<Rightarrow> Inl Null_Dereference
     | Some buffer \<Rightarrow>
         bind_r (strcmp_eq buffer (string_constant wanted)) (\<lambda>eq.
         Inr (buffer, expect verbose (\<not> eq)
           (new_line @ ''    FAIL: '' @ [CHR 0x22] @ s @ [CHR 0x22] @ '' returns '' @ [CHR 0x22] @
             map (\<lambda>b. char_of (unat b)) (cstr buffer) @ [CHR 0x22] @ '' instead of '' @ [CHR 0x22] @ wanted @
             [CHR 0x22]) t))))"

fun nmea_rounds ::
  "bool \<Rightarrow> (string option \<times> string option) list \<Rightarrow> u8 list \<times> tally \<Rightarrow> (u8 list \<times> tally) result" where
  "nmea_rounds verbose [] bt = Inl Out_Of_Bounds"
| "nmea_rounds verbose ((chk_input, chk_output) # checks) bt =
     (case (chk_input, chk_output) of
        (Some s, Some wanted) \<Rightarrow> bind_r (nmea_round verbose s wanted bt) (nmea_rounds verbose checks)
      | _ \<Rightarrow> Inr bt)"

definition test_checksum_NMEA ::
  "(string option \<times> string option) list \<Rightarrow> bool \<Rightarrow> u8 list \<Rightarrow> string \<Rightarrow> tally result" where
  "test_checksum_NMEA checks verbose buffer out =
     bind_r (nmea_rounds verbose checks (buffer, 0, out @ ''Testing NMEA checksum: '')) (\<lambda>(_, t).
     Inr (test_end verbose t))"

section \<open>The program\<close>

text \<open>\<open>main\<close> of \<^verbatim>\<open>testall.c\<close>; the buffer of the NMEA test starts with whatever the stack holds.\<close>

definition testall_main :: "u8 list \<Rightarrow> tally result" where
  "testall_main buffer =
     bind_r (test_crc crc_checks True fresh_statics new_line) (\<lambda>(_, crc_errors, out).
     bind_r (test_checksum_NMEA nmea_checks True buffer out) (\<lambda>(nmea_errors, out).
     let problems = crc_errors + nmea_errors; out = out @ new_line in
     Inr (problems,
       if problems = 0 then out @ ''**** All tests succeeded'' @ new_line @ new_line
       else out @ ''**** A TOTAL OF '' @ dec_string (nat problems) @
         '' TESTS FAILED, PLEASE CORRECT THE DETECTED PROBLEMS ****'' @ new_line @ new_line)))"


section \<open>What the CRC test counts\<close>

text \<open>What the routines give for a string, in the form of a check.\<close>

definition crc_values :: "string \<Rightarrow> crc_chk" where
  "crc_values s =
     (let v = library_vals (bytes_of s) in
      \<lparr>input = Some s,
       x_crc8 = foldl (crc_lbyte SHT75_POLY) 0 (bytes_of s),
       x_crc16 = crc_16_val v,
       x_crc32 = crc_32_val v,
       x_crc64_ecma = foldl (crc_lbyte CRC_POLY_64) 0 (bytes_of s),
       x_crc64_we = foldl (crc_lbyte CRC_POLY_64) 0xFFFFFFFFFFFFFFFF (bytes_of s) XOR 0xFFFFFFFFFFFFFFFF,
       x_crcdnp = crc_dnp_val v,
       x_crcmodbus = crc_16_modbus_val v,
       x_crcsick = crc_sick_val v,
       x_crcxmodem = crc_ccitt_0000_val v,
       x_crc1d0f = crc_ccitt_1d0f_val v,
       x_crcffff = crc_ccitt_ffff_val v,
       x_crckermit = crc_kermit_val v\<rparr>)"

definition mismatches :: "string \<Rightarrow> crc_chk \<Rightarrow> nat" where
  "mismatches s chk =
     (let r = crc_values s in
      sum_list (map of_bool
        [x_crc8 r \<noteq> x_crc8 chk, x_crc16 r \<noteq> x_crc16 chk, x_crc32 r \<noteq> x_crc32 chk,
         x_crc64_ecma r \<noteq> x_crc64_ecma chk, x_crc64_we r \<noteq> x_crc64_we chk, x_crcdnp r \<noteq> x_crcdnp chk,
         x_crcmodbus r \<noteq> x_crcmodbus chk, x_crcsick r \<noteq> x_crcsick chk, x_crcxmodem r \<noteq> x_crcxmodem chk,
         x_crc1d0f r \<noteq> x_crc1d0f chk, x_crcffff r \<noteq> x_crcffff chk, x_crckermit r \<noteq> x_crckermit chk]))"

lemma expect_simps [simp]:
  "expect verbose False msg t = t"
  "fst (expect verbose wrong msg t) = fst t + of_bool wrong"
  by (simp_all add: expect_def split: prod.split)

definition plain_text :: "string \<Rightarrow> bool" where
  "plain_text s \<longleftrightarrow> 0 \<notin> set (bytes_of s)"

lemma cstr_constant:
  assumes "plain_text s"
  shows "cstr (string_constant s) = bytes_of s"
proof -
  have "\<forall>c \<in> set (bytes_of s). c \<noteq> 0"
    using assms by (auto simp: plain_text_def)
  then show ?thesis
    by (simp add: cstr_def string_constant_def)
qed

lemma crc_8_constant:
  "crc_8 (Some (bs @ [0])) (length bs) = Inr (foldl (crc_lbyte SHT75_POLY) 0 bs)"
  by (simp add: crc_8_def update_crc_8_def [symmetric] update_crc_8_def [abs_def, symmetric] update_crc_8_eq
      crc_start_defs)

text \<open>The calls of one turn, on sound statics.\<close>

abbreviation filled :: "u16 list \<Rightarrow> u16 crc_tab" where
  "filled t \<equiv> \<lparr>tab_init = True, tab = t\<rparr>"

lemma filled_ok:
  "tab_ok (right_table p) (filled (right_table p))" "tab_ok (left_table p) (filled (left_table p))"
  by (simp_all add: tab_ok_def)

lemma constant_calls:
  fixes s
  defines "ptr \<equiv> Some (string_constant s)" and "n \<equiv> length (bytes_of s)" and "r \<equiv> crc_values s"
  shows "crc_8 ptr n = Inr (x_crc8 r)" "crc_32 gentab32 ptr n = Inr (x_crc32 r)"
    "crc_64_ecma gentab64 ptr n = Inr (x_crc64_ecma r)" "crc_64_we gentab64 ptr n = Inr (x_crc64_we r)"
    "crc_sick ptr n = Inr (x_crcsick r)"
    "tab_ok (right_table CRC_POLY_16) t16 \<Longrightarrow>
      crc_16 t16 ptr n = Inr (x_crc16 r, filled (right_table CRC_POLY_16))"
    "tab_ok (right_table CRC_POLY_16) t16 \<Longrightarrow>
      crc_modbus t16 ptr n = Inr (x_crcmodbus r, filled (right_table CRC_POLY_16))"
    "tab_ok (right_table CRC_POLY_DNP) tdnp \<Longrightarrow>
      crc_dnp tdnp ptr n = Inr (x_crcdnp r, filled (right_table CRC_POLY_DNP))"
    "tab_ok (left_table CRC_POLY_CCITT) tccitt \<Longrightarrow>
      crc_xmodem tccitt ptr n = Inr (x_crcxmodem r, filled (left_table CRC_POLY_CCITT))"
    "tab_ok (left_table CRC_POLY_CCITT) tccitt \<Longrightarrow>
      crc_ccitt_1d0f tccitt ptr n = Inr (x_crc1d0f r, filled (left_table CRC_POLY_CCITT))"
    "tab_ok (left_table CRC_POLY_CCITT) tccitt \<Longrightarrow>
      crc_ccitt_ffff tccitt ptr n = Inr (x_crcffff r, filled (left_table CRC_POLY_CCITT))"
    "tab_ok (right_table CRC_POLY_KERMIT) tkermit \<Longrightarrow>
      crc_kermit tkermit ptr n = Inr (x_crckermit r, filled (right_table CRC_POLY_KERMIT))"
proof -
  let ?bs = "bytes_of s"
  have le: "length ?bs \<le> length (?bs @ [0])"
    by simp
  note defs = ptr_def n_def r_def string_constant_def crc_values_def library_vals_eq Let_def crc_start_defs
  show "crc_8 ptr n = Inr (x_crc8 r)"
    unfolding defs by (simp add: crc_8_constant)
  show "crc_32 gentab32 ptr n = Inr (x_crc32 r)"
    using crc_32_value [OF le] by (simp add: defs)
  show "crc_64_ecma gentab64 ptr n = Inr (x_crc64_ecma r)" "crc_64_we gentab64 ptr n = Inr (x_crc64_we r)"
    using crc64_mod.look_buffer [OF le]
    by (simp_all add: crc_64_ecma_def crc_64_we_def defs del: for_bytes_in_range)
  show "crc_sick ptr n = Inr (x_crcsick r)"
    using crc_sick_value [OF le] by (simp add: defs)
  show "crc_16 t16 ptr n = Inr (x_crc16 r, filled (right_table CRC_POLY_16))"
    "crc_modbus t16 ptr n = Inr (x_crcmodbus r, filled (right_table CRC_POLY_16))"
    if "tab_ok (right_table CRC_POLY_16) t16"
    using crc16_mod.look_loop [OF that le]
    by (simp_all add: crc_16_def crc_modbus_def crc16_mod.ensure_eq that defs)
  show "crc_dnp tdnp ptr n = Inr (x_crcdnp r, filled (right_table CRC_POLY_DNP))"
    if "tab_ok (right_table CRC_POLY_DNP) tdnp"
    using crcdnp_mod.look_loop [OF that le] by (simp add: crc_dnp_def crcdnp_mod.ensure_eq that defs)
  show "crc_xmodem tccitt ptr n = Inr (x_crcxmodem r, filled (left_table CRC_POLY_CCITT))"
    "crc_ccitt_1d0f tccitt ptr n = Inr (x_crc1d0f r, filled (left_table CRC_POLY_CCITT))"
    "crc_ccitt_ffff tccitt ptr n = Inr (x_crcffff r, filled (left_table CRC_POLY_CCITT))"
    if "tab_ok (left_table CRC_POLY_CCITT) tccitt"
    using crcccitt_mod.look_loop [OF that le]
    by (simp_all add: crc_xmodem_def crc_ccitt_1d0f_def crc_ccitt_ffff_def crc_ccitt_generic_def
        crcccitt_mod.ensure_eq that defs)
  show "crc_kermit tkermit ptr n = Inr (x_crckermit r, filled (right_table CRC_POLY_KERMIT))"
    if "tab_ok (right_table CRC_POLY_KERMIT) tkermit"
    using crckermit_mod.look_loop [OF that le] by (simp add: crc_kermit_def crckermit_mod.ensure_eq that defs)
qed

lemma crc_round_counts:
  assumes "statics_ok st" "plain_text s"
  shows "\<exists>st' t'. crc_round verbose s chk (st, t) = Inr (st', t') \<and> statics_ok st' \<and>
    fst t' = fst t + int (mismatches s chk) \<and> (mismatches s chk = 0 \<longrightarrow> t' = t)"
  using assms(1)
  by (simp add: crc_round_def Let_def cstr_constant [OF assms(2)] constant_calls filled_ok statics_ok_def mismatches_def)


text \<open>The checks before the entry without a string.\<close>

fun entries :: "crc_chk list \<Rightarrow> (string \<times> crc_chk) list" where
  "entries [] = []"
| "entries (chk # checks) = (case input chk of None \<Rightarrow> [] | Some s \<Rightarrow> (s, chk) # entries checks)"

definition ended :: "crc_chk list \<Rightarrow> bool" where
  "ended checks \<longleftrightarrow> (\<exists>chk \<in> set checks. input chk = None)"

definition total_mismatches :: "crc_chk list \<Rightarrow> nat" where
  "total_mismatches checks = (\<Sum>(s, chk) \<leftarrow> entries checks. mismatches s chk)"

lemma crc_rounds_count:
  assumes "statics_ok st" "ended checks" "\<forall>(s, chk) \<in> set (entries checks). plain_text s"
  shows "\<exists>st' t'. crc_rounds verbose checks (st, t) = Inr (st', t') \<and> statics_ok st' \<and>
    fst t' = fst t + int (total_mismatches checks) \<and> (total_mismatches checks = 0 \<longrightarrow> t' = t)"
  using assms
proof (induction checks arbitrary: st t)
  case (Cons chk checks)
  show ?case
  proof (cases "input chk")
    case None
    then show ?thesis
      using Cons.prems by (simp add: total_mismatches_def)
  next
    case (Some s)
    then have "plain_text s"
      using Cons.prems(3) by simp
    from crc_round_counts [OF Cons.prems(1) this, of verbose chk t]
    obtain st1 t1 where first: "crc_round verbose s chk (st, t) = Inr (st1, t1)" "statics_ok st1"
        "fst t1 = fst t + int (mismatches s chk)" "mismatches s chk = 0 \<longrightarrow> t1 = t"
      by (elim exE conjE) (rule that)
    have "ended checks" "\<forall>(s, chk) \<in> set (entries checks). plain_text s"
      using Cons.prems(2,3) Some by (auto simp: ended_def)
    from Cons.IH [OF first(2) this, of t1]
    obtain st2 t2 where "crc_rounds verbose checks (st1, t1) = Inr (st2, t2)" "statics_ok st2"
        "fst t2 = fst t1 + int (total_mismatches checks)" "total_mismatches checks = 0 \<longrightarrow> t2 = t1"
      by (elim exE conjE) (rule that)
    then show ?thesis
      using first Some by (simp add: total_mismatches_def)
  qed
qed (simp add: ended_def)

lemma test_crc_counts:
  assumes "statics_ok st" "ended checks" "\<forall>(s, chk) \<in> set (entries checks). plain_text s"
  shows "\<exists>st' out'. test_crc checks verbose st out = Inr (st', int (total_mismatches checks), out') \<and>
    statics_ok st' \<and>
    (total_mismatches checks = 0 \<longrightarrow> out' = out @ ''Testing CRC routines: OK'' @ new_line)"
proof -
  let ?t = "(0, out @ ''Testing CRC routines: '')"
  obtain st' e out' where "crc_rounds verbose checks (st, ?t) = Inr (st', e, out')" "statics_ok st'"
      "e = int (total_mismatches checks)" "total_mismatches checks = 0 \<longrightarrow> out' = snd ?t"
    using crc_rounds_count [OF assms, of verbose ?t] by auto
  then show ?thesis
    by (simp add: test_crc_def test_end_def)
qed

lemmas check_strings = mismatches_def crc_values_def library_vals_eq Let_def bytes_of_def crc_rbyte_def crc_rstep_def
  crc_lbyte_def crc_lstep_def SHT75_POLY_def sick_step_def crc_poly_defs swap_bytes16_def word_cat_eq
  funpow_numeral mask_numeral

lemma crc_checks_entries:
  "entries crc_checks = [(''123456789'', crc_checks ! 0), (''Lammert Bies'', crc_checks ! Suc 0),
     ('''', crc_checks ! 2), ('' '', crc_checks ! 3)]"
  by (simp add: crc_checks_def)

lemma check_digits: "mismatches ''123456789'' (crc_checks ! 0) = 0"
  by (simp add: crc_checks_def check_strings)

lemma check_name: "mismatches ''Lammert Bies'' (crc_checks ! Suc 0) = 0"
  by (simp add: crc_checks_def check_strings)

lemma check_short: "mismatches '''' (crc_checks ! 2) = 0" "mismatches '' '' (crc_checks ! 3) = 0"
  by (simp_all add: crc_checks_def check_strings)

lemma crc_checks_right: "total_mismatches crc_checks = 0"
  by (simp add: total_mismatches_def crc_checks_entries check_digits check_name check_short)

lemma crc_checks_ended: "ended crc_checks"
  by (simp add: ended_def crc_checks_def)

lemma crc_checks_plain: "\<forall>(s, chk) \<in> set (entries crc_checks). plain_text s"
  by (simp add: crc_checks_def plain_text_def bytes_of_def)


section \<open>What the NMEA test counts\<close>

text \<open>The text of a string that the checksum covers.\<close>

definition nmea_text :: "string \<Rightarrow> u8 list" where
  "nmea_text s =
     (let ptr = string_constant s in
      takeWhile (\<lambda>c. \<not> nmea_stop c) (if hd ptr = 0x24 then tl ptr else ptr))"

definition nmea_digits :: "string \<Rightarrow> u8 list" where
  "nmea_digits s = bytes_of (hex_fixed 2 (unat (xor_all (nmea_text s))))"

lemma checksum_constant:
  assumes "3 \<le> length buf"
  shows "checksum_NMEA (Some (string_constant s)) (Some buf) = Inr (Some (nmea_digits s @ 0 # drop 3 buf))"
proof -
  let ?run = "\<lambda>c. \<not> nmea_stop c"
  let ?x = "string_constant s"
  let ?ptr = "if hd ?x = 0x24 then tl ?x else ?x"
  let ?bs = "takeWhile ?run ?ptr"
  have x: "?x \<noteq> []" "last ?x = 0"
    by (simp_all add: string_constant_def)
  have "0 \<in> set ?ptr"
    using x last_in_set [of "tl ?x"] last_in_set [of ?x] by (cases ?x) (auto split: if_splits)
  then obtain e rest where er: "dropWhile ?run ?ptr = e # rest"
    by (cases "dropWhile ?run ?ptr") (auto simp: nmea_stop_def dropWhile_eq_Nil_conv)
  then have stop: "nmea_stop e"
    using hd_dropWhile [of ?run ?ptr] by simp
  have split: "?ptr = ?bs @ e # rest"
    using takeWhile_dropWhile_id [of ?run ?ptr] er by simp
  have body: "nmea_body ?bs"
    by (auto simp: nmea_body_def dest: set_takeWhileD)
  have covered: "nmea_text s = ?bs"
    by (simp add: nmea_text_def Let_def)
  have "checksum_NMEA (Some ?x) (Some buf) =
      bind_r (store_hex2 buf (xor_all ?bs)) (\<lambda>buf. Inr (Some buf))"
  proof (cases "hd ?x = 0x24")
    case True
    then have "?x = 0x24 # ?bs @ e # rest"
      using split x(1) by (cases ?x) simp_all
    then show ?thesis
      using checksum_NMEA_value(1) [OF body stop, of rest buf] by simp
  next
    case False
    then have eq: "?x = ?bs @ e # rest"
      using split by simp
    then have "?bs = [] \<or> hd ?bs \<noteq> 0x24"
      using False by (metis hd_append)
    then show ?thesis
      using checksum_NMEA_value(2) [OF body stop, of rest buf] eq by simp
  qed
  then show ?thesis
    using assms by (simp add: store_hex2_def covered nmea_digits_def)
qed


lemma zero_in_bytes: "0 \<in> set (bytes_of s) \<longleftrightarrow> CHR 0x00 \<in> set s"
proof -
  have "of_nat (of_char c) = (0 :: u8) \<longleftrightarrow> c = CHR 0x00" for c
    using inj_bytes_of [of "[c]" "[CHR 0x00]"] by (auto simp: bytes_of_def)
  then show ?thesis
    by (auto simp: bytes_of_def image_iff eq_commute [of 0])
qed

lemma nmea_digits_nonzero: "0 \<notin> set (nmea_digits s)"
  by (simp add: nmea_digits_def zero_in_bytes hex_fixed_notin is_hex_def)

lemma length_nmea_digits: "length (nmea_digits s) = 2"
  by (simp add: nmea_digits_def bytes_of_def)

lemma strcmp_eq_strings:
  "0 \<notin> set as \<Longrightarrow> 0 \<notin> set bs \<Longrightarrow> strcmp_eq (as @ 0 # rest) (bs @ [0]) = Inr (as = bs)"
proof (induction as arbitrary: bs)
  case Nil
  then show ?case
    by (cases bs) auto
next
  case (Cons a as)
  then show ?case
    by (cases bs) auto
qed

lemma nmea_round_counts:
  assumes "length buf = 4" "plain_text wanted"
  shows "\<exists>buf' t'. nmea_round verbose s wanted (buf, t) = Inr (buf', t') \<and> length buf' = 4 \<and>
    fst t' = fst t + of_bool (nmea_digits s \<noteq> bytes_of wanted) \<and>
    (nmea_digits s = bytes_of wanted \<longrightarrow> t' = t)"
  using assms strcmp_eq_strings [OF nmea_digits_nonzero, of "bytes_of wanted" s "drop 3 buf"]
  by (simp add: nmea_round_def checksum_constant string_constant_def [of wanted] plain_text_def length_nmea_digits)

fun sentences :: "(string option \<times> string option) list \<Rightarrow> (string \<times> string) list" where
  "sentences ((Some s, Some wanted) # checks) = (s, wanted) # sentences checks"
| "sentences _ = []"

definition nmea_ended :: "(string option \<times> string option) list \<Rightarrow> bool" where
  "nmea_ended checks \<longleftrightarrow> (\<exists>(i, wanted) \<in> set checks. i = None \<or> wanted = None)"

definition wrong_sentences :: "(string option \<times> string option) list \<Rightarrow> nat" where
  "wrong_sentences checks =
     (\<Sum>(s, wanted) \<leftarrow> sentences checks. of_bool (nmea_digits s \<noteq> bytes_of wanted))"

lemma nmea_rounds_count:
  assumes "length buf = 4" "nmea_ended checks" "\<forall>(s, wanted) \<in> set (sentences checks). plain_text wanted"
  shows "\<exists>buf' t'. nmea_rounds verbose checks (buf, t) = Inr (buf', t') \<and>
    fst t' = fst t + int (wrong_sentences checks) \<and> (wrong_sentences checks = 0 \<longrightarrow> t' = t)"
  using assms
proof (induction checks arbitrary: buf t rule: sentences.induct)
  case (1 s wanted checks)
  then have plain: "plain_text wanted" and rest: "nmea_ended checks"
      "\<forall>(s, wanted) \<in> set (sentences checks). plain_text wanted"
    by (auto simp: nmea_ended_def)
  from nmea_round_counts [OF 1(2) plain, of verbose s t]
  obtain buf1 t1 where first: "nmea_round verbose s wanted (buf, t) = Inr (buf1, t1)" "length buf1 = 4"
      "fst t1 = fst t + of_bool (nmea_digits s \<noteq> bytes_of wanted)"
      "nmea_digits s = bytes_of wanted \<longrightarrow> t1 = t"
    by (elim exE conjE) (rule that)
  from "1.IH" [OF first(2) rest, of t1]
  obtain buf2 t2 where "nmea_rounds verbose checks (buf1, t1) = Inr (buf2, t2)"
      "fst t2 = fst t1 + int (wrong_sentences checks)" "wrong_sentences checks = 0 \<longrightarrow> t2 = t1"
    by (elim exE conjE) (rule that)
  then show ?case
    using first by (simp add: wrong_sentences_def)
qed (auto simp: nmea_ended_def wrong_sentences_def split: option.split)

lemma test_checksum_NMEA_counts:
  assumes "length buf = 4" "nmea_ended checks" "\<forall>(s, wanted) \<in> set (sentences checks). plain_text wanted"
  shows "\<exists>out'. test_checksum_NMEA checks verbose buf out = Inr (int (wrong_sentences checks), out') \<and>
    (wrong_sentences checks = 0 \<longrightarrow> out' = out @ ''Testing NMEA checksum: OK'' @ new_line)"
proof -
  let ?t = "(0, out @ ''Testing NMEA checksum: '')"
  obtain buf' e out' where "nmea_rounds verbose checks (buf, ?t) = Inr (buf', e, out')"
      "e = int (wrong_sentences checks)" "wrong_sentences checks = 0 \<longrightarrow> out' = snd ?t"
    using nmea_rounds_count [OF assms, of verbose ?t] by auto
  then show ?thesis
    by (simp add: test_checksum_NMEA_def test_end_def)
qed


text \<open>The same digits computed on characters, bit by bit.\<close>

fun char_xor :: "char \<Rightarrow> char \<Rightarrow> char" where
  "char_xor (Char a0 a1 a2 a3 a4 a5 a6 a7) (Char b0 b1 b2 b3 b4 b5 b6 b7) =
     Char (a0 \<noteq> b0) (a1 \<noteq> b1) (a2 \<noteq> b2) (a3 \<noteq> b3) (a4 \<noteq> b4) (a5 \<noteq> b5) (a6 \<noteq> b6) (a7 \<noteq> b7)"

fun char_sum :: "char \<Rightarrow> string \<Rightarrow> char" where
  "char_sum x [] = x"
| "char_sum x (c # cs) =
     (if c = CHR 0x00 \<or> c = CHR 0x0D \<or> c = CHR 0x0A \<or> c = CHR ''*'' then x else char_sum (char_xor x c) cs)"

lemma of_char_xor: "(of_char (char_xor c d) :: u8) = of_char c XOR of_char d"
proof (cases c; cases d)
  fix a0 a1 a2 a3 a4 a5 a6 a7 b0 b1 b2 b3 b4 b5 b6 b7
  assume "c = Char a0 a1 a2 a3 a4 a5 a6 a7" "d = Char b0 b1 b2 b3 b4 b5 b6 b7"
  then show ?thesis
    by (intro bit_word_eqI)
      (auto simp: of_char_Char bit_xor_iff bit_horner_sum_bit_word_iff less_Suc_eq numeral_eq_Suc simp del: horner_sum_simps)
qed

lemma of_char_inj: "(of_char c :: u8) = of_char d \<longleftrightarrow> c = d"
  using inj_bytes_of [of "[c]" "[d]"] by (auto simp: bytes_of_def of_nat_of_char)

lemma nmea_stop_of_char:
  "nmea_stop (of_char c) \<longleftrightarrow> c = CHR 0x00 \<or> c = CHR 0x0D \<or> c = CHR 0x0A \<or> c = CHR ''*''"
  using of_char_inj [of c "CHR 0x00"] of_char_inj [of c "CHR 0x0D"] of_char_inj [of c "CHR 0x0A"]
    of_char_inj [of c "CHR ''*''"] by (simp add: nmea_stop_def)

lemma xor_all_char_sum:
  "xor_all (takeWhile (\<lambda>c. \<not> nmea_stop c) (map of_char s @ [0])) XOR of_char x = of_char (char_sum x s)"
proof (induction s arbitrary: x)
  case (Cons c s)
  show ?case
    using Cons [of "char_xor x c"] by (simp add: nmea_stop_of_char of_char_xor ac_simps)
qed (simp add: nmea_stop_def)

lemma nmea_digits_char_sum:
  "nmea_digits s =
     bytes_of (hex_fixed 2 (of_char (char_sum (CHR 0x00) (if s \<noteq> [] \<and> hd s = CHR ''$'' then tl s else s))))"
proof -
  let ?s = "if s \<noteq> [] \<and> hd s = CHR ''$'' then tl s else s"
  let ?ptr = "if hd (string_constant s) = 0x24 then tl (string_constant s) else string_constant s"
  have "?ptr = map of_char ?s @ [0]"
  proof (cases s)
    case (Cons c cs)
    then show ?thesis
      using of_char_inj [of c "CHR ''$''"] by (simp add: string_constant_def bytes_of_def of_nat_of_char)
  qed (simp add: string_constant_def bytes_of_def)
  moreover have "(of_char (CHR 0x00) :: u8) = 0"
    by simp
  ultimately have "xor_all (nmea_text s) = of_char (char_sum (CHR 0x00) ?s)"
    using xor_all_char_sum [of ?s "CHR 0x00"] by (simp only: nmea_text_def Let_def xor.right_neutral)
  moreover have "unat (of_char c :: u8) = of_char c" for c
    using unat_of_nat [of "of_char c", where ?'a = 8] by (simp add: of_nat_of_char)
  ultimately show ?thesis
    by (simp add: nmea_digits_def)
qed


text \<open>A list in which every check is right, and how to establish it sentence by sentence.\<close>

inductive all_right :: "(string option \<times> string option) list \<Rightarrow> bool" where
  last_entry: "all_right [(None, None)]"
| right_sentence: "nmea_digits s = bytes_of wanted \<Longrightarrow> CHR 0x00 \<notin> set wanted \<Longrightarrow> all_right checks \<Longrightarrow>
    all_right ((Some s, Some wanted) # checks)"

lemma all_right_counts:
  "all_right checks \<Longrightarrow> nmea_ended checks \<and> wrong_sentences checks = 0 \<and>
    (\<forall>(s, wanted) \<in> set (sentences checks). plain_text wanted)"
  by (induction rule: all_right.induct) (auto simp: nmea_ended_def wrong_sentences_def plain_text_def zero_in_bytes)

lemmas char_steps = nmea_digits_char_sum list.sel list.distinct char_sum.simps char_xor.simps char.inject
  simp_thms if_True if_False not_True_eq_False not_False_eq_True

lemma nmea_checks_right: "all_right nmea_checks"
  unfolding nmea_checks_def
  by (intro all_right.intros; (simp only: char_steps)?; simp add: hex_fixed_2 hex_char_def bytes_of_def)

section \<open>The program succeeds\<close>

text \<open>
  C39: \<open>test_crc\<close> returns the number of expected values that differ from the results of the twelve routines,
  whatever its array holds up to the first entry without a string and whatever was called before, and
  \<open>test_checksum_NMEA\<close> the number of sentences whose checksum differs.  On the arrays in the sources
  neither finds any, so the program prints that all tests have succeeded and returns 0.
\<close>

theorem testall_succeeds:
  assumes "statics_ok st" "ended checks" "\<forall>(s, chk) \<in> set (entries checks). plain_text s"
    "nmea_ended pairs" "\<forall>(s, wanted) \<in> set (sentences pairs). plain_text wanted" "length buffer = 4"
  shows "(\<exists>st' text. test_crc checks verbose st out = Inr (st', int (total_mismatches checks), text)) \<and>
    (\<exists>text. test_checksum_NMEA pairs verbose buffer out = Inr (int (wrong_sentences pairs), text)) \<and>
    testall_main buffer = Inr (0,
      new_line @ ''Testing CRC routines: OK'' @ new_line @ ''Testing NMEA checksum: OK'' @ new_line @
      new_line @ ''**** All tests succeeded'' @ new_line @ new_line)"
proof -
  obtain st' where crc: "test_crc crc_checks True fresh_statics new_line =
      Inr (st', 0, new_line @ ''Testing CRC routines: OK'' @ new_line)"
    using test_crc_counts [OF statics_ok_fresh crc_checks_ended crc_checks_plain, of True new_line]
    by (auto simp: crc_checks_right)
  have nmea: "test_checksum_NMEA nmea_checks True buffer out =
      Inr (0, out @ ''Testing NMEA checksum: OK'' @ new_line)" for out
    using test_checksum_NMEA_counts [OF assms(6), of nmea_checks True out] all_right_counts [OF nmea_checks_right]
    by auto
  have "testall_main buffer = Inr (0,
      new_line @ ''Testing CRC routines: OK'' @ new_line @ ''Testing NMEA checksum: OK'' @ new_line @
      new_line @ ''**** All tests succeeded'' @ new_line @ new_line)"
    by (simp add: testall_main_def crc nmea)
  then show ?thesis
    using test_crc_counts [OF assms(1-3), of verbose out] test_checksum_NMEA_counts [OF assms(6,4,5), of verbose out]
    by blast
qed

text \<open>A wrong Modbus value for the empty string and a wrong checksum are counted.\<close>

lemma testall_succeeds_witness:
  "(\<exists>st text. test_crc [(crc_values []) \<lparr>x_crcmodbus := 0\<rparr>, (crc_values []) \<lparr>input := None\<rparr>] True fresh_statics [] =
      Inr (st, 1, text)) \<and>
    (\<exists>text. test_checksum_NMEA [(Some ''$A*'', Some ''42''), (None, None)] True [7, 7, 7, 7] [] = Inr (1, text)) \<and>
    (\<exists>text. testall_main [7, 7, 7, 7] = Inr (0, text))"
proof -
  let ?checks = "[(crc_values []) \<lparr>x_crcmodbus := 0\<rparr>, (crc_values []) \<lparr>input := None\<rparr>]"
  have checks: "ended ?checks" "\<forall>(s, chk) \<in> set (entries ?checks). plain_text s" "total_mismatches ?checks = 1"
    by (simp_all add: ended_def crc_values_def Let_def plain_text_def bytes_of_def total_mismatches_def
        mismatches_def library_vals_eq)
  have "wrong_sentences [(Some ''$A*'', Some ''42''), (None, None)] = 1"
    by (simp add: wrong_sentences_def nmea_digits_char_sum hex_fixed_2 hex_char_def bytes_of_def)
  then show ?thesis
    using testall_succeeds [OF statics_ok_fresh checks(1,2), of "[(Some ''$A*'', Some ''42''), (None, None)]" "[7, 7, 7, 7]"
        True "[]"] checks(3)
    by (auto simp: nmea_ended_def plain_text_def zero_in_bytes)
qed

end
