(* ===== verification/Spec2Isabelle.thy ===== *)
theory Spec2Isabelle
  imports Crc8 Crc_Sick Crc16 Crc_Dnp Crc_Kermit Crc_Ccitt Crc32 Crc64 Nmea Member_List
    Task_Mutex Sign_In_Race Roster_Race Pool_Progress Chat Task_Queue Tst_Crc Libcrc_Test
begin

text \<open>
  A peer-to-peer chat program in C (\<^verbatim>\<open>Chat/src\<close>) and the checksum library it vendors
  (\<^verbatim>\<open>Chat/libcrc\<close>): the model, and the theorems about it.

  \<^bold>\<open>The program.\<close>  A peer keeps a linked list of the members it knows, its own entry first
  (\<^verbatim>\<open>list.c\<close>).  A command thread reads lines from the user (\<^verbatim>\<open>chat.c\<close>) and puts a task
  for each into the sending pool; a server thread accepts connections (\<^verbatim>\<open>server.c\<close>) and puts
  a task for each into the receiving pool.  A pool has three threads that share a queue under a mutex and a condition
  variable (\<^verbatim>\<open>thpool.c\<close>).  The tasks (\<^verbatim>\<open>task.c\<close>) exchange packets (\<^verbatim>\<open>packet.h\<close>): sign-in,
  sign-out, member list, message, error; a sending task opens a connection (\<^verbatim>\<open>client.c\<close>), a receiving one
  tests the CRC-32 of the payload with \<open>crc_32\<close> of libcrc and works on the member list under another
  mutex.  libcrc has one module per CRC; a separate program, \<open>precalc\<close>, writes the tables of CRC-32 and
  CRC-64 when the library is built, and a sample program runs nine CRCs at once.

  \<^bold>\<open>How C is modelled.\<close>  Integers of a fixed width are words of that width; \<open>int\<close> counters and descriptors are
  \<open>int\<close>.  What the language leaves undefined (a read or write out of bounds, through a null pointer, after
  \<open>free\<close>, or of a variable without value) is a \<open>c_fault\<close>, so functions return \<open>c_fault + 'a\<close>; those
  with a loop over pointers return an option of that, with \<open>None\<close> for a run that does not end.  The heap of
  the list and that of the queue are partial maps from addresses to cells, 0 is \<open>NULL\<close>.  The results of
  system and library calls (\<open>malloc\<close>, sockets, threads, files) are parameters.

  \<^bold>\<open>The theories.\<close>
  \<^item> \<open>Prelude\<close>: types, faults, sequencing (\<open>bind_r\<close>, \<open>bind_c\<close>), C strings, loops over bytes, words.
    \<open>Linked_Chain\<close>: chains of heap cells, shared by the member list and the queue.
    \<open>Text_Format\<close>: the part of \<open>printf\<close> in use.
  \<^item> \<open>Crc_Reference\<close>: the bit-serial shift registers and what they detect, as the locale \<open>crc_register\<close>.
    \<open>Crc_Burst\<close>: bursts of wrong bits.
    \<open>Crc_Table\<close>: the tables, the statics of a module (\<open>crc_tab\<close>), and the contracts \<open>look_table\<close>
    and \<open>lazy_table\<close> that each module with a table discharges.  \<open>Checksum_Header\<close>: \<^verbatim>\<open>checksum.h\<close>.
  \<^item> \<open>Crc16\<close>, \<open>Crc_Dnp\<close>, \<open>Crc_Kermit\<close>, \<open>Crc_Ccitt\<close>, \<open>Crc8\<close>, \<open>Crc_Sick\<close>, \<open>Crc32\<close>, \<open>Crc64\<close>,
    \<open>Nmea\<close>: one module of \<^verbatim>\<open>libcrc/src\<close> each (\<^verbatim>\<open>crc16.c\<close>, \<^verbatim>\<open>crcdnp.c\<close>, \<^verbatim>\<open>crckrmit.c\<close>, \<^verbatim>\<open>crcccitt.c\<close>,
    \<^verbatim>\<open>crc8.c\<close>, \<^verbatim>\<open>crcsick.c\<close>, \<^verbatim>\<open>crc32.c\<close>, \<^verbatim>\<open>crc64.c\<close>, \<^verbatim>\<open>nmea-chk.c\<close>).  \<open>Precalc\<close>: \<^verbatim>\<open>libcrc/precalc\<close>.
    \<open>Tst_Crc\<close>: \<^verbatim>\<open>libcrc/examples/tstcrc.c\<close>.  \<open>Libcrc_Test\<close>: \<^verbatim>\<open>libcrc/test\<close>, the test program with all its checks.
  \<^item> \<open>Member_Spec\<close>: the member list as a list of pairs, and the locale \<open>member_table\<close>; \<open>Member_List\<close>:
    \<^verbatim>\<open>list.c\<close>, its refinement of that list and the interpretation of the locale.
  \<^item> \<open>Packet\<close>: \<^verbatim>\<open>packet.h\<close>, byte order, the layout of a packet and of the members in its payload.
    \<open>Tasks\<close>: every function of \<^verbatim>\<open>task.c\<close> over \<open>chat_state\<close> (the list, the flag \<open>sign\<close>, the mutex,
    the trace of what was sent, closed and told the user).  \<open>Task_Properties\<close>: their theorems.
    \<open>Task_Invariant\<close>: sequences of tasks (\<open>job\<close>, \<open>run_jobs\<close>), each task a caller of the functions of
    \<open>Tasks\<close> in an environment of its own.
    \<open>Group_Join\<close>: the tasks of three peers by which one joins the group of the others.
  \<^item> \<open>Task_Steps\<close>: tasks that run at the same time.  \<open>task_step\<close> is one step of a task: what it does under the
    mutex, computed by the functions of \<open>Tasks\<close>, or a test or assignment it makes without; \<open>crowd_run\<close>
    interleaves the steps of any number of tasks.  \<open>Task_Mutex\<close>: how the mutex is lost.
    \<open>Sign_In_Race\<close>: newcomers at the same time.
    \<open>Roster_Race\<close>: threads that search and change one list in smaller steps, with and without the mutex of
    \<^verbatim>\<open>task.c\<close>.
  \<^item> \<open>Thread_Pool\<close>: \<^verbatim>\<open>thpool.c\<close> as one thread runs it.  \<open>Pool_Machine\<close>: all threads of a
    pool interleaved, one inductive relation for each of \<open>Thpool_add_task\<close>, \<open>Thpool_routine\<close> and
    \<open>Thpool_destroy\<close>, on one state.  \<open>Pool_Queue\<close>, \<open>Pool_Invariant\<close>, \<open>Pool_Progress\<close>: the memory
    of a running pool, what every reachable state satisfies, and that the pool makes progress.
  \<^item> \<open>Client\<close>: \<^verbatim>\<open>client.c\<close>.  \<open>Server\<close>: \<^verbatim>\<open>server.c\<close>.  \<open>Chat\<close>: \<^verbatim>\<open>chat.c\<close>.
    \<open>Task_Queue\<close>: \<^verbatim>\<open>taskqueue.c\<close>, wrappers of POSIX message queues which no other file includes and the
    makefile does not build.

  \<^bold>\<open>What the theorems show.\<close>
  \<^item> libcrc: every routine, one-pass or byte by byte, computes the bit-serial CRC of its
    polynomial whether its table had been filled before or not; the literal and the generated tables are
    those of the polynomials; CRC-32 detects every burst of 32 bits, Sick and NMEA single wrong bytes.  The
    test program of the library finds no error in the modelled routines.
  \<^item> Member list: every operation refines an operation on lists of pairs, in every reachable
    state there are no duplicates and the counter is right; \<open>List_delete\<close> leaves a dangling pointer.
  \<^item> Protocol: a member list sent by one peer is merged into that of another; the bounds of the payload that
    are not checked, the checksum that is tested and ignored, and the error paths that keep the mutex.
    Whatever tasks run and whatever they receive, those that return leave a well-formed list behind with the own
    entry first, and of all connections exactly those that brought a sign-in or an unknown packet stay open.
    Without losses a sign-in ends with the newcomer in the list of every peer, and with theirs in its own.
  \<^item> Concurrent tasks: alone, the steps of a task are its function.  However the steps of many tasks are interleaved,
    the list stays well-formed, each task makes at most 520 steps, and when all are done the balance of the
    descriptors is that of the tasks one by one.  The mutex is lost only by a sign-out of somebody unknown, and
    then for ever: no task ends that has yet to work on the list.  The sign-in of a newcomer tests the number of members
    long before it enters the newcomer, so of those that come to a lone peer together the peer tells none of
    a later one.  As long as all take the mutex, no interleaving of searches, insertions and
    deletions faults, and none is stuck before a deletion finds nobody; the one search that does not take it can use a
    freed member.
  \<^item> Thread pool: in every interleaving the only fault is the null write of a caller whose \<open>malloc\<close>
    failed, the mutex is exclusive and the queue is first in,
    first out; no wake-up is lost, so every task is run once; \<open>Thpool_destroy\<close> ends.
  \<^item> Client, server, commands: what each outcome of the system calls leads to, which descriptors stay open, and which
    input overflows which buffer.

  \<^bold>\<open>Bounds and termination.\<close>  Loops over buffers recurse on an index or on the bytes left, and a read past the
  end is a fault.  Loops over pointers are \<open>partial_function (option)\<close>; that they return on every
  well-formed list is part of the theorems.  \<open>pack_loop\<close> of \<open>Tst_Crc\<close> gets the length of its buffer as
  fuel: after as many rounds its pointer is behind the buffer.  The bounds of \<open>pool_drains\<close> and
  \<open>pool_destroy_ends\<close> come from a measure on the states of a pool that every counted step makes smaller,
  that of \<open>Task_Steps\<close> from \<open>rank\<close>: a packet announces at most 255 members, each two steps of \<open>recv_sign_in\<close>.

  \<^bold>\<open>Not modelled.\<close>
  \<^item> \<open>resend_packet\<close> of \<^verbatim>\<open>task.c\<close>, whose body is commented out, and the diagnostics on the terminal,
    except that a string they read must end in its buffer.
  \<^item> What other tasks do while one holds the mutex: such a section is one step of \<open>Task_Steps\<close>, as nothing the
    others may do then without the mutex reads or writes what it changes, except the tests of the counter and of
    \<open>sign\<close> (which are steps of their own, before or after it) and the search of \<open>Roster_Race\<close>.  A section that
    never ends, or that leaves without unlocking, stops the tasks that need the mutex (\<open>Task_Mutex\<close>).  The
    position that \<open>strtok\<close> keeps and the terminal are not shared between tasks.
  \<^item> Memory orders below the mutex, the \<open>_MSC_VER\<close> variants of the library calls, the makefiles, the
    documentation, and the object files and binaries in the tree.
\<close>

end
